(* ===== verification/Go_Prelude.thy ===== *)
theory Go_Prelude
  imports Main "HOL-Library.Word" "HOL-Library.AList"
begin

text \<open>
  Shared vocabulary of the development: the Go types the components are written in (bytes, 64-bit
  unsigned integers, addresses, hashes, maps, results), the big-endian reading of byte slices that
  relates the fixed-size arrays of src/common/types.go to words, and the lemma collections the
  component proofs use.
\<close>

section \<open>Lemma collections\<close>

named_theorems go_map_simps \<open>rewrite rules for Go maps (lookup, length and keys after an update)\<close>
named_theorems word_bounds \<open>bounds and no-wrap-around facts on 64-bit words\<close>
named_theorems big_simps \<open>rewrite rules for big integers reduced to 256 bits\<close>

section \<open>Basic types\<close>

text \<open>
  \<open>[20]byte\<close> and \<open>[32]byte\<close> arrays are words of 160 and 256 bits in big-endian reading;
  Go's \<open>bytes.Compare\<close> on two arrays of the same length is then the order of the words
  (lemma \<open>be_nat_less_iff\<close> below).  A \<open>big.Int\<close> is an \<open>int\<close>.
\<close>

type_synonym byte = "8 word"
type_synonym bytes = "byte list"
type_synonym uint64 = "64 word"
type_synonym address = "160 word"
type_synonym hash = "256 word"
type_synonym bigint = int

text \<open>
  A Go map is an association list with distinct keys; the order of the list stands for the order in
  which one \<open>range\<close> loop visits the map.  A nil or empty map is \<open>[]\<close>.
\<close>

type_synonym ('k, 'v) go_map = "('k \<times> 'v) list"

abbreviation map_get :: "('k, 'v) go_map \<Rightarrow> 'k \<Rightarrow> 'v option" where
  "map_get m k \<equiv> map_of m k"

abbreviation map_put :: "'k \<Rightarrow> 'v \<Rightarrow> ('k, 'v) go_map \<Rightarrow> ('k, 'v) go_map" where
  "map_put k v m \<equiv> AList.update k v m"

abbreviation map_del :: "'k \<Rightarrow> ('k, 'v) go_map \<Rightarrow> ('k, 'v) go_map" where
  "map_del k m \<equiv> AList.delete k m"

abbreviation map_ok :: "('k, 'v) go_map \<Rightarrow> bool" where
  "map_ok m \<equiv> distinct (map fst m)"

abbreviation map_has :: "('k, 'v) go_map \<Rightarrow> 'k \<Rightarrow> bool" where
  "map_has m k \<equiv> map_of m k \<noteq> None"

section \<open>The interface of a Go map\<close>

text \<open>
  What the clients of a Go map rely on: the laws of lookup after insertion and deletion, and the
  effect of both on \<open>len\<close>.  The clients' counting facts are proved once, from the laws.
\<close>

locale go_map_spec =
  fixes get :: "'m \<Rightarrow> 'k \<Rightarrow> 'v option"
    and put :: "'k \<Rightarrow> 'v \<Rightarrow> 'm \<Rightarrow> 'm"
    and del :: "'k \<Rightarrow> 'm \<Rightarrow> 'm"
    and len :: "'m \<Rightarrow> nat"
    and ok :: "'m \<Rightarrow> bool"
  assumes get_put: "get (put k v m) = (get m)(k \<mapsto> v)"
    and get_del: "get (del k m) = (get m)(k := None)"
    and finite_get: "finite (dom (get m))"
    and len_dom: "ok m \<Longrightarrow> len m = card (dom (get m))"
    and ok_put: "ok m \<Longrightarrow> ok (put k v m)"
    and ok_del: "ok m \<Longrightarrow> ok (del k m)"
begin

lemma len_put:
  "ok m \<Longrightarrow> len (put k v m) = (if get m k = None then Suc (len m) else len m)"
  by (auto simp: len_dom ok_put get_put finite_get card_insert_if domIff)

lemma len_del:
  "ok m \<Longrightarrow> len (del k m) = (if get m k = None then len m else len m - 1)"
  by (auto simp: len_dom ok_del get_del finite_get card_Diff_singleton_if domIff)

lemma get_put_same: "get (put k v m) k = Some v"
  by (simp add: get_put)

lemma get_put_other: "k' \<noteq> k \<Longrightarrow> get (put k v m) k' = get m k'"
  by (simp add: get_put)

lemma len_put_bounds: "ok m \<Longrightarrow> len m \<le> len (put k v m) \<and> len (put k v m) \<le> Suc (len m)"
  by (simp add: len_put)

end

lemma length_eq_card_dom: "distinct (map fst m) \<Longrightarrow> length m = card (dom (map_of m))"
  by (simp add: dom_map_of_conv_image_fst card_image distinct_map distinct_card)

interpretation gmap: go_map_spec map_of AList.update AList.delete length "\<lambda>m. distinct (map fst m)"
  by unfold_locales
    (auto simp: update_conv' delete_conv' finite_dom_map_of length_eq_card_dom
        intro: distinct_update distinct_delete)

lemmas go_map_laws [go_map_simps] =
  gmap.get_put gmap.get_del gmap.len_put gmap.len_del gmap.ok_put gmap.ok_del

section \<open>Words\<close>

lemma unat_byte_less [word_bounds]: "unat (b :: byte) < 256"
  using unsigned_less [of b, where ?'a = nat] by simp

lemma unat_uint64_less [word_bounds]: "unat (x :: uint64) < 18446744073709551616"
  using unsigned_less [of x, where ?'a = nat] by simp

lemma unat_add_uint64 [word_bounds]:
  "unat (x :: uint64) + unat y < 18446744073709551616 \<Longrightarrow> unat (x + y) = unat x + unat y"
  by (simp add: unat_word_ariths)

lemma unat_mult_uint64 [word_bounds]:
  "unat (x :: uint64) * unat y < 18446744073709551616 \<Longrightarrow> unat (x * y) = unat x * unat y"
  by (simp add: unat_word_ariths)

lemma map_ok_get_iff: "map_ok m \<Longrightarrow> (map_of m k = Some v) = ((k, v) \<in> set m)"
  by simp

section \<open>Aborted executions\<close>

text \<open>
  A computation ends in a value (\<open>Inr\<close>), in a Go run-time panic or, where the model bounds a recursion,
  because the fuel is used up.
\<close>

datatype abort = GoPanic | FuelExhausted

type_synonym 'a exec = "abort + 'a"

definition bind_exec :: "'a exec \<Rightarrow> ('a \<Rightarrow> 'b exec) \<Rightarrow> 'b exec" where
  "bind_exec m f = (case m of Inl e \<Rightarrow> Inl e | Inr x \<Rightarrow> f x)"

lemma bind_exec_simps [simp]: "bind_exec (Inl e) f = Inl e" "bind_exec (Inr x) f = f x"
  by (simp_all add: bind_exec_def)

lemma bind_exec_Inl: "bind_exec m g = Inl e \<longleftrightarrow> m = Inl e \<or> (\<exists>x. m = Inr x \<and> g x = Inl e)"
  by (cases m) auto

lemma bind_exec_Inr: "bind_exec m g = Inr y \<longleftrightarrow> (\<exists>x. m = Inr x \<and> g x = Inr y)"
  by (cases m) auto

end
