(* ===== verification/Common.thy ===== *)
theory Common
  imports Go_Prelude
begin

unbundle bit_operations_syntax

text \<open>
  The helpers of src/common (types.go, bytes.go) and src/common/math (big.go, integer.go):
  big-endian byte slices, addresses and hashes, padding, 256-bit big-integer arithmetic and checked
  64-bit arithmetic.  The methods of Go's \<open>math/big\<close> the code uses (\<open>BitLen\<close>, \<open>Bytes\<close>,
  \<open>SetBytes\<close>, \<open>Bits\<close>, \<open>Uint64\<close>, \<open>Int64\<close>) are the first definitions.
\<close>

section \<open>Big-endian byte slices\<close>

fun be_nat :: "bytes \<Rightarrow> nat" where
  "be_nat [] = 0"
| "be_nat (b # bs) = unat b * 256 ^ length bs + be_nat bs"

primrec be_bytes :: "nat \<Rightarrow> nat \<Rightarrow> bytes" where
  "be_bytes 0 v = []"
| "be_bytes (Suc n) v = word_of_nat (v div 256 ^ n) # be_bytes n v"

lemma length_be_bytes [simp]: "length (be_bytes n v) = n"
  by (induction n) simp_all

lemma be_nat_bound: "be_nat bs < 256 ^ length bs"
proof (induction bs)
  case (Cons b bs)
  have "unat b \<le> 255" using unat_byte_less [of b] by simp
  then have "unat b * 256 ^ length bs \<le> 255 * 256 ^ length bs" by (rule mult_le_mono1)
  with Cons show ?case unfolding be_nat.simps length_Cons power_Suc by linarith
qed simp

lemma unat_byte_of_nat: "unat (word_of_nat n :: byte) = n mod 256"
  by (simp add: unat_of_nat)

lemma be_nat_be_bytes: "be_nat (be_bytes n v) = v mod 256 ^ n"
proof (induction n)
  case (Suc n)
  have "v mod (256 ^ n * 256) = 256 ^ n * (v div 256 ^ n mod 256) + v mod 256 ^ n"
    by (rule mod_mult2_eq)
  with Suc show ?case
    by (simp add: unat_byte_of_nat mult.commute)
qed simp

lemma be_nat_append: "be_nat (xs @ ys) = be_nat xs * 256 ^ length ys + be_nat ys"
  by (induction xs) (simp_all add: algebra_simps power_add)

lemma be_nat_replicate0 [simp]: "be_nat (replicate n 0) = 0"
  by (induction n) simp_all

lemma be_bytes_be_nat: "be_bytes (length bs) (be_nat bs) = bs"
proof -
  have gen: "be_bytes (length bs) (k * 256 ^ length bs + be_nat bs) = bs" for k
  proof (induction bs arbitrary: k)
    case (Cons b bs)
    let ?n = "length bs"
    have eq: "k * 256 ^ length (b # bs) + be_nat (b # bs)
        = (k * 256 + unat b) * 256 ^ ?n + be_nat bs"
      by (simp add: algebra_simps)
    have "((k * 256 + unat b) * 256 ^ ?n + be_nat bs) div 256 ^ ?n = k * 256 + unat b"
      using be_nat_bound [of bs] by simp
    moreover have "word_of_nat (k * 256 + unat b) = b"
      by (rule word_unat_eq_iff [THEN iffD2])
        (simp add: unat_byte_of_nat unat_byte_less del: of_nat_add of_nat_mult)
    ultimately show ?case
      using Cons.IH [of "k * 256 + unat b"] unfolding eq by simp
  qed simp
  from gen [of 0] show ?thesis by simp
qed

lemma be_nat_inj: "length xs = length ys \<Longrightarrow> be_nat xs = be_nat ys \<Longrightarrow> xs = ys"
  by (metis be_bytes_be_nat)

text \<open>Comparing two slices of one length byte by byte is comparing the numbers they write.\<close>

lemma be_nat_less_iff:
  "length xs = length ys \<Longrightarrow>
     (be_nat xs < be_nat ys) = ((xs, ys) \<in> lexord {(a, b). unat a < unat b})"
proof (induction xs ys rule: list_induct2)
  case (Cons x xs y ys)
  let ?m = "256 ^ length ys :: nat"
  have bx: "be_nat xs < ?m" and bys: "be_nat ys < ?m"
    using be_nat_bound [of xs] be_nat_bound [of ys] Cons.hyps by simp_all
  have lt: "unat a * ?m + c < unat b * ?m + d" if "unat a < unat b" and "c < ?m"
    for a b :: byte and c d
  proof -
    have "Suc (unat a) * ?m \<le> unat b * ?m" using that by (intro mult_le_mono1) simp
    then show ?thesis using that by simp
  qed
  consider "unat x < unat y" | "unat y < unat x" | "x = y"
    using linorder_neqE_nat word_unat_eq_iff by metis
  then show ?case
  proof cases
    case 1
    then show ?thesis using lt [OF 1 bx, of "be_nat ys"] Cons.hyps by simp
  next
    case 2
    then have "\<not> unat x < unat y" "x \<noteq> y" by auto
    then show ?thesis using lt [OF 2 bys, of "be_nat xs"] Cons.hyps by simp
  next
    case 3
    then show ?thesis using Cons by simp
  qed
qed simp

section \<open>Big integers\<close>

text \<open>\<open>BitLen\<close> of the absolute value; \<open>0\<close> has length 0.\<close>

fun bit_len :: "nat \<Rightarrow> nat" where
  "bit_len n = (if n = 0 then 0 else Suc (bit_len (n div 2)))"

declare bit_len.simps [simp del]

definition BitLen :: "bigint \<Rightarrow> nat" where
  "BitLen x = bit_len (nat \<bar>x\<bar>)"

definition big_Bytes :: "bigint \<Rightarrow> bytes" where
  "big_Bytes x = be_bytes ((BitLen x + 7) div 8) (nat \<bar>x\<bar>)"

definition big_SetBytes :: "bytes \<Rightarrow> bigint" where
  "big_SetBytes bs = int (be_nat bs)"

definition big_Uint64 :: "bigint \<Rightarrow> uint64" where
  "big_Uint64 x = word_of_int \<bar>x\<bar>"

definition big_Int64 :: "bigint \<Rightarrow> int" where
  "big_Int64 x = sint (word_of_int x :: uint64)"

text \<open>\<open>Bits\<close>: the absolute value as little-endian 64-bit words without leading zero words.\<close>

fun big_words :: "nat \<Rightarrow> uint64 list" where
  "big_words n = (if n = 0 then [] else word_of_nat n # big_words (n div 2 ^ 64))"

declare big_words.simps [simp del]

lemma bit_len_le_iff: "bit_len n \<le> k \<longleftrightarrow> n < 2 ^ k"
proof (induction n arbitrary: k rule: bit_len.induct)
  case (1 n)
  show ?case
  proof (cases "n = 0")
    case True
    then show ?thesis by (simp add: bit_len.simps [of 0])
  next
    case False
    then have step: "bit_len n = Suc (bit_len (n div 2))"
      by (subst bit_len.simps) simp
    show ?thesis
    proof (cases k)
      case 0
      with step False show ?thesis by simp
    next
      case (Suc j)
      have "(n div 2 < 2 ^ j) = (n < 2 ^ Suc j)" by auto
      with 1 [OF False, of j] step Suc show ?thesis by simp
    qed
  qed
qed

lemma BitLen_gt_iff: "k < BitLen x \<longleftrightarrow> 2 ^ k \<le> nat \<bar>x\<bar>"
  by (metis BitLen_def bit_len_le_iff not_le)

lemma BitLen_gt_64_iff: "0 \<le> x \<Longrightarrow> 64 < BitLen x \<longleftrightarrow> 2 ^ 64 \<le> x"
  by (auto simp: BitLen_gt_iff le_nat_iff)

lemma BitLen_pos_iff: "0 < BitLen x \<longleftrightarrow> x \<noteq> 0"
  using BitLen_gt_iff [of 0 x] by auto

lemma bit_len_less_bytes: "n < 256 ^ ((bit_len n + 7) div 8)"
proof -
  have "n < 2 ^ bit_len n" using bit_len_le_iff [of n "bit_len n"] by simp
  also have "(2::nat) ^ bit_len n \<le> 2 ^ (8 * ((bit_len n + 7) div 8))"
    by (rule power_increasing) presburger+
  also have "\<dots> = 256 ^ ((bit_len n + 7) div 8)" by (simp add: power_mult)
  finally show ?thesis .
qed

lemma big_SetBytes_Bytes: "big_SetBytes (big_Bytes x) = \<bar>x\<bar>"
  using bit_len_less_bytes [of "nat \<bar>x\<bar>"]
  by (simp add: big_SetBytes_def big_Bytes_def be_nat_be_bytes BitLen_def)

lemma unat_big_Uint64: "0 \<le> x \<Longrightarrow> unat (big_Uint64 x) = nat (x mod 2 ^ 64)"
  by (simp only: big_Uint64_def unsigned_of_int nat_take_bit_eq take_bit_eq_mod) simp

section \<open>Hashes and addresses\<close>

definition HashLength :: nat where "HashLength = 32"

definition AddressLength :: nat where "AddressLength = 20"

definition BytesToHash :: "bytes \<Rightarrow> hash" where
  "BytesToHash b =
     (let b = (if length b > HashLength then drop (length b - HashLength) b else b)
      in word_of_nat (be_nat (replicate (HashLength - length b) 0 @ b)))"

definition BytesToAddress :: "bytes \<Rightarrow> address" where
  "BytesToAddress b =
     (let b = (if length b > AddressLength then drop (length b - AddressLength) b else b)
      in word_of_nat (be_nat (replicate (AddressLength - length b) 0 @ b)))"

definition BigToHash :: "bigint \<Rightarrow> hash" where
  "BigToHash b = BytesToHash (big_Bytes b)"

definition BigToAddress :: "bigint \<Rightarrow> address" where
  "BigToAddress b = BytesToAddress (big_Bytes b)"

definition Hash_Bytes :: "hash \<Rightarrow> bytes" where
  "Hash_Bytes h = be_bytes HashLength (unat h)"

definition Address_Bytes :: "address \<Rightarrow> bytes" where
  "Address_Bytes a = be_bytes AddressLength (unat a)"

definition Hash_Big :: "hash \<Rightarrow> bigint" where
  "Hash_Big h = big_SetBytes (Hash_Bytes h)"

definition Address_Big :: "address \<Rightarrow> bigint" where
  "Address_Big a = big_SetBytes (Address_Bytes a)"

lemma word_of_nat_be_nat_drop:
  assumes "256 ^ k = (2 ^ LENGTH('w) :: nat)"
  shows "(word_of_nat (be_nat (drop (length b - k) b)) :: 'w :: len word) = word_of_nat (be_nat b)"
proof (cases "k \<le> length b")
  case True
  have "be_nat b = be_nat (take (length b - k) b) * 256 ^ k + be_nat (drop (length b - k) b)"
    using be_nat_append [of "take (length b - k) b" "drop (length b - k) b"] True by simp
  then have "be_nat b mod 2 ^ LENGTH('w) = be_nat (drop (length b - k) b) mod 2 ^ LENGTH('w)"
    using assms by simp
  then show ?thesis by (simp only: word_of_nat_eq_iff take_bit_eq_mod)
qed simp

lemma BytesToHash_eq: "BytesToHash b = word_of_nat (be_nat b)"
  using word_of_nat_be_nat_drop [where ?'w = 256, of 32 b]
  by (simp add: BytesToHash_def HashLength_def Let_def be_nat_append)

lemma BytesToAddress_eq: "BytesToAddress b = word_of_nat (be_nat b)"
  using word_of_nat_be_nat_drop [where ?'w = 160, of 20 b]
  by (simp add: BytesToAddress_def AddressLength_def Let_def be_nat_append)

lemma be_nat_big_Bytes: "be_nat (big_Bytes x) = nat \<bar>x\<bar>"
  using big_SetBytes_Bytes [of x] by (simp add: big_SetBytes_def)

lemma BigToHash_eq: "0 \<le> x \<Longrightarrow> BigToHash x = word_of_int x"
  by (simp add: BigToHash_def BytesToHash_eq be_nat_big_Bytes)

lemma BigToAddress_eq: "0 \<le> x \<Longrightarrow> BigToAddress x = word_of_int x"
  by (simp add: BigToAddress_def BytesToAddress_eq be_nat_big_Bytes)

lemma Hash_Big_eq: "Hash_Big h = uint h"
proof -
  have "unat h < 256 ^ 32" using unsigned_less [of h, where ?'a = nat] by simp
  then show ?thesis
    by (simp add: Hash_Big_def Hash_Bytes_def big_SetBytes_def HashLength_def be_nat_be_bytes
        del: power_numeral)
qed

lemma Address_Big_eq: "Address_Big a = uint a"
proof -
  have "unat a < 256 ^ 20" using unsigned_less [of a, where ?'a = nat] by simp
  then show ?thesis
    by (simp add: Address_Big_def Address_Bytes_def big_SetBytes_def AddressLength_def
        be_nat_be_bytes del: power_numeral)
qed

lemma BytesToHash_Bytes: "BytesToHash (Hash_Bytes h) = h"
  using Hash_Big_eq [of h] unfolding BytesToHash_eq Hash_Big_def big_SetBytes_def
  by (metis of_int_of_nat_eq word_of_int_uint)

lemma BytesToAddress_Bytes: "BytesToAddress (Address_Bytes a) = a"
  using Address_Big_eq [of a] unfolding BytesToAddress_eq Address_Big_def big_SetBytes_def
  by (metis of_int_of_nat_eq word_of_int_uint)

lemma length_Hash_Bytes [simp]: "length (Hash_Bytes h) = 32"
  by (simp add: Hash_Bytes_def HashLength_def)

lemma length_Address_Bytes [simp]: "length (Address_Bytes a) = 20"
  by (simp add: Address_Bytes_def AddressLength_def)

section \<open>Byte-slice padding\<close>

definition RightPadBytes :: "bytes \<Rightarrow> nat \<Rightarrow> bytes" where
  "RightPadBytes sl l = (if l \<le> length sl then sl
     else sl @ replicate (l - length sl) 0)"

definition LeftPadBytes :: "bytes \<Rightarrow> nat \<Rightarrow> bytes" where
  "LeftPadBytes sl l = (if l \<le> length sl then sl
     else replicate (l - length sl) 0 @ sl)"

lemma length_RightPadBytes [simp]: "length (RightPadBytes s l) = max l (length s)"
  by (simp add: RightPadBytes_def)

lemma be_nat_LeftPadBytes: "be_nat (LeftPadBytes s l) = be_nat s"
  by (simp add: LeftPadBytes_def be_nat_append)

section \<open>256-bit arithmetic on big integers\<close>

definition tt255 :: bigint where "tt255 = 2 ^ 255"

definition tt256 :: bigint where "tt256 = 2 ^ 256"

definition tt256m1 :: bigint where "tt256m1 = tt256 - 1"

definition BigMax :: "bigint \<Rightarrow> bigint \<Rightarrow> bigint" where
  "BigMax x y = (if x < y then y else x)"

definition BigMin :: "bigint \<Rightarrow> bigint \<Rightarrow> bigint" where
  "BigMin x y = (if x > y then y else x)"

text \<open>The loop of \<open>FirstBitSet\<close>: the arguments are the remaining iterations and the index.\<close>

fun FirstBitSet_loop :: "nat \<Rightarrow> nat \<Rightarrow> bigint \<Rightarrow> nat" where
  "FirstBitSet_loop 0 i v = BitLen v"
| "FirstBitSet_loop (Suc n) i v = (if bit v i then i else FirstBitSet_loop n (Suc i) v)"

definition FirstBitSet :: "bigint \<Rightarrow> nat" where
  "FirstBitSet v = FirstBitSet_loop (BitLen v) 0 v"

definition U256 :: "bigint \<Rightarrow> bigint" where
  "U256 x = x AND tt256m1"

definition S256 :: "bigint \<Rightarrow> bigint" where
  "S256 x = (if x < tt255 then x else x - tt256)"

text \<open>
  \<open>Exp\<close> returns the result and the value the argument \<open>base\<close> has afterwards: the loop squares
  \<open>base\<close> in place.
\<close>

fun Exp_word :: "nat \<Rightarrow> uint64 \<Rightarrow> bigint \<Rightarrow> bigint \<Rightarrow> bigint \<times> bigint" where
  "Exp_word 0 w base result = (result, base)"
| "Exp_word (Suc i) w base result =
     Exp_word i (drop_bit 1 w) (U256 (base * base))
       (if w AND 1 = 1 then U256 (result * base) else result)"

fun Exp_words :: "uint64 list \<Rightarrow> bigint \<Rightarrow> bigint \<Rightarrow> bigint \<times> bigint" where
  "Exp_words [] base result = (result, base)"
| "Exp_words (w # ws) base result =
     (case Exp_word 64 w base result of (result', base') \<Rightarrow> Exp_words ws base' result')"

definition Exp :: "bigint \<Rightarrow> bigint \<Rightarrow> bigint \<times> bigint" where
  "Exp base exponent = Exp_words (big_words (nat \<bar>exponent\<bar>)) base 1"

lemma U256_mod [big_simps]: "U256 x = x mod 2 ^ 256"
  by (simp only: U256_def tt256m1_def tt256_def mask_eq_exp_minus_1 [symmetric]
      take_bit_eq_mask [symmetric] take_bit_eq_mod)

lemma U256_range: "0 \<le> U256 x" "U256 x < 2 ^ 256"
  by (simp_all only: U256_mod) simp_all

lemma U256_word: "U256 x = uint (word_of_int x :: hash)"
  by (simp only: U256_mod unsigned_of_int take_bit_eq_mod) simp

lemma U256_id [big_simps]: "0 \<le> x \<Longrightarrow> x < 2 ^ 256 \<Longrightarrow> U256 x = x"
  by (simp only: U256_mod mod_pos_pos_trivial)

lemma U256_S256: "0 \<le> x \<Longrightarrow> x < 2 ^ 256 \<Longrightarrow> U256 (S256 x) = x"
  by (simp add: U256_mod S256_def tt256_def)

lemma S256_sint:
  assumes "0 \<le> x" and "x < 2 ^ 256"
  shows "S256 x = sint (word_of_int x :: hash)"
proof -
  have "(x + 2 ^ 255) mod 2 ^ 256 - 2 ^ 255 = (if x < 2 ^ 255 then x else x - 2 ^ 256)"
  proof (cases "x < 2 ^ 255")
    case True
    then have "(x + 2 ^ 255) mod 2 ^ 256 = x + 2 ^ 255"
      using assms by (intro mod_pos_pos_trivial) simp_all
    with True show ?thesis by simp
  next
    case False
    have "(x + 2 ^ 255) mod 2 ^ 256 = (x + 2 ^ 255 - 2 ^ 256) mod 2 ^ 256"
      by (rule minus_mod_self2 [symmetric])
    also have "\<dots> = x + 2 ^ 255 - 2 ^ 256"
      using False assms by (intro mod_pos_pos_trivial) simp_all
    finally show ?thesis using False by simp
  qed
  moreover have "sint (word_of_int x :: hash) = (x + 2 ^ 255) mod 2 ^ 256 - 2 ^ 255"
    using signed_take_bit_eq_take_bit_shift [of 255 x]
    by (simp add: signed_of_int take_bit_eq_mod)
  ultimately show ?thesis by (simp add: S256_def tt255_def tt256_def)
qed

lemma S256_bounds: "0 \<le> x \<Longrightarrow> x < 2 ^ 256 \<Longrightarrow> - (2 ^ 255) \<le> S256 x \<and> S256 x < 2 ^ 255"
  by (simp add: S256_def tt255_def tt256_def)

subsection \<open>Exponentiation by squaring\<close>

fun words_nat :: "uint64 list \<Rightarrow> nat" where
  "words_nat [] = 0"
| "words_nat (w # ws) = unat w + 2 ^ 64 * words_nat ws"

lemma words_nat_big_words: "words_nat (big_words n) = n"
proof (induction n rule: big_words.induct)
  case (1 n)
  show ?case
  proof (cases "n = 0")
    case True
    then show ?thesis by (simp add: big_words.simps [of 0])
  next
    case False
    then have "big_words n = word_of_nat n # big_words (n div 2 ^ 64)"
      by (subst big_words.simps) simp
    moreover have "unat (word_of_nat n :: uint64) = n mod 2 ^ 64"
      by (simp only: unsigned_of_nat take_bit_eq_mod) simp
    ultimately show ?thesis using 1 [OF False] by simp
  qed
qed

lemma odd_word_and_1: "(w AND 1 = 1) = odd (unat (w :: uint64))"
  by (simp add: and_one_eq odd_iff_mod_2_eq_one [symmetric] bit_unsigned_iff flip: bit_0)

lemma unat_drop_bit_1: "unat (drop_bit 1 (w :: uint64)) = unat w div 2"
  by (simp add: drop_bit_eq_div unat_div)

lemma Exp_word_mod:
  "fst (Exp_word n w b r) mod 2 ^ 256 = r * b ^ (unat w mod 2 ^ n) mod 2 ^ 256 \<and>
   snd (Exp_word n w b r) mod 2 ^ 256 = b ^ 2 ^ n mod 2 ^ 256"
  (is "?P n w b r")
proof (induction n arbitrary: w b r)
  case (Suc n)
  let ?M = "2 ^ 256 :: int" and ?k = "unat w div 2 mod 2 ^ n"
  define b' where "b' = b * b mod ?M"
  define r' where "r' = (if odd (unat w) then r * b mod ?M else r)"
  have split: "unat w mod 2 ^ Suc n = 2 * ?k + unat w mod 2"
    by (simp add: mod_mult2_eq)
  have b'_pow: "x * b' ^ j mod ?M = x * (b * b) ^ j mod ?M" for x j
    by (metis b'_def mod_mult_right_eq power_mod)
  have "fst (Exp_word n (drop_bit 1 w) b' r') mod ?M = r' * b' ^ ?k mod ?M"
    and snd_eq: "snd (Exp_word n (drop_bit 1 w) b' r') mod ?M = b' ^ 2 ^ n mod ?M"
    using Suc.IH [of "drop_bit 1 w" b' r'] by (simp_all only: unat_drop_bit_1)
  then have "fst (Exp_word n (drop_bit 1 w) b' r') mod ?M = r' * (b * b) ^ ?k mod ?M"
    by (simp only: b'_pow)
  also have "\<dots> = r * b ^ (unat w mod 2 ^ Suc n) mod ?M"
  proof (cases "odd (unat w)")
    case True
    then have "unat w mod 2 ^ Suc n = Suc (2 * ?k)"
      unfolding split by (simp add: odd_iff_mod_2_eq_one)
    then have "r * b ^ (unat w mod 2 ^ Suc n) = (r * b) * (b * b) ^ ?k"
      by (simp only: power_Suc power_mult power2_eq_square mult.assoc)
    moreover have "r' * (b * b) ^ ?k mod ?M = (r * b) * (b * b) ^ ?k mod ?M"
      unfolding r'_def by (simp only: True if_True mod_mult_left_eq not_False_eq_True)
    ultimately show ?thesis by (simp only:)
  next
    case False
    then have "unat w mod 2 ^ Suc n = 2 * ?k" unfolding split by (simp add: even_iff_mod_2_eq_zero)
    then show ?thesis using False
      by (simp only: r'_def if_False power_mult power2_eq_square simp_thms)
  qed
  finally have "fst (Exp_word n (drop_bit 1 w) b' r') mod ?M = r * b ^ (unat w mod 2 ^ Suc n) mod ?M" .
  moreover have "snd (Exp_word n (drop_bit 1 w) b' r') mod ?M = b ^ 2 ^ Suc n mod ?M"
    using b'_pow [of 1 "2 ^ n"] snd_eq by (simp add: power_mult power2_eq_square [symmetric])
  ultimately show ?case
    by (simp only: Exp_word.simps odd_word_and_1 U256_mod b'_def r'_def)
qed simp

lemma Exp_word_range:
  "0 \<le> r \<Longrightarrow> r < 2 ^ 256 \<Longrightarrow> 0 \<le> fst (Exp_word n w b r) \<and> fst (Exp_word n w b r) < 2 ^ 256"
proof (induction n arbitrary: w b r)
  case (Suc n)
  then show ?case using U256_range [of "r * b"] by (simp only: Exp_word.simps split: if_split) blast
qed simp

lemma mod_mult_power_cong:
  assumes "r' mod M = (r :: int) mod M" and "b' mod M = b mod M"
  shows "r' * b' ^ k mod M = r * b ^ k mod M"
proof -
  have "b' ^ k mod M = b ^ k mod M" using assms(2) by (metis power_mod)
  with assms(1) show ?thesis by (rule mod_mult_cong)
qed

lemma Exp_words_correct:
  "0 \<le> r \<Longrightarrow> r < 2 ^ 256 \<Longrightarrow> fst (Exp_words ws b r) = r * b ^ words_nat ws mod 2 ^ 256"
proof (induction ws arbitrary: b r)
  case Nil
  then show ?case by simp
next
  case (Cons w ws)
  let ?M = "2 ^ 256 :: int"
  obtain r' b' where eq: "Exp_word 64 w b r = (r', b')" by fastforce
  have w: "unat w mod 2 ^ 64 = unat w" by (simp add: unat_uint64_less)
  have r': "r' mod ?M = r * b ^ unat w mod ?M" and b': "b' mod ?M = b ^ 2 ^ 64 mod ?M"
    using Exp_word_mod [of 64 w b r] unfolding eq fst_conv snd_conv w by blast+
  have range: "0 \<le> r'" "r' < ?M"
    using Exp_word_range [OF Cons.prems, of 64 w b] unfolding eq fst_conv by blast+
  have "fst (Exp_words (w # ws) b r) = r' * b' ^ words_nat ws mod ?M"
    using Cons.IH [OF range] by (simp only: Exp_words.simps eq prod.case)
  also have "\<dots> = r * b ^ unat w * (b ^ 2 ^ 64) ^ words_nat ws mod ?M"
    by (rule mod_mult_power_cong [OF r' b'])
  finally show ?case by (simp only: words_nat.simps power_add power_mult mult.assoc)
qed

lemma Exp_eq: "0 \<le> e \<Longrightarrow> fst (Exp b e) = b ^ nat e mod 2 ^ 256"
  using Exp_words_correct [of 1 "big_words (nat e)" b]
  by (simp add: Exp_def words_nat_big_words)

section \<open>Byte access and fixed-width encodings\<close>

definition bigEndianByteAt :: "bigint \<Rightarrow> nat \<Rightarrow> byte" where
  "bigEndianByteAt x n =
     (let ws = big_words (nat \<bar>x\<bar>); i = n div 8 in
      if i \<ge> length ws then 0 else ucast (drop_bit (8 * (n mod 8)) (ws ! i)))"

definition Byte :: "bigint \<Rightarrow> nat \<Rightarrow> nat \<Rightarrow> byte" where
  "Byte x padlength n = (if n \<ge> padlength then 0 else bigEndianByteAt x (padlength - 1 - n))"

text \<open>
  \<open>ReadBits\<close> fills the buffer from its end: the inner loop writes up to eight bytes of one word,
  the outer loop runs over the words.  The argument \<open>i\<close> is the loop variable of the code.
\<close>

fun ReadBits_inner :: "nat \<Rightarrow> uint64 \<Rightarrow> nat \<Rightarrow> bytes \<Rightarrow> nat \<times> bytes" where
  "ReadBits_inner 0 d i buf = (i, buf)"
| "ReadBits_inner (Suc j) d i buf =
     (if i > 0 then ReadBits_inner j (drop_bit 8 d) (i - 1) (buf[i - 1 := ucast d]) else (i, buf))"

fun ReadBits_outer :: "uint64 list \<Rightarrow> nat \<Rightarrow> bytes \<Rightarrow> bytes" where
  "ReadBits_outer [] i buf = buf"
| "ReadBits_outer (d # ds) i buf =
     (case ReadBits_inner 8 d i buf of (i', buf') \<Rightarrow> ReadBits_outer ds i' buf')"

definition ReadBits :: "bigint \<Rightarrow> bytes \<Rightarrow> bytes" where
  "ReadBits x buf = ReadBits_outer (big_words (nat \<bar>x\<bar>)) (length buf) buf"

definition PaddedBigBytes :: "bigint \<Rightarrow> nat \<Rightarrow> bytes" where
  "PaddedBigBytes x n =
     (if BitLen x div 8 \<ge> n then big_Bytes x else ReadBits x (replicate n 0))"

definition U256Bytes :: "bigint \<Rightarrow> bytes" where
  "U256Bytes n = PaddedBigBytes (U256 n) 32"

lemma ucast_drop_bit_byte: "(ucast (drop_bit k (w :: uint64)) :: byte) = word_of_nat (unat w div 2 ^ k)"
proof -
  have "unat (drop_bit k w) = drop_bit k (unat w)" by (rule unat_drop_bit_eq)
  also have "\<dots> = unat w div 2 ^ k" by (rule drop_bit_eq_div)
  finally show ?thesis by (simp only: word_unat_eq_iff unat_byte_of_nat unsigned_ucast_eq take_bit_eq_mod) simp
qed

lemma length_ReadBits_inner: "length (snd (ReadBits_inner j d i buf)) = length buf"
  by (induction j d i buf rule: ReadBits_inner.induct) auto

lemma length_ReadBits_outer [simp]: "length (ReadBits_outer ds i buf) = length buf"
proof (induction ds i buf rule: ReadBits_outer.induct)
  case (2 d ds i buf)
  obtain i' buf' where e: "ReadBits_inner 8 d i buf = (i', buf')" by fastforce
  then have "length buf' = length buf" using length_ReadBits_inner [of 8 d i buf] by simp
  then show ?case using 2 [OF e [symmetric]] by (simp only: ReadBits_outer.simps e prod.case)
qed simp

lemma ReadBits_inner_spec:
  assumes "i \<le> length buf" and "ReadBits_inner j d i buf = (i', buf')"
  shows "i' = i - j \<and> length buf' = length buf \<and>
    (\<forall>p < length buf. buf' ! p =
       (if i' \<le> p \<and> p < i then ucast (drop_bit (8 * (i - 1 - p)) d) else buf ! p))"
  using assms
proof (induction j arbitrary: d i buf)
  case (Suc j)
  show ?case
  proof (cases "i > 0")
    case True
    let ?buf = "buf[i - 1 := ucast d]"
    have rec: "ReadBits_inner j (drop_bit 8 d) (i - 1) ?buf = (i', buf')"
      using Suc.prems(2) True by simp
    note IH = Suc.IH [OF _ rec]
    have IH: "i' = i - 1 - j \<and> length buf' = length buf \<and>
      (\<forall>p < length buf. buf' ! p =
        (if i' \<le> p \<and> p < i - 1 then ucast (drop_bit (8 * (i - 1 - 1 - p)) (drop_bit 8 d))
         else ?buf ! p))"
      using IH Suc.prems(1) by simp
    have "drop_bit (8 * (i - 1 - 1 - p)) (drop_bit 8 d) = drop_bit (8 * (i - 1 - p)) d"
      if "p < i - 1" for p
    proof -
      have "8 * (i - 1 - 1 - p) + 8 = 8 * (i - 1 - p)" using that by simp
      then show ?thesis by (simp add: drop_bit_drop_bit)
    qed
    moreover have "?buf ! p = (if p = i - 1 then ucast d else buf ! p)" if "p < length buf" for p
      using that True by (auto simp: nth_list_update)
    ultimately show ?thesis using IH True Suc.prems(1) by auto
  next
    case False
    with Suc.prems show ?thesis by auto
  qed
qed auto

lemma ReadBits_outer_spec:
  assumes "i \<le> length buf" and "\<forall>p < i. buf ! p = 0" and "p < length buf"
  shows "length (ReadBits_outer ds i buf) = length buf \<and> ReadBits_outer ds i buf ! p =
    (if p < i then word_of_nat (words_nat ds div 256 ^ (i - 1 - p)) else buf ! p)"
  using assms
proof (induction ds arbitrary: i buf)
  case Nil
  then show ?case by auto
next
  case (Cons d ds)
  let ?V = "words_nat ds"
  obtain i' buf' where inner: "ReadBits_inner 8 d i buf = (i', buf')" by fastforce
  note spec = ReadBits_inner_spec [OF Cons.prems(1) inner]
  have i': "i' = i - 8" and len: "length buf' = length buf" using spec by auto
  have buf': "buf' ! q = (if i' \<le> q \<and> q < i then ucast (drop_bit (8 * (i - 1 - q)) d) else buf ! q)"
    if "q < length buf" for q using spec that by blast
  have IH: "length (ReadBits_outer ds i' buf') = length buf' \<and> ReadBits_outer ds i' buf' ! p =
    (if p < i' then word_of_nat (?V div 256 ^ (i' - 1 - p)) else buf' ! p)"
    using Cons.prems i' len buf' by (intro Cons.IH) auto
  have outer: "ReadBits_outer (d # ds) i buf = ReadBits_outer ds i' buf'"
    by (simp only: ReadBits_outer.simps inner prod.case)
  consider "p < i'" | "i' \<le> p" "p < i" | "i \<le> p" by linarith
  then show ?case
  proof cases
    case 1
    then have e: "i - 1 - p = (i' - 1 - p) + 8" using i' by simp
    have "words_nat (d # ds) div 256 ^ (i - 1 - p) = (unat d + 2 ^ 64 * ?V) div 2 ^ 64 div 256 ^ (i' - 1 - p)"
    proof -
      have "(256::nat) ^ (i' - 1 - p + 8) = 2 ^ 64 * 256 ^ (i' - 1 - p)" by (simp add: power_add)
      then show ?thesis unfolding e by (simp only: div_mult2_eq words_nat.simps)
    qed
    also have "(unat d + 2 ^ 64 * ?V) div 2 ^ 64 = ?V" using unat_uint64_less [of d] by simp
    finally have "words_nat (d # ds) div 256 ^ (i - 1 - p) = ?V div 256 ^ (i' - 1 - p)" .
    moreover have "p < i" using 1 i' by simp
    ultimately show ?thesis using IH 1 outer len by (simp del: words_nat.simps ReadBits_outer.simps)
  next
    case 2
    define q where "q = i - 1 - p"
    have q: "q < 8" using 2 i' unfolding q_def by linarith
    have "(2::nat) ^ 64 = 256 ^ q * (256 * 256 ^ (7 - q))"
      using q by (simp add: power_add [symmetric] power_Suc [symmetric] del: power_Suc)
    then have "words_nat (d # ds) = unat d + 256 ^ q * (256 * (256 ^ (7 - q) * ?V))"
      by (simp only: words_nat.simps mult.assoc)
    then have "words_nat (d # ds) div 256 ^ q = unat d div 256 ^ q + 256 * (256 ^ (7 - q) * ?V)"
      by (simp only: div_mult_self2 [of "256 ^ q"] power_eq_0_iff) simp
    then have "word_of_nat (words_nat (d # ds) div 256 ^ q) = (word_of_nat (unat d div 256 ^ q) :: byte)"
      by (simp add: word_unat_eq_iff unat_byte_of_nat del: of_nat_add of_nat_mult)
    moreover have "(ucast (drop_bit (8 * q) d) :: byte) = word_of_nat (unat d div 256 ^ q)"
      by (simp add: ucast_drop_bit_byte power_mult)
    ultimately show ?thesis using IH 2 outer len buf' [OF Cons.prems(3)] by (simp add: q_def)
  next
    case 3
    then have "\<not> p < i'" "\<not> p < i" using i' by linarith+
    then show ?thesis using IH outer len buf' [OF Cons.prems(3)] by simp
  qed
qed

lemma nth_be_bytes: "p < n \<Longrightarrow> be_bytes n v ! p = word_of_nat (v div 256 ^ (n - 1 - p))"
  by (induction n arbitrary: p) (auto simp: nth_Cons split: nat.split)

lemma ReadBits_zeroed: "ReadBits x (replicate n 0) = be_bytes n (nat \<bar>x\<bar>)"
proof (rule nth_equalityI)
  let ?ws = "big_words (nat \<bar>x\<bar>)"
  note spec = ReadBits_outer_spec [where i = n and buf = "replicate n 0" and ds = ?ws]
  show len: "length (ReadBits x (replicate n 0)) = length (be_bytes n (nat \<bar>x\<bar>))"
    by (simp add: ReadBits_def)
  fix p assume "p < length (ReadBits x (replicate n 0))"
  then have p: "p < n" using len by simp
  then show "ReadBits x (replicate n 0) ! p = be_bytes n (nat \<bar>x\<bar>) ! p"
    using spec [of p] by (simp add: ReadBits_def nth_be_bytes words_nat_big_words)
qed

lemma bit_len_fits: "n < 2 ^ (8 * k) \<Longrightarrow> (bit_len n + 7) div 8 \<le> k"
proof -
  assume "n < 2 ^ (8 * k)"
  then have "bit_len n \<le> 8 * k" by (simp only: bit_len_le_iff)
  then show ?thesis by presburger
qed

lemma PaddedBigBytes_fits:
  assumes "nat \<bar>x\<bar> < 2 ^ (8 * n)"
  shows "PaddedBigBytes x n = be_bytes n (nat \<bar>x\<bar>)"
proof (cases "BitLen x div 8 \<ge> n")
  case True
  have "(BitLen x + 7) div 8 \<le> n" using bit_len_fits [OF assms] by (simp add: BitLen_def)
  with True have "(BitLen x + 7) div 8 = n"
    using div_le_mono [of "BitLen x" "BitLen x + 7" 8] by linarith
  then show ?thesis using True by (simp add: PaddedBigBytes_def big_Bytes_def)
next
  case False
  then show ?thesis by (simp add: PaddedBigBytes_def ReadBits_zeroed)
qed

lemma U256Bytes_eq: "U256Bytes x = be_bytes 32 (nat (x mod 2 ^ 256))"
proof -
  have "0 \<le> x mod 2 ^ 256" "x mod 2 ^ 256 < 2 ^ 256" by simp_all
  then show ?thesis using PaddedBigBytes_fits [of "x mod 2 ^ 256" 32]
    by (simp add: U256Bytes_def U256_mod nat_less_iff)
qed

lemma big_words_nth:
  "(if i < length (big_words n) then big_words n ! i else 0) = word_of_nat (n div 2 ^ (64 * i))"
proof (induction i arbitrary: n)
  case 0
  show ?case by (subst (1 2) big_words.simps) simp
next
  case (Suc i)
  have "n div 2 ^ (64 * Suc i) = n div 2 ^ 64 div 2 ^ (64 * i)"
    by (simp only: div_mult2_eq [symmetric] power_add [symmetric] mult_Suc_right)
  then show ?case using Suc [of "n div 2 ^ 64"]
    by (subst (1 2) big_words.simps) (auto simp del: power_mult)
qed

lemma byte_range_pow: "(2::nat) ^ 8 = 256"
  by simp

lemma word_of_nat_mod_div_byte:
  "(word_of_nat (m mod (a * (256 * c)) div a) :: byte) = word_of_nat (m div a)"
proof (cases "a = 0")
  case False
  have "m mod (a * (256 * c)) div a = m div a mod (256 * c)"
    unfolding mod_mult2_eq using False by simp
  then show ?thesis by (simp add: word_unat_eq_iff unat_byte_of_nat mod_mod_cancel)
qed simp

lemma bigEndianByteAt_eq: "bigEndianByteAt x n = word_of_nat (nat \<bar>x\<bar> div 256 ^ n)"
proof -
  let ?v = "nat \<bar>x\<bar>" and ?i = "n div 8" and ?r = "n mod 8"
  let ?d = "?v div 2 ^ (64 * ?i)"
  have "bigEndianByteAt x n = ucast (drop_bit (8 * ?r) (word_of_nat ?d :: uint64))"
    by (simp add: bigEndianByteAt_def Let_def big_words_nth [symmetric])
  also have "\<dots> = word_of_nat (?d mod 2 ^ 64 div 2 ^ (8 * ?r))"
    by (simp add: ucast_drop_bit_byte unsigned_of_nat take_bit_eq_mod)
  also have "\<dots> = word_of_nat (?d div 2 ^ (8 * ?r))"
  proof -
    have "8 * ?r + (8 + 8 * (7 - ?r)) = 64" by auto
    then have "(2::nat) ^ 64 = 2 ^ (8 * ?r) * (256 * 2 ^ (8 * (7 - ?r)))"
      by (simp only: power_add [symmetric] flip: byte_range_pow)
    then show ?thesis by (simp only: word_of_nat_mod_div_byte)
  qed
  also have "?d div 2 ^ (8 * ?r) = ?v div 256 ^ n"
  proof -
    have "64 * ?i + 8 * ?r = 8 * n" using mult_div_mod_eq [of 8 n] by linarith
    then have "(256::nat) ^ n = 2 ^ (64 * ?i + 8 * ?r)" by (simp only: power_mult byte_range_pow)
    then show ?thesis by (simp only: div_mult2_eq [symmetric] power_add [symmetric])
  qed
  finally show ?thesis .
qed

section \<open>Overflow-checked unsigned arithmetic (\<open>common/math/integer.go\<close>)\<close>

text \<open>The carry, borrow and double-width results of \<open>math/bits\<close>.\<close>

definition bits_Sub64 :: "uint64 \<Rightarrow> uint64 \<Rightarrow> uint64 \<Rightarrow> uint64 \<times> uint64" where
  "bits_Sub64 x y borrow = (x - y - borrow, if unat x < unat y + unat borrow then 1 else 0)"

definition bits_Add64 :: "uint64 \<Rightarrow> uint64 \<Rightarrow> uint64 \<Rightarrow> uint64 \<times> uint64" where
  "bits_Add64 x y carry = (x + y + carry, word_of_nat ((unat x + unat y + unat carry) div 2 ^ 64))"

definition bits_Mul64 :: "uint64 \<Rightarrow> uint64 \<Rightarrow> uint64 \<times> uint64" where
  "bits_Mul64 x y = (word_of_nat (unat x * unat y div 2 ^ 64), x * y)"

definition SafeSub :: "uint64 \<Rightarrow> uint64 \<Rightarrow> uint64 \<times> bool" where
  "SafeSub x y = (case bits_Sub64 x y 0 of (diff, borrowOut) \<Rightarrow> (diff, borrowOut \<noteq> 0))"

definition SafeAdd :: "uint64 \<Rightarrow> uint64 \<Rightarrow> uint64 \<times> bool" where
  "SafeAdd x y = (case bits_Add64 x y 0 of (s, carryOut) \<Rightarrow> (s, carryOut \<noteq> 0))"

definition SafeMul :: "uint64 \<Rightarrow> uint64 \<Rightarrow> uint64 \<times> bool" where
  "SafeMul x y = (case bits_Mul64 x y of (hi, lo) \<Rightarrow> (lo, hi \<noteq> 0))"

lemma word_of_nat_div_zero_iff:
  assumes "n < 2 ^ 128"
  shows "(word_of_nat (n div 2 ^ 64) :: uint64) = 0 \<longleftrightarrow> n < 2 ^ 64"
proof -
  have "n div 2 ^ 64 < 2 ^ 64" using assms by (simp add: div_less_iff_less_mult)
  then have "unat (word_of_nat (n div 2 ^ 64) :: uint64) = n div 2 ^ 64"
    by (simp add: unsigned_of_nat take_bit_eq_mod)
  then show ?thesis by (simp only: word_unat_eq_iff unsigned_0 div_eq_0_iff) simp
qed

lemma SafeAdd_spec: "SafeAdd x y = (x + y, 2 ^ 64 \<le> unat x + unat y)"
proof -
  have "unat x + unat y < 2 ^ 128" using unat_uint64_less [of x] unat_uint64_less [of y] by simp
  from word_of_nat_div_zero_iff [OF this] show ?thesis
    by (simp add: SafeAdd_def bits_Add64_def not_less)
qed

lemma SafeMul_spec: "SafeMul x y = (x * y, 2 ^ 64 \<le> unat x * unat y)"
proof -
  have "unat x \<le> 18446744073709551615" "unat y \<le> 18446744073709551615"
    using unat_uint64_less [of x] unat_uint64_less [of y] by linarith+
  then have "unat x * unat y \<le> 18446744073709551615 * 18446744073709551615"
    by (rule mult_le_mono)
  then have "unat x * unat y < 2 ^ 128" by (rule le_less_trans) simp
  then show ?thesis
    by (simp only: SafeMul_def bits_Mul64_def prod.case word_of_nat_div_zero_iff not_less)
qed

lemma SafeSub_spec: "SafeSub x y = (x - y, unat x < unat y)"
  by (simp add: SafeSub_def bits_Sub64_def)

lemma SafeAdd_value: "\<not> snd (SafeAdd x y) \<Longrightarrow> unat (fst (SafeAdd x y)) = unat x + unat y"
  by (simp add: SafeAdd_spec unat_add_uint64 not_le)

lemma SafeMul_value: "\<not> snd (SafeMul x y) \<Longrightarrow> unat (fst (SafeMul x y)) = unat x * unat y"
  unfolding SafeMul_spec fst_conv snd_conv not_le by (rule unat_mult_uint64) simp

lemma SafeSub_value: "\<not> snd (SafeSub x y) \<Longrightarrow> unat (fst (SafeSub x y)) = unat x - unat y"
  by (simp add: SafeSub_spec unat_sub word_le_nat_alt)

end
