(* ===== verification/Rlp.thy ===== *)
theory Rlp
  imports Common
begin

text \<open>
  The RLP codec: the encoder of \<open>rlp/encode.go\<close> and the splitting functions of \<open>rlp/raw.go\<close>.

  The encoder is written as in the code: an \<open>encbuf\<close> collects the string data and, separately, one
  \<open>listhead\<close> per list, and \<open>toBytes\<close>/\<open>toWriter\<close> weave the two together at the end.  The lemmas show
  that this gives the recursive encoding \<^term>\<open>enc\<close>, that \<open>Split\<close> and \<open>CountValues\<close> undo it, and
  that the encoding is injective.
\<close>

unbundle bit_operations_syntax

section \<open>Size and tag bytes\<close>

text \<open>\<open>byte(x)\<close> for a 64-bit \<open>x\<close>.\<close>

abbreviation byte_of :: "uint64 \<Rightarrow> byte" where
  "byte_of x \<equiv> ucast x"

abbreviation shr :: "uint64 \<Rightarrow> nat \<Rightarrow> uint64" where
  "shr x n \<equiv> drop_bit n x"

abbreviation shl :: "uint64 \<Rightarrow> nat \<Rightarrow> uint64" where
  "shl x n \<equiv> push_bit n x"

text \<open>The bytes \<open>putint\<close> writes to the beginning of its buffer.\<close>

definition putint :: "uint64 \<Rightarrow> bytes" where
  "putint i =
    (if i < 2 ^ 8 then [byte_of i]
     else if i < 2 ^ 16 then [byte_of (shr i 8), byte_of i]
     else if i < 2 ^ 24 then [byte_of (shr i 16), byte_of (shr i 8), byte_of i]
     else if i < 2 ^ 32 then [byte_of (shr i 24), byte_of (shr i 16), byte_of (shr i 8), byte_of i]
     else if i < 2 ^ 40 then
       [byte_of (shr i 32), byte_of (shr i 24), byte_of (shr i 16), byte_of (shr i 8), byte_of i]
     else if i < 2 ^ 48 then
       [byte_of (shr i 40), byte_of (shr i 32), byte_of (shr i 24), byte_of (shr i 16),
        byte_of (shr i 8), byte_of i]
     else if i < 2 ^ 56 then
       [byte_of (shr i 48), byte_of (shr i 40), byte_of (shr i 32), byte_of (shr i 24),
        byte_of (shr i 16), byte_of (shr i 8), byte_of i]
     else
       [byte_of (shr i 56), byte_of (shr i 48), byte_of (shr i 40), byte_of (shr i 32),
        byte_of (shr i 24), byte_of (shr i 16), byte_of (shr i 8), byte_of i])"

text \<open>The loop of \<open>intsize\<close>; eight shifts clear a 64-bit word.\<close>

function intsize_loop :: "nat \<Rightarrow> uint64 \<Rightarrow> nat" where
  "intsize_loop sz i = (let i' = shr i 8 in if i' = 0 then sz else intsize_loop (sz + 1) i')"
  by pat_completeness auto

lemma drop_bit_8_less: "drop_bit 8 (i :: uint64) \<noteq> 0 \<Longrightarrow> unat (drop_bit 8 i) < unat i"
proof -
  assume "drop_bit 8 i \<noteq> 0"
  then have "unat (drop_bit 8 i) \<noteq> 0" by (simp only: unat_eq_0) simp
  moreover have "unat (drop_bit 8 i) = unat i div 256"
    using drop_bit_eq_div [of 8 "unat i"] by (simp add: unat_drop_bit_eq)
  ultimately show ?thesis by linarith
qed

termination intsize_loop
  by (relation "measure (\<lambda>(sz, i). unat i)") (auto simp: drop_bit_8_less)

declare intsize_loop.simps [simp del]

definition intsize :: "uint64 \<Rightarrow> nat" where
  "intsize i = intsize_loop 1 i"

definition headsize :: "uint64 \<Rightarrow> nat" where
  "headsize sz = (if sz < 56 then 1 else 1 + intsize sz)"

definition ListSize :: "uint64 \<Rightarrow> uint64" where
  "ListSize contentSize = word_of_nat (headsize contentSize) + contentSize"

definition puthead :: "byte \<Rightarrow> byte \<Rightarrow> uint64 \<Rightarrow> bytes" where
  "puthead smalltag largetag sz =
     (if sz < 56 then [smalltag + byte_of sz]
      else (let b = putint sz in (largetag + word_of_nat (length b)) # b))"

lemma byte_of_eq: "byte_of i = word_of_nat (unat i)"
  using ucast_drop_bit_byte [of 0 i] by simp

lemma unat_shr: "unat (shr i n) = unat i div 2 ^ n"
  unfolding unat_drop_bit_eq by (rule drop_bit_eq_div)

text \<open>The number of bytes \<open>putint\<close> needs, as a function of the value.\<close>

definition size_of_nat :: "nat \<Rightarrow> nat" where
  "size_of_nat n = (if n = 0 then 1 else (bit_len n + 7) div 8)"

lemma size_of_nat_between:
  assumes "256 ^ k \<le> n" "n < 256 ^ Suc k"
  shows "size_of_nat n = Suc k"
proof -
  have "n < 2 ^ (8 * Suc k)" using assms(2) by (simp only: power_mult byte_range_pow)
  then have "bit_len n \<le> 8 * Suc k" by (simp only: bit_len_le_iff)
  moreover have "\<not> n < 2 ^ (8 * k)" using assms(1) by (simp only: power_mult byte_range_pow not_less)
  then have "\<not> bit_len n \<le> 8 * k" by (simp only: bit_len_le_iff not_False_eq_True)
  ultimately have "(bit_len n + 7) div 8 = Suc k" by (intro div_nat_eqI) simp_all
  moreover have "n \<noteq> 0" using assms(1) zero_less_power [of "256::nat" k] by linarith
  ultimately show ?thesis by (simp add: size_of_nat_def)
qed

lemma size_of_nat_small: "n < 256 \<Longrightarrow> size_of_nat n = 1"
  using size_of_nat_between [of 0 n] by (cases "n = 0") (auto simp: size_of_nat_def)

lemma size_of_nat_le_iff: "0 < k \<Longrightarrow> size_of_nat n \<le> k \<longleftrightarrow> n < 256 ^ k"
proof -
  assume k: "0 < k"
  have "n < 256 ^ k \<longleftrightarrow> bit_len n \<le> 8 * k"
    by (simp only: bit_len_le_iff power_mult byte_range_pow)
  also have "\<dots> \<longleftrightarrow> (bit_len n + 7) div 8 < Suc k" by (subst div_less_iff_less_mult) auto
  finally show ?thesis using k by (auto simp: size_of_nat_def less_Suc_eq_le)
qed

lemma size_of_nat_pos: "0 < size_of_nat n"
proof (cases "n = 0")
  case False
  then have "\<not> n < 2 ^ 0" by simp
  then have "0 < bit_len n" using bit_len_le_iff [of n 0] by simp
  then show ?thesis using False by (simp add: size_of_nat_def)
qed (simp add: size_of_nat_def)

lemma size_of_nat_div: "n div 256 \<noteq> 0 \<Longrightarrow> size_of_nat n = Suc (size_of_nat (n div 256))"
proof (rule antisym)
  let ?k = "size_of_nat (n div 256)"
  assume ne: "n div 256 \<noteq> 0"
  have "n div 256 < 256 ^ ?k" using size_of_nat_le_iff [OF size_of_nat_pos, of "n div 256"] by blast
  then have "n < 256 ^ Suc ?k" by (simp add: div_less_iff_less_mult mult.commute)
  then show "size_of_nat n \<le> Suc ?k" by (simp only: size_of_nat_le_iff zero_less_Suc)
  have "\<not> size_of_nat n \<le> ?k"
  proof
    assume le: "size_of_nat n \<le> ?k"
    then have n: "n < 256 ^ ?k" by (simp only: size_of_nat_le_iff size_of_nat_pos)
    obtain m where m: "?k = Suc m" using size_of_nat_pos [of "n div 256"] by (cases ?k) auto
    have "n div 256 < 256 ^ m" using n unfolding m by (simp add: div_less_iff_less_mult mult.commute)
    moreover from this ne have "m \<noteq> 0" by (cases m) auto
    ultimately have "?k \<le> m" by (simp only: size_of_nat_le_iff neq0_conv)
    with m show False by simp
  qed
  then show "Suc ?k \<le> size_of_nat n" by simp
qed

lemma unat_shr8: "unat (shr i 8) = unat i div 256"
  using drop_bit_eq_div [of 8 "unat i"] by (simp add: unat_drop_bit_eq)

lemma intsize_loop_eq: "intsize_loop (Suc k) i = k + size_of_nat (unat i)"
proof (induction "Suc k" i arbitrary: k rule: intsize_loop.induct)
  case (1 i)
  have zero: "shr i 8 = 0 \<longleftrightarrow> unat i div 256 = 0" by (simp only: unat_shr8 [symmetric] unat_eq_0)
  show ?case
  proof (cases "shr i 8 = 0")
    case True
    then have "unat i < 256" using zero by (simp only: div_eq_0_iff) simp
    with True show ?thesis by (subst intsize_loop.simps) (simp add: Let_def size_of_nat_small)
  next
    case False
    then have "size_of_nat (unat i) = Suc (size_of_nat (unat (shr i 8)))"
      using zero size_of_nat_div [of "unat i"] by (simp only: unat_shr8) simp
    then show ?thesis using False 1 [OF refl False, of "Suc k"]
      by (subst intsize_loop.simps) (simp add: Let_def)
  qed
qed

lemma intsize_eq: "intsize i = size_of_nat (unat i)"
  using intsize_loop_eq [of 0 i] by (simp add: intsize_def)

lemma be_bytes_literals:
  "be_bytes 1 v = [word_of_nat v]"
  "be_bytes 2 v = word_of_nat (v div 2 ^ 8) # be_bytes 1 v"
  "be_bytes 3 v = word_of_nat (v div 2 ^ 16) # be_bytes 2 v"
  "be_bytes 4 v = word_of_nat (v div 2 ^ 24) # be_bytes 3 v"
  "be_bytes 5 v = word_of_nat (v div 2 ^ 32) # be_bytes 4 v"
  "be_bytes 6 v = word_of_nat (v div 2 ^ 40) # be_bytes 5 v"
  "be_bytes 7 v = word_of_nat (v div 2 ^ 48) # be_bytes 6 v"
  "be_bytes 8 v = word_of_nat (v div 2 ^ 56) # be_bytes 7 v"
proof -
  have "be_bytes (Suc (Suc 0)) v = word_of_nat (v div 2 ^ 8) # be_bytes 1 v" by simp
  then show "be_bytes 2 v = word_of_nat (v div 2 ^ 8) # be_bytes 1 v"
    by (simp only: numeral_2_eq_2 [symmetric])
qed (use be_bytes.simps(2) [of 2 v] be_bytes.simps(2) [of 3 v] be_bytes.simps(2) [of 4 v]
    be_bytes.simps(2) [of 5 v] be_bytes.simps(2) [of 6 v] be_bytes.simps(2) [of 7 v] in simp_all)

lemma size_of_nat_cases:
  assumes "n < 2 ^ 64"
  obtains "n < 2 ^ 8" "size_of_nat n = 1"
    | "\<not> n < 2 ^ 8" "n < 2 ^ 16" "size_of_nat n = 2"
    | "\<not> n < 2 ^ 8" "\<not> n < 2 ^ 16" "n < 2 ^ 24" "size_of_nat n = 3"
    | "\<not> n < 2 ^ 8" "\<not> n < 2 ^ 16" "\<not> n < 2 ^ 24" "n < 2 ^ 32" "size_of_nat n = 4"
    | "\<not> n < 2 ^ 8" "\<not> n < 2 ^ 16" "\<not> n < 2 ^ 24" "\<not> n < 2 ^ 32" "n < 2 ^ 40" "size_of_nat n = 5"
    | "\<not> n < 2 ^ 8" "\<not> n < 2 ^ 16" "\<not> n < 2 ^ 24" "\<not> n < 2 ^ 32" "\<not> n < 2 ^ 40" "n < 2 ^ 48" "size_of_nat n = 6"
    | "\<not> n < 2 ^ 8" "\<not> n < 2 ^ 16" "\<not> n < 2 ^ 24" "\<not> n < 2 ^ 32" "\<not> n < 2 ^ 40" "\<not> n < 2 ^ 48" "n < 2 ^ 56" "size_of_nat n = 7"
    | "\<not> n < 2 ^ 8" "\<not> n < 2 ^ 16" "\<not> n < 2 ^ 24" "\<not> n < 2 ^ 32" "\<not> n < 2 ^ 40" "\<not> n < 2 ^ 48" "\<not> n < 2 ^ 56" "size_of_nat n = 8"
proof -
  note between = size_of_nat_between [of 1 n] size_of_nat_between [of 2 n]
    size_of_nat_between [of 3 n] size_of_nat_between [of 4 n] size_of_nat_between [of 5 n]
    size_of_nat_between [of 6 n] size_of_nat_between [of 7 n]
  consider "n < 2 ^ 8"
    | "\<not> n < 2 ^ 8" "n < 2 ^ 16"
    | "\<not> n < 2 ^ 8" "\<not> n < 2 ^ 16" "n < 2 ^ 24"
    | "\<not> n < 2 ^ 8" "\<not> n < 2 ^ 16" "\<not> n < 2 ^ 24" "n < 2 ^ 32"
    | "\<not> n < 2 ^ 8" "\<not> n < 2 ^ 16" "\<not> n < 2 ^ 24" "\<not> n < 2 ^ 32" "n < 2 ^ 40"
    | "\<not> n < 2 ^ 8" "\<not> n < 2 ^ 16" "\<not> n < 2 ^ 24" "\<not> n < 2 ^ 32" "\<not> n < 2 ^ 40" "n < 2 ^ 48"
    | "\<not> n < 2 ^ 8" "\<not> n < 2 ^ 16" "\<not> n < 2 ^ 24" "\<not> n < 2 ^ 32" "\<not> n < 2 ^ 40" "\<not> n < 2 ^ 48" "n < 2 ^ 56"
    | "\<not> n < 2 ^ 8" "\<not> n < 2 ^ 16" "\<not> n < 2 ^ 24" "\<not> n < 2 ^ 32" "\<not> n < 2 ^ 40" "\<not> n < 2 ^ 48" "\<not> n < 2 ^ 56" by blast
  then show ?thesis
  proof cases
    case 1 then show ?thesis using that(1) size_of_nat_small [of n] by simp
  next
    case 2 then show ?thesis using that(2) between(1) by simp
  next
    case 3 then show ?thesis using that(3) between(2) by simp
  next
    case 4 then show ?thesis using that(4) between(3) by simp
  next
    case 5 then show ?thesis using that(5) between(4) by simp
  next
    case 6 then show ?thesis using that(6) between(5) by simp
  next
    case 7 then show ?thesis using that(7) between(6) by simp
  next
    case 8 then show ?thesis using that(8) between(7) assms by simp
  qed
qed

lemma word_less_pow2:
  "(i :: uint64) < 2 ^ 8 \<longleftrightarrow> unat i < 2 ^ 8" "i < 2 ^ 16 \<longleftrightarrow> unat i < 2 ^ 16"
  "i < 2 ^ 24 \<longleftrightarrow> unat i < 2 ^ 24" "i < 2 ^ 32 \<longleftrightarrow> unat i < 2 ^ 32"
  "i < 2 ^ 40 \<longleftrightarrow> unat i < 2 ^ 40" "i < 2 ^ 48 \<longleftrightarrow> unat i < 2 ^ 48"
  "i < 2 ^ 56 \<longleftrightarrow> unat i < 2 ^ 56"
  by (simp_all add: word_less_nat_alt)

lemma putint_eq: "putint i = be_bytes (size_of_nat (unat i)) (unat i)"
proof -
  have "unat i < 2 ^ 64" using unat_uint64_less [of i] by simp
  then show ?thesis
    by (cases rule: size_of_nat_cases)
      (simp_all only: putint_def word_less_pow2 unat_shr byte_of_eq be_bytes_literals
        if_True if_False simp_thms)
qed

lemma length_putint: "length (putint i) = intsize i"
  by (simp add: putint_eq intsize_eq)

lemma be_nat_putint: "be_nat (putint i) = unat i"
proof -
  have "unat i < 256 ^ size_of_nat (unat i)"
    using size_of_nat_le_iff [OF size_of_nat_pos, of "unat i"] by blast
  then show ?thesis by (simp add: putint_eq be_nat_be_bytes)
qed

lemma size_of_nat_le_8: "n < 2 ^ 64 \<Longrightarrow> size_of_nat n \<le> 8"
  using size_of_nat_le_iff [of 8 n] by simp

lemma intsize_bounds: "1 \<le> intsize i" "intsize i \<le> 8"
  using size_of_nat_pos [of "unat i"] size_of_nat_le_8 [of "unat i"] unat_uint64_less [of i]
  by (simp_all add: intsize_eq)

text \<open>The first byte of \<open>putint\<close> is not zero, so the size is written without leading zeros.\<close>

lemma putint_hd: "i \<noteq> 0 \<Longrightarrow> putint i ! 0 \<noteq> 0"
proof
  assume i: "i \<noteq> 0" and z: "putint i ! 0 = 0"
  obtain b bs where put: "putint i = b # bs"
    using intsize_bounds(1) [of i] by (cases "putint i") (auto simp: length_putint [symmetric])
  then have "b = 0" using z by simp
  then have n: "be_nat bs = unat i" using be_nat_putint [of i] put by simp
  have len: "length bs = size_of_nat (unat i) - 1"
    using put length_putint [of i] by (simp add: intsize_eq)
  have lt: "unat i < 256 ^ (size_of_nat (unat i) - 1)" using be_nat_bound [of bs] n len by simp
  show False
  proof (cases "size_of_nat (unat i) = 1")
    case True
    with lt i show False by (simp add: unat_eq_0)
  next
    case False
    then have "0 < size_of_nat (unat i) - 1" using size_of_nat_pos [of "unat i"] by linarith
    then have "size_of_nat (unat i) \<le> size_of_nat (unat i) - 1"
      using lt by (simp only: size_of_nat_le_iff)
    then show False using size_of_nat_pos [of "unat i"] by linarith
  qed
qed

section \<open>Splitting encoded values (\<open>rlp/raw.go\<close>)\<close>

datatype Kind = Byte_kind | String_kind | List_kind

datatype rlp_error = ErrUnexpectedEOF | ErrCanonSize | ErrValueTooLarge | ErrExpectedString
  | ErrExpectedList | ErrNegativeBigInt | PanicSliceBounds

abbreviation u64 :: "byte \<Rightarrow> uint64" where
  "u64 b \<equiv> ucast b"

definition readSize_word :: "bytes \<Rightarrow> nat \<Rightarrow> uint64" where
  "readSize_word b slen =
    (if slen = 1 then u64 (b ! 0)
     else if slen = 2 then shl (u64 (b ! 0)) 8 OR u64 (b ! 1)
     else if slen = 3 then shl (u64 (b ! 0)) 16 OR shl (u64 (b ! 1)) 8 OR u64 (b ! 2)
     else if slen = 4 then
       shl (u64 (b ! 0)) 24 OR shl (u64 (b ! 1)) 16 OR shl (u64 (b ! 2)) 8 OR u64 (b ! 3)
     else if slen = 5 then
       shl (u64 (b ! 0)) 32 OR shl (u64 (b ! 1)) 24 OR shl (u64 (b ! 2)) 16 OR
       shl (u64 (b ! 3)) 8 OR u64 (b ! 4)
     else if slen = 6 then
       shl (u64 (b ! 0)) 40 OR shl (u64 (b ! 1)) 32 OR shl (u64 (b ! 2)) 24 OR
       shl (u64 (b ! 3)) 16 OR shl (u64 (b ! 4)) 8 OR u64 (b ! 5)
     else if slen = 7 then
       shl (u64 (b ! 0)) 48 OR shl (u64 (b ! 1)) 40 OR shl (u64 (b ! 2)) 32 OR
       shl (u64 (b ! 3)) 24 OR shl (u64 (b ! 4)) 16 OR shl (u64 (b ! 5)) 8 OR u64 (b ! 6)
     else if slen = 8 then
       shl (u64 (b ! 0)) 56 OR shl (u64 (b ! 1)) 48 OR shl (u64 (b ! 2)) 40 OR
       shl (u64 (b ! 3)) 32 OR shl (u64 (b ! 4)) 24 OR shl (u64 (b ! 5)) 16 OR
       shl (u64 (b ! 6)) 8 OR u64 (b ! 7)
     else 0)"

definition readSize :: "bytes \<Rightarrow> byte \<Rightarrow> rlp_error + uint64" where
  "readSize b slen =
    (if unat slen > length b then Inl ErrUnexpectedEOF
     else let s = readSize_word b (unat slen) in
       if s < 56 \<or> b ! 0 = 0 then Inl ErrCanonSize else Inr s)"

text \<open>The result is the kind, the size of the tag and the size of the content.\<close>

definition readKind :: "bytes \<Rightarrow> rlp_error + (Kind \<times> uint64 \<times> uint64)" where
  "readKind buf =
    (if length buf = 0 then Inl ErrUnexpectedEOF
     else let b = buf ! 0;
       res =
        (if b < 0x80 then Inr (Byte_kind, 0, 1)
         else if b < 0xB8 then
           (let contentsize = u64 (b - 0x80) in
            if contentsize = 1 \<and> length buf > 1 \<and> buf ! 1 < 128 then Inl ErrCanonSize
            else Inr (String_kind, 1, contentsize))
         else if b < 0xC0 then
           map_sum id (\<lambda>cs. (String_kind, u64 (b - 0xB7) + 1, cs)) (readSize (drop 1 buf) (b - 0xB7))
         else if b < 0xF8 then Inr (List_kind, 1, u64 (b - 0xC0))
         else map_sum id (\<lambda>cs. (List_kind, u64 (b - 0xF7) + 1, cs)) (readSize (drop 1 buf) (b - 0xF7)))
       in case res of
          Inl e \<Rightarrow> Inl e
        | Inr (k, tagsize, contentsize) \<Rightarrow>
            if contentsize > word_of_nat (length buf) - tagsize then Inl ErrValueTooLarge
            else Inr (k, tagsize, contentsize))"

text \<open>
  The slice expression \<open>b[lo:hi]\<close> with 64-bit bounds; out of range it panics, which is a value of
  the error type here.
\<close>

definition slice_u64 :: "bytes \<Rightarrow> uint64 \<Rightarrow> uint64 \<Rightarrow> rlp_error + bytes" where
  "slice_u64 b lo hi =
    (if lo \<le> hi \<and> unat hi \<le> length b then Inr (take (unat hi - unat lo) (drop (unat lo) b))
     else Inl PanicSliceBounds)"

definition Split :: "bytes \<Rightarrow> rlp_error + (Kind \<times> bytes \<times> bytes)" where
  "Split b =
    (case readKind b of
       Inl e \<Rightarrow> Inl e
     | Inr (k, ts, cs) \<Rightarrow>
         (case slice_u64 b ts (ts + cs) of
            Inl e \<Rightarrow> Inl e
          | Inr content \<Rightarrow>
              (case slice_u64 b (ts + cs) (word_of_nat (length b)) of
                 Inl e \<Rightarrow> Inl e
               | Inr rest \<Rightarrow> Inr (k, content, rest))))"

definition SplitString :: "bytes \<Rightarrow> rlp_error + (bytes \<times> bytes)" where
  "SplitString b =
    (case Split b of
       Inl e \<Rightarrow> Inl e
     | Inr (k, content, rest) \<Rightarrow> if k = List_kind then Inl ErrExpectedString else Inr (content, rest))"

definition SplitList :: "bytes \<Rightarrow> rlp_error + (bytes \<times> bytes)" where
  "SplitList b =
    (case Split b of
       Inl e \<Rightarrow> Inl e
     | Inr (k, content, rest) \<Rightarrow> if k \<noteq> List_kind then Inl ErrExpectedList else Inr (content, rest))"

text \<open>The loop of \<open>CountValues\<close>; not returning is the value \<open>None\<close>.\<close>

partial_function (option) CountValues_loop :: "nat \<Rightarrow> bytes \<Rightarrow> (rlp_error + nat) option" where
  "CountValues_loop i b =
    (if length b = 0 then Some (Inr i)
     else case readKind b of
       Inl e \<Rightarrow> Some (Inl e)
     | Inr (k, tagsize, sz) \<Rightarrow>
         (case slice_u64 b (tagsize + sz) (word_of_nat (length b)) of
            Inl e \<Rightarrow> Some (Inl e)
          | Inr b' \<Rightarrow> CountValues_loop (i + 1) b'))"

definition CountValues :: "bytes \<Rightarrow> (rlp_error + nat) option" where
  "CountValues b = CountValues_loop 0 b"

subsection \<open>Reading a size\<close>

lemma unat_u64: "unat (u64 b) = unat b"
  using unat_byte_less [of b] by (simp add: unsigned_ucast_eq take_bit_eq_mod)

lemma shl_or_byte: "unat a < 2 ^ 56 \<Longrightarrow> unat (shl a 8 OR u64 b) = unat a * 256 + unat b"
proof -
  assume a: "unat a < 2 ^ 56"
  have "shl a 8 AND u64 b = 0"
    by (rule bit_eqI) (auto simp: bit_and_iff bit_push_bit_iff bit_ucast_iff dest: bit_imp_le_length)
  then have "shl a 8 OR u64 b = shl a 8 + u64 b"
    using word_plus_and_or [of "shl a 8" "u64 b"] by simp
  moreover have "unat (shl a 8) = unat a * 256"
    using a by (simp add: push_bit_eq_mult unat_word_ariths)
  moreover have "unat a * 256 + unat b < 2 ^ 64" using a unat_byte_less [of b] by simp
  ultimately show ?thesis by (simp add: unat_word_ariths unat_u64)
qed

text \<open>The same size read byte by byte.\<close>

fun read_be :: "uint64 \<Rightarrow> bytes \<Rightarrow> uint64" where
  "read_be a [] = a"
| "read_be a (b # bs) = read_be (shl a 8 OR u64 b) bs"

lemma unat_read_be:
  "unat a * 256 ^ length bs + be_nat bs < 2 ^ 64 \<Longrightarrow>
   unat (read_be a bs) = unat a * 256 ^ length bs + be_nat bs"
proof (induction bs arbitrary: a)
  case (Cons b bs)
  let ?p = "256 ^ length bs :: nat"
  have bound: "unat a * 256 * ?p < 2 ^ 64" using Cons.prems by (simp add: mult.assoc)
  have "unat a * 256 * 1 \<le> unat a * 256 * ?p" by (intro mult_le_mono2) simp
  then have "unat a * 256 < 2 ^ 64" using bound by linarith
  then have a: "unat a < 2 ^ 56" by simp
  then show ?case using Cons.IH [of "shl a 8 OR u64 b"] Cons.prems
    by (simp only: shl_or_byte [OF a] read_be.simps be_nat.simps list.size)
      (simp add: algebra_simps)
qed simp

lemma nat_le_8_cases:
  "1 \<le> (n :: nat) \<Longrightarrow> n \<le> 8 \<Longrightarrow> n = 1 \<or> n = 2 \<or> n = 3 \<or> n = 4 \<or> n = 5 \<or> n = 6 \<or> n = 7 \<or> n = 8"
  by linarith

lemma readSize_word_read_be:
  assumes "1 \<le> slen" "slen \<le> 8" "slen \<le> length b"
  shows "readSize_word b slen = read_be 0 (take slen b)"
proof -
  have take: "take slen b = map ((!) b) [0..<slen]"
    using assms(3) by (simp add: list_eq_iff_nth_eq)
  have "[0..<slen] = 0 # [1..<slen]" using assms(1) by (simp add: upt_conv_Cons)
  moreover have "[1..<slen] = (if 1 < slen then 1 # [2..<slen] else [])"
    using upt_rec [of 1 slen] by (simp only: Suc_1)
  ultimately show ?thesis
    using nat_le_8_cases [OF assms(1,2)] unfolding take
    by (elim disjE) (simp_all add: readSize_word_def push_bit_or push_bit_push_bit or.assoc)
qed

lemma unat_readSize_word:
  assumes "1 \<le> slen" "slen \<le> 8" "slen \<le> length b"
  shows "unat (readSize_word b slen) = be_nat (take slen b)"
proof -
  have "be_nat (take slen b) < 256 ^ slen" using be_nat_bound [of "take slen b"] assms(3) by simp
  also have "(256 :: nat) ^ slen \<le> 256 ^ 8" using assms(2) by (intro power_increasing) simp_all
  finally have "be_nat (take slen b) < 2 ^ 64" by simp
  then show ?thesis using unat_read_be [of 0 "take slen b"] by (simp add: readSize_word_read_be [OF assms])
qed

lemma readSize_putint:
  assumes "56 \<le> sz"
  shows "readSize (putint sz @ xs) (word_of_nat (intsize sz)) = Inr sz"
proof -
  let ?k = "intsize sz"
  have k: "unat (word_of_nat ?k :: byte) = ?k"
    using intsize_bounds [of sz] by (simp add: unat_byte_of_nat)
  have "unat (readSize_word (putint sz @ xs) ?k) = be_nat (take ?k (putint sz @ xs))"
    using intsize_bounds [of sz] by (intro unat_readSize_word) (simp_all add: length_putint)
  also have "take ?k (putint sz @ xs) = putint sz" by (simp add: length_putint [symmetric])
  finally have "readSize_word (putint sz @ xs) ?k = sz"
    by (simp only: be_nat_putint word_unat_eq_iff)
  moreover have "sz \<noteq> 0" using assms by auto
  then have "(putint sz @ xs) ! 0 \<noteq> 0"
    using putint_hd [of sz] intsize_bounds(1) [of sz] by (simp add: nth_append length_putint)
  ultimately show ?thesis
    using assms k by (simp add: readSize_def length_putint Let_def linorder_not_less)
qed

section \<open>The encoding as a function\<close>

text \<open>
  What every Go value is encoded as: a byte string or a list.  \<open>enc\<close> is the encoding by recursion;
  \<open>encodeString\<close> is the code's own.
\<close>

definition encodeStringHeader :: "nat \<Rightarrow> bytes" where
  "encodeStringHeader sz =
    (if sz < 56 then [0x80 + word_of_nat sz]
     else (let b = putint (word_of_nat sz) in (0xB7 + word_of_nat (length b)) # b))"

definition encodeString :: "bytes \<Rightarrow> bytes" where
  "encodeString b = (if length b = 1 \<and> b ! 0 \<le> 0x7F then [b ! 0] else encodeStringHeader (length b) @ b)"

datatype rlp_item = Str bytes | Lst "rlp_item list"

fun enc :: "rlp_item \<Rightarrow> bytes" where
  "enc (Str b) = encodeString b"
| "enc (Lst xs) =
    (let c = concat (map enc xs) in puthead 0xC0 0xF7 (word_of_nat (length c)) @ c)"

fun item_kind :: "rlp_item \<Rightarrow> Kind" where
  "item_kind (Str b) = (if length b = 1 \<and> b ! 0 \<le> 0x7F then Byte_kind else String_kind)"
| "item_kind (Lst xs) = List_kind"

fun item_content :: "rlp_item \<Rightarrow> bytes" where
  "item_content (Str b) = b"
| "item_content (Lst xs) = concat (map enc xs)"

fun item_head :: "rlp_item \<Rightarrow> bytes" where
  "item_head (Str b) = (if length b = 1 \<and> b ! 0 \<le> 0x7F then [] else encodeStringHeader (length b))"
| "item_head (Lst xs) = puthead 0xC0 0xF7 (word_of_nat (length (concat (map enc xs))))"

lemma enc_head_content: "enc v = item_head v @ item_content v"
  by (cases v) (auto simp: encodeString_def Let_def length_Suc_conv)

lemma unat_word_of_nat_64: "n < 2 ^ 64 \<Longrightarrow> unat (word_of_nat n :: uint64) = n"
  by (simp add: unsigned_of_nat take_bit_eq_mod)

lemma word_of_nat_ge_56: "\<not> n < 56 \<Longrightarrow> n < 2 ^ 64 \<Longrightarrow> 56 \<le> (word_of_nat n :: uint64)"
  by (simp add: word_le_nat_alt unat_word_of_nat_64)

lemma word_of_nat_less_56: "n < 2 ^ 64 \<Longrightarrow> (word_of_nat n :: uint64) < 56 \<longleftrightarrow> n < 56"
  by (simp add: word_less_nat_alt unat_word_of_nat_64)

text \<open>A header read back: the small form and the form with a separate size.\<close>

lemma not_too_large:
  assumes "n + m + length rest < 2 ^ 64"
  shows "\<not> (word_of_nat (n + m + length rest) - word_of_nat n :: uint64) < word_of_nat m"
proof -
  have "(word_of_nat (n + m + length rest) - word_of_nat n :: uint64) = word_of_nat (m + length rest)"
    by simp
  moreover have "\<not> (word_of_nat (m + length rest) :: uint64) < word_of_nat m"
    using assms by (simp add: word_less_nat_alt unat_word_of_nat_64 del: of_nat_add)
  ultimately show ?thesis by simp
qed

lemma unat_tag: "unat t + n < 256 \<Longrightarrow> unat (t + word_of_nat n :: byte) = unat t + n"
  by (simp add: unat_word_ariths unat_byte_of_nat)

lemma u64_word_of_nat: "n < 256 \<Longrightarrow> u64 (word_of_nat n) = word_of_nat n"
  by (simp add: word_unat_eq_iff unat_u64 unat_byte_of_nat unat_word_of_nat_64)

lemma readKind_small_string:
  assumes n: "n < 56" and xs: "n \<le> length xs" "Suc (length xs) < 2 ^ 64"
    and canon: "n = 1 \<Longrightarrow> \<not> xs ! 0 < 128"
  shows "readKind ((0x80 + word_of_nat n) # xs) = Inr (String_kind, 1, word_of_nat n)"
proof -
  let ?t = "0x80 + word_of_nat n :: byte"
  have t: "unat ?t = 128 + n" using n unat_tag [of "0x80" n] by simp
  have "\<not> ?t < 0x80" "?t < 0xB8" using n by (simp_all only: word_less_nat_alt t) simp_all
  moreover have "u64 (?t - 0x80) = word_of_nat n" using n by (simp add: u64_word_of_nat)
  moreover have "\<not> (word_of_nat (Suc (length xs)) - 1 :: uint64) < word_of_nat n"
    using not_too_large [of 1 n "drop n xs"] xs by simp
  moreover have "(word_of_nat n :: uint64) = 1 \<longleftrightarrow> n = 1"
    using n unat_word_of_nat_64 [of n] by (auto simp: word_unat_eq_iff)
  ultimately show ?thesis using canon by (simp add: readKind_def Let_def del: of_nat_Suc)
qed

lemma readKind_small_list:
  assumes n: "n < 56" and xs: "n \<le> length xs" "Suc (length xs) < 2 ^ 64"
  shows "readKind ((0xC0 + word_of_nat n) # xs) = Inr (List_kind, 1, word_of_nat n)"
proof -
  let ?t = "0xC0 + word_of_nat n :: byte"
  have t: "unat ?t = 192 + n" using n unat_tag [of "0xC0" n] by simp
  have "\<not> ?t < 0x80" "\<not> ?t < 0xB8" "\<not> ?t < 0xC0" "?t < 0xF8"
    using n by (simp_all only: word_less_nat_alt t) simp_all
  moreover have "u64 (?t - 0xC0) = word_of_nat n" using n by (simp add: u64_word_of_nat)
  moreover have "\<not> (word_of_nat (Suc (length xs)) - 1 :: uint64) < word_of_nat n"
    using not_too_large [of 1 n "drop n xs"] xs by simp
  ultimately show ?thesis by (simp add: readKind_def Let_def del: of_nat_Suc)
qed

lemma readKind_large:
  assumes n: "\<not> n < 56" and xs: "n \<le> length xs"
    and len: "1 + intsize (word_of_nat n) + length xs < 2 ^ 64"
    and base: "base = 0xB7 \<and> k = String_kind \<or> base = 0xF7 \<and> k = List_kind"
  shows "readKind ((base + word_of_nat (intsize (word_of_nat n))) # putint (word_of_nat n) @ xs) =
    Inr (k, word_of_nat (1 + intsize (word_of_nat n)), word_of_nat n)"
proof -
  let ?w = "word_of_nat n :: uint64" and ?s = "intsize (word_of_nat n)"
  let ?t = "base + word_of_nat ?s"
  have s: "1 \<le> ?s" "?s \<le> 8" by (rule intsize_bounds)+
  have n64: "n < 2 ^ 64" using xs len by linarith
  have t: "unat ?t = unat base + ?s" using s base by (intro unat_tag) auto
  have size: "readSize (putint ?w @ xs) (?t - base) = Inr ?w"
    using readSize_putint [OF word_of_nat_ge_56 [OF n n64]] by simp
  have tag: "u64 (?t - base) + 1 = word_of_nat (1 + ?s)"
    using s by (simp add: u64_word_of_nat add.commute)
  have len': "length (?t # putint ?w @ xs) = (1 + ?s) + n + length (drop n xs)"
    using xs by (simp add: length_putint)
  have fits: "\<not> (word_of_nat (length (?t # putint ?w @ xs)) - word_of_nat (1 + ?s) :: uint64) < ?w"
    unfolding len' using len xs by (intro not_too_large) simp
  show ?thesis
  proof (cases "base = 0xB7")
    case True
    then have k: "k = String_kind" using base by auto
    have "\<not> ?t < 0x80" "\<not> ?t < 0xB8" "?t < 0xC0"
      using s t True by (simp_all add: word_less_nat_alt)
    then show ?thesis using size tag fits True k
      by (simp add: readKind_def Let_def del: of_nat_Suc of_nat_add)
  next
    case False
    then have b: "base = 0xF7" "k = List_kind" using base by auto
    have "\<not> ?t < 0x80" "\<not> ?t < 0xB8" "\<not> ?t < 0xC0" "\<not> ?t < 0xF8"
      using s t b by (simp_all add: word_less_nat_alt)
    then show ?thesis using size tag fits b
      by (simp add: readKind_def Let_def del: of_nat_Suc of_nat_add)
  qed
qed

lemma readKind_enc:
  assumes "length (enc v @ rest) < 2 ^ 64"
  shows "readKind (enc v @ rest) =
    Inr (item_kind v, word_of_nat (length (item_head v)), word_of_nat (length (item_content v)))"
proof (cases v)
  case (Str b)
  show ?thesis
  proof (cases "length b = 1 \<and> b ! 0 \<le> 0x7F")
    case True
    then have "b ! 0 < 0x80" by (simp add: word_le_nat_alt word_less_nat_alt)
    moreover have "\<not> (word_of_nat (Suc (length rest)) :: uint64) < 1"
      using assms Str True unat_word_of_nat_64 [of "Suc (length rest)"]
      by (simp add: word_less_nat_alt encodeString_def del: of_nat_Suc)
    moreover have "word_of_nat (Suc 0) = (1 :: uint64)" by simp
    ultimately show ?thesis using True Str
      by (simp add: readKind_def encodeString_def Let_def del: of_nat_Suc)
  next
    case False
    show ?thesis
    proof (cases "length b < 56")
      case small: True
      have "readKind ((0x80 + word_of_nat (length b)) # b @ rest) = Inr (String_kind, 1, word_of_nat (length b))"
        using small False assms Str by (intro readKind_small_string)
          (auto simp: encodeString_def encodeStringHeader_def nth_append word_le_nat_alt word_less_nat_alt)
      then show ?thesis using small False Str by (auto simp: encodeString_def encodeStringHeader_def)
    next
      case large: False
      have "readKind ((0xB7 + word_of_nat (intsize (word_of_nat (length b)))) #
          putint (word_of_nat (length b)) @ b @ rest) =
        Inr (String_kind, word_of_nat (1 + intsize (word_of_nat (length b))), word_of_nat (length b))"
        using large False assms Str by (intro readKind_large)
          (auto simp: encodeString_def encodeStringHeader_def Let_def length_putint)
      then show ?thesis using large False Str
        by (simp add: encodeString_def encodeStringHeader_def Let_def length_putint)
    qed
  qed
next
  case (Lst xs)
  let ?c = "concat (map enc xs)"
  have c64: "length ?c < 2 ^ 64" using assms Lst by (simp add: Let_def)
  show ?thesis
  proof (cases "length ?c < 56")
    case True
    then have head: "puthead 0xC0 0xF7 (word_of_nat (length ?c)) = [0xC0 + word_of_nat (length ?c)]"
      using word_of_nat_less_56 [OF c64] c64
      by (simp add: puthead_def byte_of_eq unat_word_of_nat_64)
    have "readKind ((0xC0 + word_of_nat (length ?c)) # ?c @ rest) = Inr (List_kind, 1, word_of_nat (length ?c))"
      using True assms Lst head by (intro readKind_small_list) (auto simp: Let_def)
    then show ?thesis using head Lst by (simp add: Let_def)
  next
    case False
    then have head: "puthead 0xC0 0xF7 (word_of_nat (length ?c)) =
        (0xF7 + word_of_nat (intsize (word_of_nat (length ?c)))) # putint (word_of_nat (length ?c))"
      using word_of_nat_less_56 [OF c64] by (simp add: puthead_def Let_def length_putint)
    have "readKind ((0xF7 + word_of_nat (intsize (word_of_nat (length ?c)))) #
        putint (word_of_nat (length ?c)) @ ?c @ rest) =
      Inr (List_kind, word_of_nat (1 + intsize (word_of_nat (length ?c))), word_of_nat (length ?c))"
      using False assms Lst head by (intro readKind_large) (auto simp: Let_def length_putint)
    then show ?thesis using head Lst by (simp add: Let_def length_putint)
  qed
qed

lemma Split_enc:
  assumes "length (enc v @ rest) < 2 ^ 64"
  shows "Split (enc v @ rest) = Inr (item_kind v, item_content v, rest)"
proof -
  let ?h = "length (item_head v)" and ?c = "length (item_content v)"
  have len: "?h + ?c + length rest < 2 ^ 64" using assms by (simp add: enc_head_content)
  then have "unat (word_of_nat ?h + word_of_nat ?c :: uint64) = ?h + ?c"
    using unat_word_of_nat_64 [of "?h + ?c"] by simp
  moreover have "unat (word_of_nat (length (enc v @ rest)) :: uint64) = length (enc v @ rest)"
    using assms by (rule unat_word_of_nat_64)
  ultimately show ?thesis
    using readKind_enc [OF assms] len
    by (simp add: Split_def slice_u64_def word_le_nat_alt unat_word_of_nat_64 enc_head_content
        del: of_nat_add)
qed

text \<open>The encoding is never empty, so it is prefix free and a list of encodings splits uniquely.\<close>

lemma enc_not_Nil: "enc v \<noteq> []"
  by (cases v) (auto simp: encodeString_def encodeStringHeader_def puthead_def Let_def)

lemma enc_list_inj:
  assumes "\<And>v w. v \<in> set vs \<Longrightarrow> length (enc v) < 2 ^ 64 \<Longrightarrow> enc v = enc w \<Longrightarrow> v = w"
    and "concat (map enc vs) = concat (map enc ws)" and "length (concat (map enc vs)) < 2 ^ 64"
  shows "vs = ws"
  using assms
proof (induction vs arbitrary: ws)
  case Nil
  then show ?case by (cases ws) (auto simp: enc_not_Nil)
next
  case (Cons v vs)
  then obtain w ws' where ws: "ws = w # ws'" by (cases ws) (auto simp: enc_not_Nil)
  have eq: "enc v @ concat (map enc vs) = enc w @ concat (map enc ws')" using Cons.prems ws by simp
  have len: "length (enc v @ concat (map enc vs)) < 2 ^ 64" using Cons.prems(3) by simp
  then have rest: "concat (map enc vs) = concat (map enc ws')"
    using eq Split_enc [of v "concat (map enc vs)"] Split_enc [of w "concat (map enc ws')"] by (metis Inr_inject snd_conv)
  then have "enc v = enc w" using eq by simp
  then have "v = w" using len by (intro Cons.prems(1)) simp_all
  moreover have "vs = ws'"
    using len by (intro Cons.IH [OF Cons.prems(1) rest]) simp_all
  ultimately show ?case using ws by simp
qed

lemma enc_inj: "length (enc v) < 2 ^ 64 \<Longrightarrow> enc v = enc w \<Longrightarrow> v = w"
proof (induction v arbitrary: w)
  case (Str b)
  then have "Split (enc (Str b)) = Split (enc w)" by simp
  then have "item_kind (Str b) = item_kind w \<and> item_content (Str b) = item_content w"
    using Split_enc [of "Str b" "[]"] Split_enc [of w "[]"] Str.prems by simp
  then show ?case by (cases w) (auto split: if_splits)
next
  case (Lst vs)
  then have "Split (enc (Lst vs)) = Split (enc w)" by simp
  then have kc: "item_kind (Lst vs) = item_kind w" "item_content (Lst vs) = item_content w"
    using Split_enc [of "Lst vs" "[]"] Split_enc [of w "[]"] Lst.prems by auto
  then obtain ws where w: "w = Lst ws" by (cases w) (auto split: if_splits)
  have "vs = ws"
    using Lst kc(2) w by (intro enc_list_inj) (auto simp: Let_def)
  then show ?case using w by simp
qed

lemma CountValues_loop_enc:
  "length (concat (map enc vs)) < 2 ^ 64 \<Longrightarrow>
   CountValues_loop i (concat (map enc vs)) = Some (Inr (i + length vs))"
proof (induction vs arbitrary: i)
  case Nil
  then show ?case by (subst CountValues_loop.simps) simp
next
  case (Cons v vs)
  let ?r = "concat (map enc vs)"
  have len: "length (enc v @ ?r) < 2 ^ 64" using Cons.prems by simp
  let ?h = "length (item_head v)" and ?c = "length (item_content v)"
  have hc: "length (enc v) = ?h + ?c" by (simp add: enc_head_content)
  have "unat (word_of_nat ?h + word_of_nat ?c :: uint64) = length (enc v)"
    using unat_word_of_nat_64 [of "?h + ?c"] len hc by simp
  moreover have "unat (word_of_nat (length (enc v @ ?r)) :: uint64) = length (enc v @ ?r)"
    using len by (rule unat_word_of_nat_64)
  ultimately have "slice_u64 (enc v @ ?r) (word_of_nat ?h + word_of_nat ?c)
      (word_of_nat (length (enc v @ ?r))) = Inr ?r"
    by (simp add: slice_u64_def word_le_nat_alt del: of_nat_add)
  then show ?case
    using readKind_enc [OF len] Cons by (subst CountValues_loop.simps) (simp add: enc_not_Nil)
qed

lemma CountValues_enc:
  "length (concat (map enc vs)) < 2 ^ 64 \<Longrightarrow> CountValues (concat (map enc vs)) = Some (Inr (length vs))"
  by (simp add: CountValues_def CountValues_loop_enc)

section \<open>The encoder (\<open>rlp/encode.go\<close>)\<close>

text \<open>
  The Go values the encoder takes, after the reflection of \<open>makeWriter\<close>: byte slices, byte arrays and
  strings, unsigned integers, booleans, \<open>*big.Int\<close> (\<open>None\<close> is nil), and slices and structs.
\<close>

datatype rlp_value = VBytes bytes | VUint uint64 | VBool bool | VBig "bigint option"
  | VList "rlp_value list"

record listhead =
  lh_offset :: nat
  lh_size :: nat

record encbuf =
  eb_str :: bytes
  eb_lheads :: "listhead list"
  eb_lhsize :: nat

definition encbuf_reset :: encbuf where
  "encbuf_reset = \<lparr> eb_str = [], eb_lheads = [], eb_lhsize = 0 \<rparr>"

definition encbuf_Write :: "bytes \<Rightarrow> encbuf \<Rightarrow> encbuf" where
  "encbuf_Write b w = w\<lparr> eb_str := eb_str w @ b \<rparr>"

definition encbuf_size :: "encbuf \<Rightarrow> nat" where
  "encbuf_size w = length (eb_str w) + eb_lhsize w"

text \<open>
  \<open>list\<close> appends a new head and returns the pointer to it, here its index in \<open>lheads\<close>; \<open>listEnd\<close>
  writes the size through that pointer.
\<close>

definition encbuf_list :: "encbuf \<Rightarrow> nat \<times> encbuf" where
  "encbuf_list w =
    (length (eb_lheads w),
     w\<lparr> eb_lheads := eb_lheads w @ [\<lparr> lh_offset = length (eb_str w), lh_size = eb_lhsize w \<rparr>] \<rparr>)"

definition encbuf_listEnd :: "nat \<Rightarrow> encbuf \<Rightarrow> encbuf" where
  "encbuf_listEnd lh w =
    (let h = eb_lheads w ! lh;
         sz = encbuf_size w - lh_offset h - lh_size h
     in w\<lparr> eb_lheads := (eb_lheads w)[lh := h\<lparr> lh_size := sz \<rparr>],
          eb_lhsize := eb_lhsize w + (if sz < 56 then 1 else 1 + intsize (word_of_nat sz)) \<rparr>)"

definition writeUint :: "uint64 \<Rightarrow> encbuf \<Rightarrow> encbuf" where
  "writeUint i w =
    (if i = 0 then encbuf_Write [0x80] w
     else if i < 128 then encbuf_Write [byte_of i] w
     else (let s = putint i in encbuf_Write ((0x80 + word_of_nat (length s)) # s) w))"

definition writeBool :: "bool \<Rightarrow> encbuf \<Rightarrow> encbuf" where
  "writeBool b w = encbuf_Write [if b then 0x01 else 0x80] w"

definition writeBytes :: "bytes \<Rightarrow> encbuf \<Rightarrow> encbuf" where
  "writeBytes b w = encbuf_Write (encodeString b) w"

definition writeBigInt :: "bigint \<Rightarrow> encbuf \<Rightarrow> rlp_error + encbuf" where
  "writeBigInt i w =
    (if i < 0 then Inl ErrNegativeBigInt
     else if i = 0 then Inr (encbuf_Write [0x80] w)
     else Inr (writeBytes (big_Bytes i) w))"

definition writeBigIntPtr :: "bigint option \<Rightarrow> encbuf \<Rightarrow> rlp_error + encbuf" where
  "writeBigIntPtr ptr w =
    (case ptr of None \<Rightarrow> Inr (encbuf_Write [0x80] w) | Some i \<Rightarrow> writeBigInt i w)"

text \<open>
  The writer of a slice or struct opens a list, writes the elements in order and closes the list;
  the first error ends it.
\<close>

fun encbuf_encode :: "rlp_value \<Rightarrow> encbuf \<Rightarrow> rlp_error + encbuf"
  and write_elems :: "rlp_value list \<Rightarrow> encbuf \<Rightarrow> rlp_error + encbuf" where
  "encbuf_encode (VBytes b) w = Inr (writeBytes b w)"
| "encbuf_encode (VUint i) w = Inr (writeUint i w)"
| "encbuf_encode (VBool b) w = Inr (writeBool b w)"
| "encbuf_encode (VBig p) w = writeBigIntPtr p w"
| "encbuf_encode (VList vs) w =
    (case encbuf_list w of (lh, w1) \<Rightarrow>
       (case write_elems vs w1 of Inl e \<Rightarrow> Inl e | Inr w2 \<Rightarrow> Inr (encbuf_listEnd lh w2)))"
| "write_elems [] w = Inr w"
| "write_elems (v # vs) w =
    (case encbuf_encode v w of Inl e \<Rightarrow> Inl e | Inr w1 \<Rightarrow> write_elems vs w1)"

definition listhead_encode :: "listhead \<Rightarrow> bytes" where
  "listhead_encode h = puthead 0xC0 0xF7 (word_of_nat (lh_size h))"

text \<open>
  \<open>copy(out[pos:], src)\<close>: as many bytes as fit; the result is their number and the new \<open>out\<close>.
\<close>

definition copy_at :: "bytes \<Rightarrow> nat \<Rightarrow> bytes \<Rightarrow> nat \<times> bytes" where
  "copy_at out pos src =
    (let n = min (length out - pos) (length src) in
     (n, take pos out @ take n src @ drop (pos + n) out))"

fun toBytes_loop :: "listhead list \<Rightarrow> bytes \<Rightarrow> bytes \<Rightarrow> nat \<Rightarrow> nat \<Rightarrow> bytes" where
  "toBytes_loop [] str out strpos pos = snd (copy_at out pos (drop strpos str))"
| "toBytes_loop (h # hs) str out strpos pos =
    (case copy_at out pos (take (lh_offset h - strpos) (drop strpos str)) of
       (n, out1) \<Rightarrow>
         (case copy_at out1 (pos + n) (listhead_encode h) of
            (m, out2) \<Rightarrow> toBytes_loop hs str out2 (strpos + n) (pos + n + m)))"

definition toBytes :: "encbuf \<Rightarrow> bytes" where
  "toBytes w = toBytes_loop (eb_lheads w) (eb_str w) (replicate (encbuf_size w) 0) 0 0"

text \<open>\<open>toWriter\<close>: the bytes written to a writer that accepts everything, such as a hash.\<close>

fun toWriter_loop :: "listhead list \<Rightarrow> bytes \<Rightarrow> nat \<Rightarrow> bytes" where
  "toWriter_loop [] str strpos = (if strpos < length str then drop strpos str else [])"
| "toWriter_loop (h # hs) str strpos =
    (if lh_offset h - strpos > 0 then
       take (lh_offset h - strpos) (drop strpos str) @ listhead_encode h @
         toWriter_loop hs str (strpos + length (take (lh_offset h - strpos) (drop strpos str)))
     else listhead_encode h @ toWriter_loop hs str strpos)"

definition toWriter :: "encbuf \<Rightarrow> bytes" where
  "toWriter w = toWriter_loop (eb_lheads w) (eb_str w) 0"

definition EncodeToBytes :: "rlp_value \<Rightarrow> rlp_error + bytes" where
  "EncodeToBytes v =
    (case encbuf_encode v encbuf_reset of Inl e \<Rightarrow> Inl e | Inr eb \<Rightarrow> Inr (toBytes eb))"

text \<open>\<open>Encode\<close> into a fresh writer: the bytes the writer receives.\<close>

definition Encode :: "rlp_value \<Rightarrow> rlp_error + bytes" where
  "Encode v =
    (case encbuf_encode v encbuf_reset of Inl e \<Rightarrow> Inl e | Inr eb \<Rightarrow> Inr (toWriter eb))"

subsection \<open>The encoder computes the encoding\<close>

fun item_of :: "rlp_value \<Rightarrow> rlp_item" where
  "item_of (VBytes b) = Str b"
| "item_of (VUint i) = Str (if i = 0 then [] else putint i)"
| "item_of (VBool b) = Str (if b then [1] else [])"
| "item_of (VBig p) = Str (case p of None \<Rightarrow> [] | Some i \<Rightarrow> big_Bytes i)"
| "item_of (VList vs) = Lst (map item_of vs)"

fun encodable :: "rlp_value \<Rightarrow> bool" where
  "encodable (VBig p) = (case p of None \<Rightarrow> True | Some i \<Rightarrow> 0 \<le> i)"
| "encodable (VList vs) = (\<forall>v \<in> set vs. encodable v)"
| "encodable _ = True"

text \<open>What an item adds to the string data and, from offset \<open>k\<close> on, to the list heads.\<close>

fun pstr :: "rlp_item \<Rightarrow> bytes" where
  "pstr (Str b) = encodeString b"
| "pstr (Lst xs) = concat (map pstr xs)"

fun pheads :: "nat \<Rightarrow> rlp_item \<Rightarrow> listhead list"
  and pheads_list :: "nat \<Rightarrow> rlp_item list \<Rightarrow> listhead list" where
  "pheads k (Str b) = []"
| "pheads k (Lst xs) = \<lparr> lh_offset = k, lh_size = length (concat (map enc xs)) \<rparr> # pheads_list k xs"
| "pheads_list k [] = []"
| "pheads_list k (x # xs) = pheads k x @ pheads_list (k + length (pstr x)) xs"

lemma encodeString_empty: "encodeString [] = [0x80]"
  by (simp add: encodeString_def encodeStringHeader_def)

lemma encodeString_putint:
  "i \<noteq> 0 \<Longrightarrow> encodeString (putint i) =
    (if i < 128 then [byte_of i] else (0x80 + word_of_nat (length (putint i))) # putint i)"
proof (cases "i < 128")
  case True
  then have i: "unat i < 128" by (simp add: word_less_nat_alt)
  then have "i < 2 ^ 8" by (simp add: word_less_nat_alt)
  then have "putint i = [byte_of i]" by (simp add: putint_def)
  moreover have "unat (byte_of i) = unat i"
    unfolding byte_of_eq unat_byte_of_nat using i by simp
  then have "byte_of i \<le> 0x7F" using i by (simp add: word_le_nat_alt)
  ultimately show ?thesis using True by (simp add: encodeString_def)
next
  case False
  then have i: "128 \<le> unat i" by (simp add: word_less_nat_alt)
  have "\<not> (length (putint i) = 1 \<and> putint i ! 0 \<le> 0x7F)"
  proof
    assume a: "length (putint i) = 1 \<and> putint i ! 0 \<le> 0x7F"
    then have "be_nat (putint i) = unat (putint i ! 0)" by (cases "putint i") auto
    then show False using a i by (simp add: be_nat_putint word_le_nat_alt)
  qed
  moreover have "length (putint i) < 56" using intsize_bounds(2) [of i] by (simp add: length_putint)
  ultimately show ?thesis using False by (auto simp: encodeString_def encodeStringHeader_def)
qed

lemma length_puthead: "length (puthead a b sz) = headsize sz"
  by (simp add: puthead_def headsize_def length_putint Let_def)

lemma length_pstr_le: "length (pstr v) \<le> length (enc v)"
proof (induction v)
  case (Lst xs)
  then have "length (concat (map pstr xs)) \<le> length (concat (map enc xs))"
    by (induction xs) (auto intro: add_mono)
  then show ?case by (simp add: Let_def)
qed simp

text \<open>What one value does to the buffer.\<close>

definition buf_add :: "bytes \<Rightarrow> listhead list \<Rightarrow> nat \<Rightarrow> encbuf \<Rightarrow> encbuf" where
  "buf_add s hs n w = \<lparr> eb_str = eb_str w @ s, eb_lheads = eb_lheads w @ hs, eb_lhsize = eb_lhsize w + n \<rparr>"

lemma encbuf_Write_add: "encbuf_Write s w = buf_add s [] 0 w"
  by (simp add: encbuf_Write_def buf_add_def)

lemma writeUint_add: "writeUint i w = buf_add (pstr (item_of (VUint i))) [] 0 w"
  by (simp add: writeUint_def encbuf_Write_add encodeString_empty encodeString_putint Let_def)

lemma writeBool_add: "writeBool b w = buf_add (pstr (item_of (VBool b))) [] 0 w"
  by (simp add: writeBool_def encbuf_Write_add encodeString_empty encodeString_def [of "[1]"])

lemma writeBigIntPtr_add:
  "encodable (VBig p) \<Longrightarrow> writeBigIntPtr p w = Inr (buf_add (pstr (item_of (VBig p))) [] 0 w)"
proof (cases p)
  case (Some i)
  moreover have "big_Bytes 0 = []" by (simp add: big_Bytes_def BitLen_def bit_len.simps)
  ultimately show "encodable (VBig p) \<Longrightarrow> ?thesis"
    by (auto simp: writeBigIntPtr_def writeBigInt_def writeBytes_def encbuf_Write_add encodeString_empty)
qed (simp add: writeBigIntPtr_def encbuf_Write_add encodeString_empty)

lemma length_concat_map_le:
  "(\<And>x. x \<in> set xs \<Longrightarrow> length (f x) \<le> length (g x)) \<Longrightarrow> length (concat (map f xs)) \<le> length (concat (map g xs))"
  by (induction xs) (auto intro: add_mono)

lemma headsize_word_of_nat:
  "n < 2 ^ 64 \<Longrightarrow> headsize (word_of_nat n) = (if n < 56 then 1 else 1 + intsize (word_of_nat n))"
  by (simp add: headsize_def word_of_nat_less_56)

lemma listEnd_list:
  assumes w: "encbuf_list w = (lh, w1)" and c: "p \<le> c" "c < 2 ^ 64" and len: "length s = p"
  shows "encbuf_listEnd lh (buf_add s hs (c - p) w1) =
    buf_add s (\<lparr> lh_offset = length (eb_str w), lh_size = c \<rparr> # hs) (headsize (word_of_nat c) + (c - p)) w"
proof -
  have lh: "lh = length (eb_lheads w)"
    and w1: "w1 = w\<lparr> eb_lheads := eb_lheads w @ [\<lparr> lh_offset = length (eb_str w), lh_size = eb_lhsize w \<rparr>] \<rparr>"
    using w by (auto simp: encbuf_list_def)
  let ?w2 = "buf_add s hs (c - p) w1"
  have sz: "encbuf_size ?w2 - length (eb_str w) - eb_lhsize w = c"
    using c len by (simp add: encbuf_size_def buf_add_def w1)
  have head: "eb_lheads ?w2 ! lh = \<lparr> lh_offset = length (eb_str w), lh_size = eb_lhsize w \<rparr>"
    by (simp add: buf_add_def w1 lh nth_append)
  show ?thesis
    unfolding encbuf_listEnd_def Let_def head listhead.simps sz
    by (simp add: buf_add_def w1 lh headsize_word_of_nat [OF c(2)] list_update_append)
qed

lemma encbuf_encode_add:
  "encodable v \<Longrightarrow> length (enc (item_of v)) < 2 ^ 64 \<Longrightarrow>
     encbuf_encode v w = Inr (buf_add (pstr (item_of v)) (pheads (length (eb_str w)) (item_of v))
       (length (enc (item_of v)) - length (pstr (item_of v))) w)"
  "\<forall>v \<in> set vs. encodable v \<Longrightarrow> length (concat (map (enc \<circ> item_of) vs)) < 2 ^ 64 \<Longrightarrow>
     write_elems vs w = Inr (buf_add (concat (map (pstr \<circ> item_of) vs))
       (pheads_list (length (eb_str w)) (map item_of vs))
       (length (concat (map (enc \<circ> item_of) vs)) - length (concat (map (pstr \<circ> item_of) vs))) w)"
proof (induction v w and vs w rule: encbuf_encode_write_elems.induct)
  case (1 b w)
  then show ?case by (simp add: writeBytes_def encbuf_Write_add)
next
  case (2 i w)
  then show ?case by (simp add: writeUint_add)
next
  case (3 b w)
  then show ?case by (simp add: writeBool_add)
next
  case (4 p w)
  then show ?case using writeBigIntPtr_add [of p w] by simp
next
  case (5 vs w)
  obtain lh w1 where l: "encbuf_list w = (lh, w1)" by fastforce
  then have str: "eb_str w1 = eb_str w" by (auto simp: encbuf_list_def)
  let ?c = "concat (map (enc \<circ> item_of) vs)" and ?p = "concat (map (pstr \<circ> item_of) vs)"
  have c: "length ?c < 2 ^ 64" using 5 by (simp add: Let_def)
  have le: "length ?p \<le> length ?c" by (rule length_concat_map_le) (simp add: length_pstr_le)
  have "write_elems vs w1 = Inr (buf_add ?p (pheads_list (length (eb_str w)) (map item_of vs))
      (length ?c - length ?p) w1)"
    using 5 l str c by (simp add: o_def)
  then show ?case
    using l listEnd_list [OF l le c refl] le by (simp add: Let_def length_puthead o_def)
next
  case (6 w)
  then show ?case by (simp add: buf_add_def)
next
  case (7 v vs w)
  let ?w1 = "buf_add (pstr (item_of v)) (pheads (length (eb_str w)) (item_of v))
       (length (enc (item_of v)) - length (pstr (item_of v))) w"
  have v: "encbuf_encode v w = Inr ?w1" using 7 by simp
  have le: "length (concat (map (pstr \<circ> item_of) vs)) \<le> length (concat (map (enc \<circ> item_of) vs))"
    by (rule length_concat_map_le) (simp add: length_pstr_le)
  show ?case using 7(2) [OF v] 7(3,4) v le length_pstr_le [of "item_of v"]
    by (simp add: buf_add_def o_def)
qed

text \<open>Weaving the heads into the string data.\<close>

lemma toWriter_Cons:
  "toWriter_loop (h # hs) str k =
   (let s = take (lh_offset h - k) (drop k str) in s @ listhead_encode h @ toWriter_loop hs str (k + length s))"
  by (simp add: Let_def)

lemma toWriter_advance:
  assumes "\<forall>h \<in> set hs. k + n \<le> lh_offset h" and "k + n \<le> length str"
  shows "toWriter_loop hs str k = take n (drop k str) @ toWriter_loop hs str (k + n)"
proof (cases hs)
  case Nil
  have "drop k str = take n (drop k str) @ drop (k + n) str"
    by (metis add.commute append_take_drop_id drop_drop)
  then show ?thesis using Nil assms by auto
next
  case (Cons h hs')
  let ?d = "lh_offset h - (k + n)"
  have off: "lh_offset h - k = n + ?d" using assms Cons by simp
  have split: "take (n + ?d) (drop k str) = take n (drop k str) @ take ?d (drop (k + n) str)"
    by (simp add: take_add add.commute)
  have "k + length (take (n + ?d) (drop k str)) = k + n + length (take ?d (drop (k + n) str))"
    unfolding split using assms(2) by simp
  then show ?thesis unfolding Cons toWriter_Cons off Let_def by (simp only: split append_assoc)
qed

lemma pheads_bounds:
  "h \<in> set (pheads k v) \<Longrightarrow> k \<le> lh_offset h \<and> lh_offset h \<le> k + length (pstr v)"
  "h \<in> set (pheads_list k vs) \<Longrightarrow> k \<le> lh_offset h \<and> lh_offset h \<le> k + length (concat (map pstr vs))"
proof (induction k v and k vs arbitrary: h and h rule: pheads_pheads_list.induct)
  case (2 k xs)
  then show ?case using "2.IH" [of h] by auto
next
  case (4 k x xs)
  then consider "h \<in> set (pheads k x)" | "h \<in> set (pheads_list (k + length (pstr x)) xs)" by auto
  then show ?case
  proof cases
    case 1
    from "4.IH"(1) [OF this] show ?thesis by simp
  next
    case 2
    from "4.IH"(2) [OF this] show ?thesis by simp
  qed
qed simp_all

lemma toWriter_pheads:
  "k = length pre \<Longrightarrow> \<forall>h \<in> set hs. k + length (pstr v) \<le> lh_offset h \<Longrightarrow>
   toWriter_loop (pheads k v @ hs) (pre @ pstr v @ post) k =
     enc v @ toWriter_loop hs (pre @ pstr v @ post) (k + length (pstr v))"
  "k = length pre \<Longrightarrow> \<forall>h \<in> set hs. k + length (concat (map pstr vs)) \<le> lh_offset h \<Longrightarrow>
   toWriter_loop (pheads_list k vs @ hs) (pre @ concat (map pstr vs) @ post) k =
     concat (map enc vs) @ toWriter_loop hs (pre @ concat (map pstr vs) @ post) (k + length (concat (map pstr vs)))"
proof (induction k v and k vs arbitrary: pre post hs and pre post hs rule: pheads_pheads_list.induct)
  case (1 k b)
  then show ?case
    using toWriter_advance [of hs k "length (encodeString b)" "pre @ encodeString b @ post"] by simp
next
  case (2 k xs)
  have "toWriter_loop (pheads k (Lst xs) @ hs) (pre @ pstr (Lst xs) @ post) k =
    listhead_encode \<lparr> lh_offset = k, lh_size = length (concat (map enc xs)) \<rparr> @
    toWriter_loop (pheads_list k xs @ hs) (pre @ concat (map pstr xs) @ post) k"
    by (simp add: toWriter_Cons Let_def)
  then show ?case using "2.IH" [OF "2.prems"(1)] "2.prems"(2) by (simp add: listhead_encode_def Let_def)
next
  case (3 k)
  then show ?case by simp
next
  case (4 k x xs)
  let ?rest = "concat (map pstr xs)" and ?hs = "pheads_list (k + length (pstr x)) xs @ hs"
  have "\<forall>h \<in> set ?hs. k + length (pstr x) \<le> lh_offset h"
    using "4.prems" pheads_bounds(2) by fastforce
  from "4.IH"(1) [OF "4.prems"(1) this, of "?rest @ post"]
  have 1: "toWriter_loop (pheads k x @ ?hs) (pre @ pstr x @ ?rest @ post) k =
    enc x @ toWriter_loop ?hs (pre @ pstr x @ ?rest @ post) (k + length (pstr x))" .
  have "toWriter_loop ?hs ((pre @ pstr x) @ ?rest @ post) (k + length (pstr x)) =
    concat (map enc xs) @ toWriter_loop hs ((pre @ pstr x) @ ?rest @ post) (k + length (pstr x) + length ?rest)"
    using "4.prems" by (intro "4.IH"(2)) (auto simp: add.assoc)
  with 1 show ?case by (simp add: add.assoc)
qed

lemma copy_at_exact:
  "length src \<le> length rest \<Longrightarrow>
   copy_at (d @ rest) (length d) src = (length src, d @ src @ drop (length src) rest)"
  by (simp add: copy_at_def min_absorb2 Let_def)

lemma toBytes_loop_toWriter:
  "length rest = length (toWriter_loop hs str strpos) \<Longrightarrow>
   toBytes_loop hs str (d @ rest) strpos (length d) = d @ toWriter_loop hs str strpos"
proof (induction hs arbitrary: d rest strpos)
  case Nil
  then show ?case using copy_at_exact [of "drop strpos str" rest d] by (auto split: if_splits)
next
  case (Cons h hs)
  let ?s = "take (lh_offset h - strpos) (drop strpos str)" and ?e = "listhead_encode h"
  let ?r1 = "drop (length ?s) rest" and ?w = "toWriter_loop hs str (strpos + length ?s)"
  have W: "toWriter_loop (h # hs) str strpos = ?s @ ?e @ ?w" by simp
  have len: "length rest = length ?s + (length ?e + length ?w)" using Cons.prems unfolding W by simp
  have c1: "copy_at (d @ rest) (length d) ?s = (length ?s, d @ ?s @ ?r1)"
    using len by (intro copy_at_exact) simp
  have c2: "copy_at (d @ ?s @ ?r1) (length d + length ?s) ?e =
      (length ?e, (d @ ?s @ ?e) @ drop (length ?e) ?r1)"
    using copy_at_exact [of ?e ?r1 "d @ ?s"] len by simp
  have "toBytes_loop hs str ((d @ ?s @ ?e) @ drop (length ?e) ?r1) (strpos + length ?s)
      (length (d @ ?s @ ?e)) = (d @ ?s @ ?e) @ ?w"
    using len by (intro Cons.IH) simp
  then show ?case unfolding W toBytes_loop.simps c1 c2 prod.case by (simp add: add.assoc)
qed

theorem encbuf_output:
  assumes "encodable v" and "length (enc (item_of v)) < 2 ^ 64"
  shows "EncodeToBytes v = Inr (enc (item_of v))" and "Encode v = Inr (enc (item_of v))"
proof -
  let ?i = "item_of v"
  let ?w = "buf_add (pstr ?i) (pheads 0 ?i) (length (enc ?i) - length (pstr ?i)) encbuf_reset"
  have enc: "encbuf_encode v encbuf_reset = Inr ?w"
    using encbuf_encode_add(1) [OF assms, of encbuf_reset] by (simp add: encbuf_reset_def)
  have out: "toWriter ?w = enc ?i"
    using toWriter_pheads(1) [of 0 "[]" "[]" ?i "[]"]
    by (simp add: toWriter_def buf_add_def encbuf_reset_def)
  have "encbuf_size ?w = length (enc ?i)"
    using length_pstr_le [of ?i] by (simp add: encbuf_size_def buf_add_def encbuf_reset_def)
  then have "toBytes ?w = toWriter ?w"
    using toBytes_loop_toWriter [of "replicate (encbuf_size ?w) 0" "eb_lheads ?w" "eb_str ?w" 0 "[]"] out
    by (simp add: toBytes_def toWriter_def)
  then show "EncodeToBytes v = Inr (enc ?i)" "Encode v = Inr (enc ?i)"
    using enc out by (simp_all add: EncodeToBytes_def Encode_def)
qed

section \<open>Writing and appending single values\<close>

text \<open>
  The \<open>...To\<close> functions give the bytes they write to a writer that accepts everything.  The
  \<open>Append...\<close> functions write behind the length of a slice and do not grow it: \<open>cap\<close> is the
  capacity of the slice, and a write beyond it panics, here \<open>None\<close>.
\<close>

definition WriteUint64To :: "uint64 \<Rightarrow> bytes" where
  "WriteUint64To v =
    (if v = 0 then [0x80] else if v < 128 then [byte_of v]
     else (let s = putint v in (0x80 + word_of_nat (length s)) # s))"

definition Uint64Size :: "uint64 \<Rightarrow> nat" where
  "Uint64Size v = (if v < 128 then 1 else intsize v + 1)"

definition WriteBoolTo :: "bool \<Rightarrow> bytes" where
  "WriteBoolTo v = (if v then [0x01] else [0x80])"

definition WriteBytesTo :: "bytes \<Rightarrow> bytes" where
  "WriteBytesTo v =
    (if length v = 1 \<and> v ! 0 \<le> 0x7F then v
     else (if length v < 56 then [0x80 + word_of_nat (length v)]
           else (let s = putint (word_of_nat (length v)) in (0xB7 + word_of_nat (length s)) # s)) @ v)"

definition BytesSize :: "bytes \<Rightarrow> nat" where
  "BytesSize v =
    (if length v = 1 \<and> v ! 0 \<le> 0x7F then 1 else if length v < 56 then 1 + length v
     else intsize (word_of_nat (length v)) + 1 + length v)"

definition WriteBigIntTo :: "bigint option \<Rightarrow> rlp_error + bytes" where
  "WriteBigIntTo v =
    (case v of
       None \<Rightarrow> Inr [0x80]
     | Some i \<Rightarrow> if i = 0 then Inr [0x80] else if i < 0 then Inl ErrNegativeBigInt
         else Inr (WriteBytesTo (big_Bytes i)))"

definition BigIntSize :: "bigint option \<Rightarrow> nat" where
  "BigIntSize v =
    (case v of
       None \<Rightarrow> 1
     | Some i \<Rightarrow> if i = 0 then 1 else if i < 0 then 0 else BytesSize (big_Bytes i))"

definition WriteListHeaderTo :: "nat \<Rightarrow> bytes" where
  "WriteListHeaderTo v =
    (if v < 56 then [0xC0 + word_of_nat v]
     else (let s = putint (word_of_nat v) in (0xF7 + word_of_nat (length s)) # s))"

definition ListHeaderSize :: "nat \<Rightarrow> nat" where
  "ListHeaderSize sz = headsize (word_of_nat sz)"

definition append_cap :: "nat \<Rightarrow> bytes \<Rightarrow> bytes \<Rightarrow> bytes option" where
  "append_cap cap b xs = (if length b + length xs \<le> cap then Some (b @ xs) else None)"

definition AppendHead :: "nat \<Rightarrow> bytes \<Rightarrow> byte \<Rightarrow> uint64 \<Rightarrow> bytes option" where
  "AppendHead cap b prefix v =
    (if v < 2 ^ 8 then append_cap cap b [prefix + 1, byte_of v]
     else if v < 2 ^ 16 then append_cap cap b [prefix + 2, byte_of (shr v 8), byte_of v]
     else if v < 2 ^ 24 then
       append_cap cap b [prefix + 3, byte_of (shr v 16), byte_of (shr v 8), byte_of v]
     else if v < 2 ^ 32 then
       append_cap cap b [prefix + 4, byte_of (shr v 24), byte_of (shr v 16), byte_of (shr v 8), byte_of v]
     else if v < 2 ^ 40 then
       append_cap cap b [prefix + 5, byte_of (shr v 32), byte_of (shr v 24), byte_of (shr v 16),
         byte_of (shr v 8), byte_of v]
     else if v < 2 ^ 48 then
       append_cap cap b [prefix + 6, byte_of (shr v 40), byte_of (shr v 32), byte_of (shr v 24),
         byte_of (shr v 16), byte_of (shr v 8), byte_of v]
     else if v < 2 ^ 56 then
       append_cap cap b [prefix + 7, byte_of (shr v 48), byte_of (shr v 40), byte_of (shr v 32),
         byte_of (shr v 24), byte_of (shr v 16), byte_of (shr v 8), byte_of v]
     else
       append_cap cap b [prefix + 8, byte_of (shr v 56), byte_of (shr v 48), byte_of (shr v 40),
         byte_of (shr v 32), byte_of (shr v 24), byte_of (shr v 16), byte_of (shr v 8), byte_of v])"

definition AppendUint64 :: "nat \<Rightarrow> bytes \<Rightarrow> uint64 \<Rightarrow> bytes option" where
  "AppendUint64 cap b v =
    (if v = 0 then append_cap cap b [0x80]
     else if v < 128 then append_cap cap b [byte_of v]
     else AppendHead cap b 0x80 v)"

definition AppendBool :: "nat \<Rightarrow> bytes \<Rightarrow> bool \<Rightarrow> bytes option" where
  "AppendBool cap b v = append_cap cap b [if v then 0x01 else 0x80]"

definition AppendBytes :: "nat \<Rightarrow> bytes \<Rightarrow> bytes \<Rightarrow> bytes option" where
  "AppendBytes cap b v =
    (if length v = 1 \<and> v ! 0 \<le> 0x7F then append_cap cap b [v ! 0]
     else if length v < 56 then append_cap cap b ((0x80 + word_of_nat (length v)) # v)
     else case AppendHead cap b 0xB7 (word_of_nat (length v)) of
       None \<Rightarrow> None | Some b' \<Rightarrow> append_cap cap b' v)"

text \<open>\<open>None\<close> is the panic of the bounds check; the slice has \<open>MaxHeadSize\<close> free bytes in front.\<close>

definition MaxHeadSize :: nat where "MaxHeadSize = 9"

definition PrependListHeader :: "bytes \<Rightarrow> bytes option" where
  "PrependListHeader b =
    (if length b \<le> 8 then None
     else let sz = length b - MaxHeadSize in
       if sz < 56 then Some (drop 8 (b[8 := 0xC0 + word_of_nat sz]))
       else let b' = drop (MaxHeadSize - (intsize (word_of_nat sz) + 1)) b in
         case AppendHead (length b') [] 0xF7 (word_of_nat sz) of
           None \<Rightarrow> None
         | Some h \<Rightarrow> Some (h @ drop (length h) b'))"

lemma AppendHead_eq:
  "AppendHead cap b prefix v = append_cap cap b ((prefix + word_of_nat (intsize v)) # putint v)"
proof -
  have "unat v < 2 ^ 64" using unat_uint64_less [of v] by simp
  then show ?thesis
    by (cases rule: size_of_nat_cases)
      (simp_all only: AppendHead_def putint_def intsize_eq word_less_pow2 if_True if_False simp_thms
        of_nat_1 of_nat_numeral)
qed

lemma WriteBytesTo_eq: "WriteBytesTo v = enc (Str v)"
  by (auto simp: WriteBytesTo_def encodeString_def encodeStringHeader_def Let_def length_Suc_conv)

lemma WriteUint64To_eq: "WriteUint64To v = enc (item_of (VUint v))"
  by (simp add: WriteUint64To_def encodeString_empty encodeString_putint Let_def)

lemma Uint64Size_eq: "Uint64Size v = length (WriteUint64To v)"
  by (auto simp: Uint64Size_def WriteUint64To_def length_putint Let_def)

lemma BytesSize_eq: "BytesSize v = length (WriteBytesTo v)"
  by (auto simp: BytesSize_def WriteBytesTo_def length_putint Let_def)

lemma append_cap_Some: "length b + length xs \<le> cap \<Longrightarrow> append_cap cap b xs = Some (b @ xs)"
  by (simp add: append_cap_def)

lemma AppendUint64_eq:
  "length b + Uint64Size v \<le> cap \<Longrightarrow> AppendUint64 cap b v = Some (b @ WriteUint64To v)"
  by (auto simp: AppendUint64_def WriteUint64To_def Uint64Size_def AppendHead_eq length_putint Let_def
      intro!: append_cap_Some)

lemma AppendBytes_eq:
  "length b + BytesSize v \<le> cap \<Longrightarrow> AppendBytes cap b v = Some (b @ WriteBytesTo v)"
proof (cases "length v = 1 \<and> v ! 0 \<le> 0x7F")
  case True
  then obtain x where "v = [x]" by (auto simp: length_Suc_conv)
  then show "length b + BytesSize v \<le> cap \<Longrightarrow> ?thesis"
    using True by (simp add: AppendBytes_def WriteBytesTo_def BytesSize_def append_cap_def)
next
  case False
  then show "length b + BytesSize v \<le> cap \<Longrightarrow> ?thesis"
    by (cases "length v < 56") (auto simp: AppendBytes_def WriteBytesTo_def BytesSize_def
        AppendHead_eq append_cap_def length_putint Let_def)
qed

lemma WriteListHeaderTo_eq:
  "n < 2 ^ 64 \<Longrightarrow> WriteListHeaderTo n = puthead 0xC0 0xF7 (word_of_nat n)"
  by (simp add: WriteListHeaderTo_def puthead_def word_of_nat_less_56 byte_of_eq unat_word_of_nat_64)

lemma PrependListHeader_eq:
  assumes "length pad = MaxHeadSize" and "length c < 2 ^ 64"
  shows "PrependListHeader (pad @ c) = Some (puthead 0xC0 0xF7 (word_of_nat (length c)) @ c)"
proof (cases "length c < 56")
  case True
  have "length (drop 8 pad) = 1" using assms(1) by (simp add: MaxHeadSize_def)
  then obtain x where "drop 8 pad = [x]" by (cases "drop 8 pad") simp_all
  then show ?thesis using True assms WriteListHeaderTo_eq [OF assms(2)]
    by (simp add: PrependListHeader_def MaxHeadSize_def WriteListHeaderTo_def list_update_append Let_def
        drop_update_swap)
next
  case False
  then show ?thesis using assms intsize_bounds [of "word_of_nat (length c)"]
    by (simp add: PrependListHeader_def MaxHeadSize_def AppendHead_eq append_cap_def Let_def
        length_putint puthead_def word_of_nat_less_56)
qed

end
