(* ===== verification/Rlp_Spec.thy ===== *)
theory Rlp_Spec
  imports Rlp
begin

text \<open>
  The RLP format as it is specified for Ethereum, written with numbers and without the functions of
  the encoder: the shortest big-endian form of a number, the head of a string or list by the length
  of its content, and the encoding of an item by recursion.  The lemmas show that the encoder of
  \<open>rlp/encode.go\<close> writes this format, and that it reports every negative integer.
\<close>

section \<open>The format\<close>

text \<open>A number in base 256 without leading zeros.\<close>

fun spec_be :: "nat \<Rightarrow> bytes" where
  "spec_be n = (if n = 0 then [] else spec_be (n div 256) @ [word_of_nat (n mod 256)])"

declare spec_be.simps [simp del]

text \<open>
  The head in front of a content of \<open>n\<close> bytes, with offset 128 for strings and 192 for lists: one
  byte up to 55, then the number of bytes of the length, and the length.
\<close>

definition spec_head :: "nat \<Rightarrow> nat \<Rightarrow> bytes" where
  "spec_head offset n =
    (if n \<le> 55 then [word_of_nat (offset + n)]
     else word_of_nat (offset + 55 + length (spec_be n)) # spec_be n)"

fun spec_rlp :: "rlp_item \<Rightarrow> bytes" where
  "spec_rlp (Str b) = (if \<exists>x. b = [x] \<and> unat x < 128 then b else spec_head 128 (length b) @ b)"
| "spec_rlp (Lst xs) = spec_head 192 (length (concat (map spec_rlp xs))) @ concat (map spec_rlp xs)"

text \<open>
  The item a Go value stands for: integers are their shortest big-endian form, booleans the numbers
  one and zero, nil pointers to integers the number zero.
\<close>

fun spec_item :: "rlp_value \<Rightarrow> rlp_item" where
  "spec_item (VBytes b) = Str b"
| "spec_item (VUint i) = Str (spec_be (unat i))"
| "spec_item (VBool b) = Str (spec_be (if b then 1 else 0))"
| "spec_item (VBig p) = Str (case p of None \<Rightarrow> spec_be 0 | Some i \<Rightarrow> spec_be (nat i))"
| "spec_item (VList vs) = Lst (map spec_item vs)"

section \<open>The functions of the encoder compute the format\<close>

lemma spec_be_0 [simp]: "spec_be 0 = []"
  by (simp add: spec_be.simps)

lemma byte_of_nat_mod: "(word_of_nat (n mod 256) :: byte) = word_of_nat n"
  by (simp add: word_unat_eq_iff unat_byte_of_nat)

lemma be_bytes_snoc: "be_bytes (Suc k) n = be_bytes k (n div 256) @ [word_of_nat n]"
proof (induction k)
  case (Suc k)
  have "n div 256 ^ Suc k = n div 256 div 256 ^ k" by (simp add: div_mult2_eq)
  then show ?case using Suc by (simp only: be_bytes.simps append_Cons)
qed simp

lemma spec_be_between: "256 ^ k \<le> n \<Longrightarrow> n < 256 ^ Suc k \<Longrightarrow> spec_be n = be_bytes (Suc k) n"
proof (induction k arbitrary: n)
  case 0
  then show ?case by (simp add: spec_be.simps [of n] byte_of_nat_mod)
next
  case (Suc k)
  have "256 ^ k \<le> n div 256" using div_le_mono [OF Suc.prems(1), of 256] by simp
  moreover have "n div 256 < 256 ^ Suc k" using Suc.prems(2) by (simp add: div_less_iff_less_mult mult.commute)
  ultimately have "spec_be (n div 256) = be_bytes (Suc k) (n div 256)" by (rule Suc.IH)
  moreover have "n \<noteq> 0" using Suc.prems(1) by (metis le_zero_eq power_not_zero zero_neq_numeral)
  ultimately show ?case using be_bytes_snoc [of "Suc k" n] by (simp only: spec_be.simps [of n] if_False byte_of_nat_mod)
qed

lemma spec_be_size: "n \<noteq> 0 \<Longrightarrow> spec_be n = be_bytes (size_of_nat n) n"
proof -
  assume n: "n \<noteq> 0"
  obtain k where k: "size_of_nat n = Suc k" using size_of_nat_pos [of n] by (cases "size_of_nat n") auto
  have "n < 256 ^ Suc k" using size_of_nat_le_iff [of "Suc k" n] k by simp
  moreover have "256 ^ k \<le> n"
  proof (cases k)
    case (Suc j)
    then show ?thesis using size_of_nat_le_iff [of k n] k by simp
  qed (use n in simp)
  ultimately show ?thesis using spec_be_between [of k n] k by simp
qed

lemma spec_be_putint: "i \<noteq> 0 \<Longrightarrow> putint i = spec_be (unat i)"
  by (simp add: putint_eq spec_be_size unat_eq_0)

lemma spec_be_big_Bytes: "0 \<le> i \<Longrightarrow> big_Bytes i = spec_be (nat i)"
  by (cases "i = 0") (simp_all add: big_Bytes_def BitLen_def bit_len.simps [of 0] spec_be_size size_of_nat_def)

lemma spec_be_length: "length (spec_be n) = (if n = 0 then 0 else size_of_nat n)"
  by (simp add: spec_be_size)

lemma encodeStringHeader_spec: "n < 2 ^ 64 \<Longrightarrow> encodeStringHeader n = spec_head 128 n"
proof (cases "n < 56")
  case False
  assume n: "n < 2 ^ 64"
  then have "(word_of_nat n :: uint64) \<noteq> 0" using False unat_word_of_nat_64 [OF n] by auto
  then have "putint (word_of_nat n) = spec_be n" using unat_word_of_nat_64 [OF n] by (simp add: spec_be_putint)
  then show ?thesis using False by (simp add: encodeStringHeader_def spec_head_def Let_def)
qed (simp add: encodeStringHeader_def spec_head_def)

lemma puthead_spec: "n < 2 ^ 64 \<Longrightarrow> puthead 0xC0 0xF7 (word_of_nat n) = spec_head 192 n"
proof (cases "n < 56")
  case False
  assume n: "n < 2 ^ 64"
  then have "(word_of_nat n :: uint64) \<noteq> 0" using False unat_word_of_nat_64 [OF n] by auto
  then have "putint (word_of_nat n) = spec_be n" using unat_word_of_nat_64 [OF n] by (simp add: spec_be_putint)
  then show ?thesis using False word_of_nat_less_56 [OF n] by (simp add: puthead_def spec_head_def Let_def)
next
  case True
  assume n: "n < 2 ^ 64"
  show ?thesis using True word_of_nat_less_56 [OF n] unat_word_of_nat_64 [OF n]
    by (simp add: puthead_def spec_head_def byte_of_eq)
qed

lemma single_byte: "length b = 1 \<and> b ! 0 \<le> 0x7F \<longleftrightarrow> (\<exists>x. b = [x] \<and> unat (x :: byte) < 128)"
  by (cases b) (auto simp: word_le_nat_alt)

lemma encodeString_spec: "length b < 2 ^ 64 \<Longrightarrow> encodeString b = spec_rlp (Str b)"
  unfolding encodeString_def single_byte by (auto simp: encodeStringHeader_spec)

lemma enc_spec: "length (spec_rlp v) < 2 ^ 64 \<Longrightarrow> enc v = spec_rlp v"
proof (induction v)
  case (Str b)
  then have "length b < 2 ^ 64" by (auto split: if_splits)
  then show ?case using encodeString_spec by simp
next
  case (Lst xs)
  let ?c = "concat (map spec_rlp xs)"
  have c: "length ?c < 2 ^ 64" using Lst.prems by simp
  have "length (spec_rlp x) < 2 ^ 64" if "x \<in> set xs" for x
    using c member_le_sum_list [of "length (spec_rlp x)" "map (length \<circ> spec_rlp) xs"] that
    by (simp add: length_concat comp_def)
  then have "map enc xs = map spec_rlp xs" using Lst.IH by simp
  then show ?case using puthead_spec [OF c] by (simp only: enc.simps spec_rlp.simps Let_def)
qed

lemma item_of_spec: "encodable v \<Longrightarrow> item_of v = spec_item v"
proof (induction v)
  case (VUint i)
  then show ?case by (cases "i = 0") (simp_all add: spec_be_putint)
next
  case (VBool b)
  have "spec_be 1 = [1]" by (simp add: spec_be.simps)
  then show ?case by simp
next
  case (VBig p)
  then show ?case by (cases p) (simp_all add: spec_be_big_Bytes)
qed simp_all

lemma encbuf_encode_error:
  "encbuf_encode v w = Inl e \<Longrightarrow> e = ErrNegativeBigInt"
  "write_elems vs w = Inl e \<Longrightarrow> e = ErrNegativeBigInt"
proof (induction v w and vs w arbitrary: e and e rule: encbuf_encode_write_elems.induct)
  case (4 p w)
  then show ?case by (cases p) (auto simp: writeBigIntPtr_def writeBigInt_def split: if_splits)
next
  case (5 vs w)
  obtain lh w1 where "encbuf_list w = (lh, w1)" by fastforce
  then show ?case using 5 by (auto split: sum.splits)
next
  case (7 v vs w)
  then show ?case by (auto split: sum.splits)
qed simp_all

lemma encbuf_encode_negative:
  "\<not> encodable v \<Longrightarrow> encbuf_encode v w = Inl ErrNegativeBigInt"
  "\<not> (\<forall>v \<in> set vs. encodable v) \<Longrightarrow> write_elems vs w = Inl ErrNegativeBigInt"
proof (induction v w and vs w rule: encbuf_encode_write_elems.induct)
  case (4 p w)
  then show ?case by (cases p) (simp_all add: writeBigIntPtr_def writeBigInt_def)
next
  case (5 vs w)
  obtain lh w1 where "encbuf_list w = (lh, w1)" by fastforce
  then show ?case using 5 by simp
next
  case (7 v vs w)
  then show ?case using encbuf_encode_error(1) [of v w] by (cases "encodable v") (auto split: sum.split)
qed simp_all

lemma encoder_spec:
  assumes "length (spec_rlp (spec_item v)) < 2 ^ 64"
  shows "EncodeToBytes v = (if encodable v then Inr (spec_rlp (spec_item v)) else Inl ErrNegativeBigInt)"
    and "Encode v = (if encodable v then Inr (spec_rlp (spec_item v)) else Inl ErrNegativeBigInt)"
proof -
  have "EncodeToBytes v = Inr (spec_rlp (spec_item v)) \<and> Encode v = Inr (spec_rlp (spec_item v))" if e: "encodable v"
    using encbuf_output [OF e] item_of_spec [OF e] enc_spec [OF assms] assms by simp
  moreover have "EncodeToBytes v = Inl ErrNegativeBigInt \<and> Encode v = Inl ErrNegativeBigInt" if "\<not> encodable v"
    using encbuf_encode_negative(1) [OF that] by (simp add: EncodeToBytes_def Encode_def)
  ultimately show "EncodeToBytes v = (if encodable v then Inr (spec_rlp (spec_item v)) else Inl ErrNegativeBigInt)"
    "Encode v = (if encodable v then Inr (spec_rlp (spec_item v)) else Inl ErrNegativeBigInt)" by auto
qed

end
