(* ===== verification/Types.thy ===== *)
theory Types
  imports Rlp
begin

text \<open>
  Block headers (\<open>core/types/block.go\<close>): the header with its RLP encoding and hash.  The Keccak-256
  function of \<open>golang.org/x/crypto/sha3\<close> is the parameter \<open>keccak\<close> of the definitions that hash.
\<close>

text \<open>
  \<open>BlockNonce\<close> is \<open>[8]byte\<close>, here a 64-bit word in big-endian reading, and \<open>Bloom\<close> is \<open>[256]byte\<close>.
  The pointer fields \<open>Difficulty\<close>, \<open>Number\<close> and \<open>Time\<close> are options, \<open>None\<close> for nil.
\<close>

type_synonym BlockNonce = uint64

record Header =
  ParentHash :: hash
  UncleHash :: hash
  Coinbase :: address
  h_Signers :: "address list"
  h_Voters :: "address list"
  h_Signer :: bytes
  Root :: hash
  TxHash :: hash
  ReceiptHash :: hash
  h_Bloom :: bytes
  Difficulty :: "bigint option"
  h_Number :: "bigint option"
  h_GasLimit :: uint64
  h_GasUsed :: uint64
  h_Time :: "bigint option"
  Extra :: bytes
  MixDigest :: hash
  h_Nonce :: BlockNonce

definition EncodeNonce :: "uint64 \<Rightarrow> BlockNonce" where
  "EncodeNonce i = i"

definition nonce_Bytes :: "BlockNonce \<Rightarrow> bytes" where
  "nonce_Bytes n = be_bytes 8 (unat n)"

definition VHash :: "hash \<Rightarrow> rlp_value" where
  "VHash h = VBytes (Hash_Bytes h)"

definition VAddress :: "address \<Rightarrow> rlp_value" where
  "VAddress a = VBytes (Address_Bytes a)"

text \<open>The fields of the struct in declaration order, as the struct writer encodes them.\<close>

definition Header_value :: "Header \<Rightarrow> rlp_value" where
  "Header_value h = VList
    [VHash (ParentHash h), VHash (UncleHash h), VAddress (Coinbase h),
     VList (map VAddress (h_Signers h)), VList (map VAddress (h_Voters h)), VBytes (h_Signer h),
     VHash (Root h), VHash (TxHash h), VHash (ReceiptHash h), VBytes (h_Bloom h),
     VBig (Difficulty h), VBig (h_Number h), VUint (h_GasLimit h), VUint (h_GasUsed h),
     VBig (h_Time h), VBytes (Extra h), VHash (MixDigest h), VBytes (nonce_Bytes (h_Nonce h))]"

text \<open>\<open>rlpHash\<close> ignores the error of \<open>rlp.Encode\<close>; nothing is then written to the hash.\<close>

definition rlpHash :: "(bytes \<Rightarrow> hash) \<Rightarrow> rlp_value \<Rightarrow> hash" where
  "rlpHash keccak x = keccak (case Encode x of Inl e \<Rightarrow> [] | Inr b \<Rightarrow> b)"

definition Header_Hash :: "(bytes \<Rightarrow> hash) \<Rightarrow> Header \<Rightarrow> hash" where
  "Header_Hash keccak h = rlpHash keccak (Header_value h)"

definition CalcUncleHash :: "(bytes \<Rightarrow> hash) \<Rightarrow> Header list \<Rightarrow> hash" where
  "CalcUncleHash keccak uncles = rlpHash keccak (VList (map Header_value uncles))"

text \<open>\<open>CopyHeader\<close> copies by value and turns nil big integers into zero.\<close>

definition CopyHeader :: "Header \<Rightarrow> Header" where
  "CopyHeader h = h\<lparr>
     h_Time := (case h_Time h of None \<Rightarrow> Some 0 | t \<Rightarrow> t),
     Difficulty := (case Difficulty h of None \<Rightarrow> Some 0 | d \<Rightarrow> d),
     h_Number := (case h_Number h of None \<Rightarrow> Some 0 | n \<Rightarrow> n) \<rparr>"

text \<open>\<open>Number.Uint64()\<close>: \<open>None\<close> is the panic of a nil pointer.\<close>

definition NumberU64 :: "Header \<Rightarrow> uint64 option" where
  "NumberU64 h = map_option big_Uint64 (h_Number h)"

lemma CopyHeader_fields [simp]:
  "Extra (CopyHeader h) = Extra h" "ParentHash (CopyHeader h) = ParentHash h"
  "h_Nonce (CopyHeader h) = h_Nonce h" "Coinbase (CopyHeader h) = Coinbase h"
  by (simp_all add: CopyHeader_def)

lemma CopyHeader_idem: "CopyHeader (CopyHeader h) = CopyHeader h"
  by (cases h) (simp add: CopyHeader_def split: option.splits)

section \<open>The encoding determines the header\<close>

lemma VHash_inj [simp]: "item_of (VHash a) = item_of (VHash b) \<longleftrightarrow> a = b"
  by (metis BytesToHash_Bytes VHash_def item_of.simps(1) rlp_item.inject(1))

lemma VAddress_inj [simp]: "item_of (VAddress a) = item_of (VAddress b) \<longleftrightarrow> a = b"
  by (metis BytesToAddress_Bytes VAddress_def item_of.simps(1) rlp_item.inject(1))

lemma VAddress_list_inj [simp]:
  "map (item_of \<circ> VAddress) xs = map (item_of \<circ> VAddress) ys \<longleftrightarrow> xs = ys"
  by (rule inj_map_eq_map) (simp add: inj_def)

lemma nonce_Bytes_inj [simp]: "nonce_Bytes a = nonce_Bytes b \<longleftrightarrow> a = b"
proof
  assume "nonce_Bytes a = nonce_Bytes b"
  then have "be_nat (nonce_Bytes a) = be_nat (nonce_Bytes b)" by simp
  moreover have "be_nat (nonce_Bytes n) = unat n" for n
    using unsigned_less [of n, where 'a = nat] by (simp add: nonce_Bytes_def be_nat_be_bytes)
  ultimately show "a = b" by (simp add: word_unat_eq_iff)
qed simp

lemma VUint_inj [simp]: "item_of (VUint a) = item_of (VUint b) \<longleftrightarrow> a = b"
proof
  assume *: "item_of (VUint a) = item_of (VUint b)"
  have "be_nat (if i = 0 then [] else putint i) = unat i" for i by (simp add: be_nat_putint)
  then have "unat a = unat b" using * by (metis item_of.simps(2) rlp_item.inject(1))
  then show "a = b" by (rule word_unat_eq_iff [THEN iffD2])
qed simp

lemma VBig_inj [simp]:
  assumes "0 \<le> i" "0 \<le> j"
  shows "item_of (VBig (Some i)) = item_of (VBig (Some j)) \<longleftrightarrow> i = j"
proof
  assume "item_of (VBig (Some i)) = item_of (VBig (Some j))"
  then have "big_SetBytes (big_Bytes i) = big_SetBytes (big_Bytes j)" by (simp only: item_of.simps option.case rlp_item.inject)
  then show "i = j" using assms by (simp only: big_SetBytes_Bytes abs_of_nonneg)
qed simp

text \<open>The header's big integers are present and not negative.\<close>

definition big_natural :: "bigint option \<Rightarrow> bool" where
  "big_natural p \<longleftrightarrow> (case p of None \<Rightarrow> False | Some i \<Rightarrow> 0 \<le> i)"

definition header_numbers :: "Header \<Rightarrow> bool" where
  "header_numbers h \<longleftrightarrow> big_natural (Difficulty h) \<and> big_natural (h_Number h) \<and> big_natural (h_Time h)"

lemma big_naturalE: "big_natural p \<Longrightarrow> (\<And>i. p = Some i \<Longrightarrow> 0 \<le> i \<Longrightarrow> P) \<Longrightarrow> P"
  by (cases p) (auto simp: big_natural_def)

lemma header_numbers_cases:
  assumes "header_numbers h"
  obtains d n t where "Difficulty h = Some d" "h_Number h = Some n" "h_Time h = Some t" "0 \<le> d" "0 \<le> n" "0 \<le> t"
  using assms unfolding header_numbers_def by (elim conjE big_naturalE) blast

lemma Header_value_encodable: "header_numbers h \<Longrightarrow> encodable (Header_value h)"
  by (erule header_numbers_cases) (simp add: Header_value_def VHash_def VAddress_def)

lemma Header_value_inj:
  assumes "header_numbers h" "header_numbers h'" "item_of (Header_value h) = item_of (Header_value h')"
  shows "h = h'"
  using assms(1,2)
proof (elim header_numbers_cases)
  fix d n t d' n' t'
  assume f: "Difficulty h = Some d" "h_Number h = Some n" "h_Time h = Some t" "0 \<le> d" "0 \<le> n" "0 \<le> t"
    "Difficulty h' = Some d'" "h_Number h' = Some n'" "h_Time h' = Some t'" "0 \<le> d'" "0 \<le> n'" "0 \<le> t'"
  have
    "ParentHash h = ParentHash h'" "UncleHash h = UncleHash h'" "Coinbase h = Coinbase h'"
    "Root h = Root h'" "TxHash h = TxHash h'" "ReceiptHash h = ReceiptHash h'" "h_Bloom h = h_Bloom h'"
    "Difficulty h = Difficulty h'" "h_Number h = h_Number h'" "h_GasLimit h = h_GasLimit h'"
    "h_GasUsed h = h_GasUsed h'" "h_Time h = h_Time h'" "h_Signers h = h_Signers h'"
    "h_Voters h = h_Voters h'" "Extra h = Extra h'" "MixDigest h = MixDigest h'"
    "h_Nonce h = h_Nonce h'" "h_Signer h = h_Signer h'"
    using assms(3) f by (simp_all add: Header_value_def del: item_of.simps(2,4))
  then show "h = h'" by - (rule Header.equality, simp_all)
qed
text \<open>The zero value of the struct.\<close>

definition zero_Header :: Header where
  "zero_Header = \<lparr> ParentHash = 0, UncleHash = 0, Coinbase = 0, h_Signers = [], h_Voters = [], h_Signer = [],
     Root = 0, TxHash = 0, ReceiptHash = 0, h_Bloom = replicate 256 0, Difficulty = None, h_Number = None,
     h_GasLimit = 0, h_GasUsed = 0, h_Time = None, Extra = [], MixDigest = 0, h_Nonce = 0 \<rparr>"

end
