(* ===== verification/Params.thy ===== *)
theory Params
  imports Common
begin

text \<open>
  Chain parameters (\<open>params/\<close>): the fork schedule of a chain configuration, the gas table a block
  number selects, and the check that a new configuration does not change the past of a stored chain.
  A nil \<open>*big.Int\<close> is \<open>None\<close>.
\<close>

section \<open>The configuration\<close>

record CliqueConfig =
  Period :: uint64
  Epoch :: uint64

record ChainConfig =
  ChainId :: "bigint option"
  HomesteadBlock :: "bigint option"
  EIP150Block :: "bigint option"
  EIP150Hash :: hash
  EIP155Block :: "bigint option"
  EIP158Block :: "bigint option"
  ByzantiumBlock :: "bigint option"
  ConstantinopleBlock :: "bigint option"
  PetersburgBlock :: "bigint option"
  DarvazaBlock :: "bigint option"
  DarvazaDefaultGas :: "bigint option"
  EWASMBlock :: "bigint option"
  Clique_config :: "CliqueConfig option"

definition DefaultCliquePeriod :: uint64 where "DefaultCliquePeriod = 5"

definition DefaultCliqueEpoch :: uint64 where "DefaultCliqueEpoch = 3000"

definition DefaultCliqueConfig :: CliqueConfig where
  "DefaultCliqueConfig = \<lparr> Period = DefaultCliquePeriod, Epoch = DefaultCliqueEpoch \<rparr>"

definition isForked :: "bigint option \<Rightarrow> bigint option \<Rightarrow> bool" where
  "isForked s head =
    (case (s, head) of (Some a, Some b) \<Rightarrow> a \<le> b | _ \<Rightarrow> False)"

definition IsHomestead :: "ChainConfig \<Rightarrow> bigint option \<Rightarrow> bool" where
  "IsHomestead c num = isForked (HomesteadBlock c) num"

definition IsEIP150 :: "ChainConfig \<Rightarrow> bigint option \<Rightarrow> bool" where
  "IsEIP150 c num = isForked (EIP150Block c) num"

definition IsEIP155 :: "ChainConfig \<Rightarrow> bigint option \<Rightarrow> bool" where
  "IsEIP155 c num = isForked (EIP155Block c) num"

definition IsEIP158 :: "ChainConfig \<Rightarrow> bigint option \<Rightarrow> bool" where
  "IsEIP158 c num = isForked (EIP158Block c) num"

definition IsByzantium :: "ChainConfig \<Rightarrow> bigint option \<Rightarrow> bool" where
  "IsByzantium c num = isForked (ByzantiumBlock c) num"

definition IsConstantinople :: "ChainConfig \<Rightarrow> bigint option \<Rightarrow> bool" where
  "IsConstantinople c num = isForked (ConstantinopleBlock c) num"

definition IsPetersburg :: "ChainConfig \<Rightarrow> bigint option \<Rightarrow> bool" where
  "IsPetersburg c num =
    (isForked (PetersburgBlock c) num \<or> PetersburgBlock c = None \<and> isForked (ConstantinopleBlock c) num)"

definition IsDarvaza :: "ChainConfig \<Rightarrow> bigint option \<Rightarrow> bool" where
  "IsDarvaza c num = isForked (DarvazaBlock c) num"

definition IsEWASM :: "ChainConfig \<Rightarrow> bigint option \<Rightarrow> bool" where
  "IsEWASM c num = isForked (EWASMBlock c) num"

record Rules =
  r_ChainId :: bigint
  r_IsHomestead :: bool
  r_IsEIP150 :: bool
  r_IsEIP155 :: bool
  r_IsEIP158 :: bool
  r_IsByzantium :: bool
  r_IsConstantinople :: bool
  r_IsPetersburg :: bool
  r_IsEWASM :: bool

definition config_Rules :: "ChainConfig \<Rightarrow> bigint option \<Rightarrow> Rules" where
  "config_Rules c num =
    \<lparr> r_ChainId = (case ChainId c of None \<Rightarrow> 0 | Some i \<Rightarrow> i),
      r_IsHomestead = IsHomestead c num,
      r_IsEIP150 = IsEIP150 c num,
      r_IsEIP155 = IsEIP155 c num,
      r_IsEIP158 = IsEIP158 c num,
      r_IsByzantium = IsByzantium c num,
      r_IsConstantinople = IsConstantinople c num,
      r_IsPetersburg = IsPetersburg c num,
      r_IsEWASM = IsEWASM c num \<rparr>"

section \<open>Protocol parameters (\<open>params/protocol_params.go\<close>)\<close>

definition CallValueTransferGas :: uint64 where "CallValueTransferGas = 9000"
definition CallNewAccountGas :: uint64 where "CallNewAccountGas = 25000"
definition TxGas :: uint64 where "TxGas = 21000"
definition TxGasContractCreation :: uint64 where "TxGasContractCreation = 53000"
definition TxDataZeroGas :: uint64 where "TxDataZeroGas = 4"
definition QuadCoeffDiv :: uint64 where "QuadCoeffDiv = 512"
definition LogDataGas :: uint64 where "LogDataGas = 8"
definition CallStipend :: uint64 where "CallStipend = 2300"
definition Sha3Gas :: uint64 where "Sha3Gas = 30"
definition Sha3WordGas :: uint64 where "Sha3WordGas = 6"
definition SstoreSetGas :: uint64 where "SstoreSetGas = 20000"
definition SstoreResetGas :: uint64 where "SstoreResetGas = 5000"
definition SstoreClearGas :: uint64 where "SstoreClearGas = 5000"
definition SstoreRefundGas :: uint64 where "SstoreRefundGas = 15000"
definition NetSstoreNoopGas :: uint64 where "NetSstoreNoopGas = 200"
definition NetSstoreInitGas :: uint64 where "NetSstoreInitGas = 20000"
definition NetSstoreCleanGas :: uint64 where "NetSstoreCleanGas = 5000"
definition NetSstoreDirtyGas :: uint64 where "NetSstoreDirtyGas = 200"
definition NetSstoreClearRefund :: uint64 where "NetSstoreClearRefund = 15000"
definition NetSstoreResetRefund :: uint64 where "NetSstoreResetRefund = 4800"
definition NetSstoreResetClearRefund :: uint64 where "NetSstoreResetClearRefund = 19800"
definition JumpdestGas :: uint64 where "JumpdestGas = 1"
definition CreateDataGas :: uint64 where "CreateDataGas = 200"
definition CallCreateDepth :: uint64 where "CallCreateDepth = 1024"
definition ExpGas :: uint64 where "ExpGas = 10"
definition LogGas :: uint64 where "LogGas = 375"
definition CopyGas :: uint64 where "CopyGas = 3"
definition StackLimit :: uint64 where "StackLimit = 1024"
definition LogTopicGas :: uint64 where "LogTopicGas = 375"
definition CreateGas :: uint64 where "CreateGas = 32000"
definition Create2Gas :: uint64 where "Create2Gas = 32000"
definition SuicideRefundGas :: uint64 where "SuicideRefundGas = 24000"
definition MemoryGas :: uint64 where "MemoryGas = 3"
definition TxDataNonZeroGas :: uint64 where "TxDataNonZeroGas = 68"
definition MaxCodeSize :: nat where "MaxCodeSize = 24576"
definition GasLimitBoundDivisor :: uint64 where "GasLimitBoundDivisor = 1024"
definition MinGasLimit :: uint64 where "MinGasLimit = 5000"
definition MaximumExtraDataSize :: uint64 where "MaximumExtraDataSize = 32"
definition EcrecoverGas :: uint64 where "EcrecoverGas = 3000"
definition Sha256BaseGas :: uint64 where "Sha256BaseGas = 60"
definition Sha256PerWordGas :: uint64 where "Sha256PerWordGas = 12"
definition Ripemd160BaseGas :: uint64 where "Ripemd160BaseGas = 600"
definition Ripemd160PerWordGas :: uint64 where "Ripemd160PerWordGas = 120"
definition IdentityBaseGas :: uint64 where "IdentityBaseGas = 15"
definition IdentityPerWordGas :: uint64 where "IdentityPerWordGas = 3"
definition ModExpQuadCoeffDiv :: uint64 where "ModExpQuadCoeffDiv = 20"

lemmas protocol_params =
  CallValueTransferGas_def CallNewAccountGas_def TxGas_def TxGasContractCreation_def TxDataZeroGas_def
  QuadCoeffDiv_def LogDataGas_def CallStipend_def Sha3Gas_def Sha3WordGas_def SstoreSetGas_def
  SstoreResetGas_def SstoreClearGas_def SstoreRefundGas_def NetSstoreNoopGas_def NetSstoreInitGas_def
  NetSstoreCleanGas_def NetSstoreDirtyGas_def NetSstoreClearRefund_def NetSstoreResetRefund_def
  NetSstoreResetClearRefund_def JumpdestGas_def CreateDataGas_def CallCreateDepth_def ExpGas_def
  LogGas_def CopyGas_def StackLimit_def LogTopicGas_def CreateGas_def Create2Gas_def
  SuicideRefundGas_def MemoryGas_def TxDataNonZeroGas_def MaxCodeSize_def GasLimitBoundDivisor_def
  MinGasLimit_def MaximumExtraDataSize_def EcrecoverGas_def Sha256BaseGas_def Sha256PerWordGas_def
  Ripemd160BaseGas_def Ripemd160PerWordGas_def IdentityBaseGas_def IdentityPerWordGas_def
  ModExpQuadCoeffDiv_def

section \<open>Gas tables (\<open>params/gas_table.go\<close>)\<close>

record GasTable =
  ExtcodeSize :: uint64
  ExtcodeCopy :: uint64
  ExtcodeHash :: uint64
  Balance :: uint64
  SLoad :: uint64
  Calls :: uint64
  Suicide :: uint64
  ExpByte :: uint64
  CreateBySuicide :: uint64

definition GasTableHomestead :: GasTable where
  "GasTableHomestead =
    \<lparr> ExtcodeSize = 20, ExtcodeCopy = 20, ExtcodeHash = 0, Balance = 20, SLoad = 50, Calls = 40,
      Suicide = 0, ExpByte = 10, CreateBySuicide = 0 \<rparr>"

definition GasTableEIP150 :: GasTable where
  "GasTableEIP150 =
    \<lparr> ExtcodeSize = 700, ExtcodeCopy = 700, ExtcodeHash = 0, Balance = 400, SLoad = 200, Calls = 700,
      Suicide = 5000, ExpByte = 10, CreateBySuicide = 25000 \<rparr>"

definition GasTableEIP158 :: GasTable where
  "GasTableEIP158 =
    \<lparr> ExtcodeSize = 700, ExtcodeCopy = 700, ExtcodeHash = 0, Balance = 400, SLoad = 200, Calls = 700,
      Suicide = 5000, ExpByte = 50, CreateBySuicide = 25000 \<rparr>"

definition GasTableConstantinople :: GasTable where
  "GasTableConstantinople =
    \<lparr> ExtcodeSize = 700, ExtcodeCopy = 700, ExtcodeHash = 400, Balance = 400, SLoad = 200, Calls = 700,
      Suicide = 5000, ExpByte = 50, CreateBySuicide = 25000 \<rparr>"

definition config_GasTable :: "ChainConfig \<Rightarrow> bigint option \<Rightarrow> GasTable" where
  "config_GasTable c num =
    (if num = None then GasTableHomestead
     else if IsConstantinople c num then GasTableConstantinople
     else if IsEIP158 c num then GasTableEIP158
     else if IsEIP150 c num then GasTableEIP150
     else GasTableHomestead)"

section \<open>Configuration compatibility\<close>

record ConfigCompatError =
  What :: string
  StoredConfig :: "bigint option"
  NewConfig :: "bigint option"
  RewindTo :: uint64

definition configNumEqual :: "bigint option \<Rightarrow> bigint option \<Rightarrow> bool" where
  "configNumEqual x y =
    (case x of None \<Rightarrow> y = None | Some a \<Rightarrow> (case y of None \<Rightarrow> x = None | Some b \<Rightarrow> a = b))"

definition isForkIncompatible :: "bigint option \<Rightarrow> bigint option \<Rightarrow> bigint option \<Rightarrow> bool" where
  "isForkIncompatible s1 s2 head \<longleftrightarrow>
    (isForked s1 head \<or> isForked s2 head) \<and> \<not> configNumEqual s1 s2"

text \<open>The block the \<open>switch\<close> of \<open>newCompatError\<close> selects, and the error itself.\<close>

definition compat_rewind :: "bigint option \<Rightarrow> bigint option \<Rightarrow> bigint option" where
  "compat_rewind storedblock newblock =
    (case storedblock of
       None \<Rightarrow> newblock
     | Some s \<Rightarrow> (case newblock of
          None \<Rightarrow> storedblock
        | Some n \<Rightarrow> if s < n then storedblock else newblock))"

definition newCompatError :: "string \<Rightarrow> bigint option \<Rightarrow> bigint option \<Rightarrow> ConfigCompatError" where
  "newCompatError what storedblock newblock =
     \<lparr> What = what, StoredConfig = storedblock, NewConfig = newblock,
       RewindTo = (case compat_rewind storedblock newblock of
                     Some rew \<Rightarrow> if rew > 0 then big_Uint64 rew - 1 else 0
                   | None \<Rightarrow> 0) \<rparr>"

definition checkCompatible :: "ChainConfig \<Rightarrow> ChainConfig \<Rightarrow> bigint option \<Rightarrow> ConfigCompatError option" where
  "checkCompatible c newcfg head =
    (if isForkIncompatible (HomesteadBlock c) (HomesteadBlock newcfg) head then
       Some (newCompatError ''Homestead fork block'' (HomesteadBlock c) (HomesteadBlock newcfg))
     else if isForkIncompatible (EIP150Block c) (EIP150Block newcfg) head then
       Some (newCompatError ''EIP150 fork block'' (EIP150Block c) (EIP150Block newcfg))
     else if isForkIncompatible (EIP155Block c) (EIP155Block newcfg) head then
       Some (newCompatError ''EIP155 fork block'' (EIP155Block c) (EIP155Block newcfg))
     else if isForkIncompatible (EIP158Block c) (EIP158Block newcfg) head then
       Some (newCompatError ''EIP158 fork block'' (EIP158Block c) (EIP158Block newcfg))
     else if IsEIP158 c head \<and> \<not> configNumEqual (ChainId c) (ChainId newcfg) then
       Some (newCompatError ''EIP158 chain ID'' (EIP158Block c) (EIP158Block newcfg))
     else if isForkIncompatible (ByzantiumBlock c) (ByzantiumBlock newcfg) head then
       Some (newCompatError ''Byzantium fork block'' (ByzantiumBlock c) (ByzantiumBlock newcfg))
     else if isForkIncompatible (ConstantinopleBlock c) (ConstantinopleBlock newcfg) head then
       Some (newCompatError ''Constantinople fork block'' (ConstantinopleBlock c) (ConstantinopleBlock newcfg))
     else if isForkIncompatible (PetersburgBlock c) (PetersburgBlock newcfg) head then
       Some (newCompatError ''ConstantinopleFix fork block'' (PetersburgBlock c) (PetersburgBlock newcfg))
     else if isForkIncompatible (DarvazaBlock c) (DarvazaBlock newcfg) head then
       Some (newCompatError ''Darvaza fork block'' (DarvazaBlock c) (DarvazaBlock newcfg))
     else if isForkIncompatible (EWASMBlock c) (EWASMBlock newcfg) head then
       Some (newCompatError ''ewasm fork block'' (EWASMBlock c) (EWASMBlock newcfg))
     else None)"

text \<open>The loop of \<open>CheckCompatible\<close>; not returning is the value \<open>None\<close>.\<close>

partial_function (option) CheckCompatible_loop ::
  "ChainConfig \<Rightarrow> ChainConfig \<Rightarrow> bigint \<Rightarrow> ConfigCompatError option \<Rightarrow> ConfigCompatError option option" where
  "CheckCompatible_loop c newcfg bhead lasterr =
    (case checkCompatible c newcfg (Some bhead) of
       None \<Rightarrow> Some lasterr
     | Some err \<Rightarrow>
         (if (case lasterr of None \<Rightarrow> False | Some l \<Rightarrow> RewindTo err = RewindTo l) then Some lasterr
          else CheckCompatible_loop c newcfg (uint (RewindTo err)) (Some err)))"

definition CheckCompatible ::
  "ChainConfig \<Rightarrow> ChainConfig \<Rightarrow> uint64 \<Rightarrow> ConfigCompatError option option" where
  "CheckCompatible c newcfg height = CheckCompatible_loop c newcfg (uint height) None"

text \<open>
  Agreement of two configurations up to a block, without the functions of the code: each fork
  happens in both at the same block or in neither, as far as blocks up to \<open>head\<close> go, and a chain past
  EIP158 has the same chain ID.  The gas of the Darvaza fork, the hash of EIP150 and the parameters
  of the engine are not part of it.
\<close>

definition same_fork :: "bigint \<Rightarrow> bigint option \<Rightarrow> bigint option \<Rightarrow> bool" where
  "same_fork head s1 s2 \<longleftrightarrow> (\<forall>b \<le> head. s1 = Some b \<longleftrightarrow> s2 = Some b)"

definition configs_agree :: "bigint \<Rightarrow> ChainConfig \<Rightarrow> ChainConfig \<Rightarrow> bool" where
  "configs_agree head c c' \<longleftrightarrow>
    same_fork head (HomesteadBlock c) (HomesteadBlock c') \<and> same_fork head (EIP150Block c) (EIP150Block c') \<and>
    same_fork head (EIP155Block c) (EIP155Block c') \<and> same_fork head (EIP158Block c) (EIP158Block c') \<and>
    same_fork head (ByzantiumBlock c) (ByzantiumBlock c') \<and>
    same_fork head (ConstantinopleBlock c) (ConstantinopleBlock c') \<and>
    same_fork head (PetersburgBlock c) (PetersburgBlock c') \<and> same_fork head (DarvazaBlock c) (DarvazaBlock c') \<and>
    same_fork head (EWASMBlock c) (EWASMBlock c') \<and>
    ((\<exists>b \<le> head. EIP158Block c = Some b) \<longrightarrow> ChainId c = ChainId c')"

lemma isForkIncompatible_iff: "isForkIncompatible s1 s2 (Some h) \<longleftrightarrow> \<not> same_fork h s1 s2"
  by (cases s1; cases s2) (auto simp: isForkIncompatible_def isForked_def configNumEqual_def same_fork_def)

lemma configNumEqual_iff: "configNumEqual x y \<longleftrightarrow> x = y"
  by (cases x; cases y) (auto simp: configNumEqual_def)

lemma IsEIP158_iff: "IsEIP158 c (Some h) \<longleftrightarrow> (\<exists>b \<le> h. EIP158Block c = Some b)"
  by (auto simp: IsEIP158_def isForked_def split: option.split)

lemma checkCompatible_iff: "checkCompatible c c' (Some h) = None \<longleftrightarrow> configs_agree h c c'"
  unfolding checkCompatible_def configs_agree_def isForkIncompatible_iff configNumEqual_iff IsEIP158_iff
  by (simp split: if_split) blast

lemma isForked_mono: "isForked s (Some a) \<Longrightarrow> a \<le> b \<Longrightarrow> isForked s (Some b)"
  by (auto simp: isForked_def split: option.splits)

text \<open>Every conflict at a head rewinds below it, or to the genesis block.\<close>

lemma newCompatError_rewind:
  assumes "isForked s1 (Some h) \<or> isForked s2 (Some h)" and "0 \<le> h" "h < 2 ^ 64"
  shows "RewindTo (newCompatError w s1 s2) = 0 \<or> uint (RewindTo (newCompatError w s1 s2)) < h"
proof -
  have sub: "uint (big_Uint64 r - 1) < h" if "0 < r" "r \<le> h" for r
  proof -
    have "big_Uint64 r - 1 = word_of_int (r - 1)" using that by (simp add: big_Uint64_def)
    then have "uint (big_Uint64 r - 1) = (r - 1) mod 2 ^ 64"
      by (simp only: unsigned_of_int take_bit_eq_mod) simp
    also have "\<dots> = r - 1" using that assms by (intro mod_pos_pos_trivial) simp_all
    finally show ?thesis using that by simp
  qed
  show ?thesis
  proof (cases "compat_rewind s1 s2")
    case (Some r)
    then have "r \<le> h" using assms(1)
      by (auto simp: compat_rewind_def isForked_def split: option.splits if_splits)
    then show ?thesis using Some sub [of r] by (simp add: newCompatError_def)
  qed (simp add: newCompatError_def)
qed

lemma if_Some_cases:
  assumes "(if b then Some x else y) = Some e" and "b \<Longrightarrow> P x" and "y = Some e \<Longrightarrow> P e"
  shows "P e"
  using assms by (auto split: if_splits)

lemma checkCompatible_rewind:
  assumes "checkCompatible c n (Some h) = Some e" and h: "0 \<le> h" "h < 2 ^ 64"
  shows "RewindTo e = 0 \<or> uint (RewindTo e) < h"
proof -
  let ?P = "\<lambda>e. RewindTo e = 0 \<or> uint (RewindTo e) < h"
  have inc: "?P (newCompatError w s1 s2)" if "isForkIncompatible s1 s2 (Some h)" for w s1 s2
    using that newCompatError_rewind [OF _ h] unfolding isForkIncompatible_def by blast
  have id: "?P (newCompatError w s1 s2)" if "isForked s1 (Some h) \<and> q" for w s1 s2 q
    using that newCompatError_rewind [OF _ h] by blast
  show ?thesis
    using assms(1) unfolding checkCompatible_def IsEIP158_def
    by (elim if_Some_cases [where P = ?P]) (erule inc | erule id | simp)+
qed

lemma CheckCompatible_loop_returns:
  assumes "0 \<le> h" "h < 2 ^ 64" and "\<And>l. lst = Some l \<Longrightarrow> uint (RewindTo l) = h"
  shows "\<exists>r. CheckCompatible_loop c n h lst = Some r \<and>
    (r = None \<longleftrightarrow> lst = None \<and> checkCompatible c n (Some h) = None) \<and>
    (\<forall>e. r = Some e \<longrightarrow> uint (RewindTo e) \<le> h \<and>
       (RewindTo e = 0 \<or> checkCompatible c n (Some (uint (RewindTo e))) = None))"
  using assms
proof (induction "2 * nat h + (if lst = None then 1 else 0)" arbitrary: h lst rule: less_induct)
  case less
  show ?case
  proof (cases "checkCompatible c n (Some h)")
    case None
    then have "CheckCompatible_loop c n h lst = Some lst" by (subst CheckCompatible_loop.simps) simp
    then show ?thesis using None less.prems(3) by auto
  next
    case (Some err)
    let ?h = "uint (RewindTo err)"
    have rew: "RewindTo err = 0 \<or> ?h < h" using checkCompatible_rewind [OF Some less.prems(1,2)] .
    show ?thesis
    proof (cases "\<exists>l. lst = Some l \<and> RewindTo err = RewindTo l")
      case True
      then obtain l where l: "lst = Some l" "RewindTo err = RewindTo l" by blast
      then have "CheckCompatible_loop c n h lst = Some lst"
        using Some by (subst CheckCompatible_loop.simps) simp
      moreover have "RewindTo l = 0" using rew l less.prems(3) [OF l(1)] by auto
      ultimately show ?thesis using l less.prems by auto
    next
      case False
      then have step: "CheckCompatible_loop c n h lst = CheckCompatible_loop c n ?h (Some err)"
        using Some by (subst CheckCompatible_loop.simps) (auto split: option.splits)
      have le: "?h \<le> h" using rew less.prems(1) by auto
      have "?h < h" if "lst = Some l" for l
      proof (rule ccontr)
        assume nl: "\<not> ?h < h"
        then have z: "RewindTo err = 0" using rew by blast
        then have "uint (RewindTo l) = 0" using nl less.prems(1) less.prems(3) [OF that] by simp
        then have "RewindTo l = 0" by (simp add: word_uint_eq_iff)
        then show False using False that z by simp
      qed
      then have dec: "2 * nat ?h + (if Some err = None then 1 else 0) < 2 * nat h + (if lst = None then 1 else 0)"
        using nat_mono [OF le] less.prems(1) by (cases lst) (auto simp: less_le eq_nat_nat_iff simp del: nat_uint_eq)
      have "?h < 2 ^ 64" using le less.prems(2) by linarith
      then have "\<exists>r. CheckCompatible_loop c n ?h (Some err) = Some r \<and>
        (r = None \<longleftrightarrow> Some err = None \<and> checkCompatible c n (Some ?h) = None) \<and>
        (\<forall>e. r = Some e \<longrightarrow> uint (RewindTo e) \<le> ?h \<and>
          (RewindTo e = 0 \<or> checkCompatible c n (Some (uint (RewindTo e))) = None))"
        by (intro less.hyps [OF dec]) simp_all
      then obtain r where r: "CheckCompatible_loop c n ?h (Some err) = Some r" "r \<noteq> None"
        "\<And>e. r = Some e \<Longrightarrow> uint (RewindTo e) \<le> ?h \<and>
          (RewindTo e = 0 \<or> checkCompatible c n (Some (uint (RewindTo e))) = None)"
        by blast
      have "uint (RewindTo e) \<le> h \<and> (RewindTo e = 0 \<or> checkCompatible c n (Some (uint (RewindTo e))) = None)"
        if "r = Some e" for e using r(3) [OF that] le by simp
      with r(1,2) step Some show ?thesis by simp
    qed
  qed
qed

lemma CheckCompatible_returns:
  "\<exists>r. CheckCompatible c n h = Some r \<and>
    (r = None \<longleftrightarrow> checkCompatible c n (Some (uint h)) = None) \<and>
    (\<forall>e. r = Some e \<longrightarrow> uint (RewindTo e) \<le> uint h \<and>
       (RewindTo e = 0 \<or> checkCompatible c n (Some (uint (RewindTo e))) = None))"
proof -
  have "uint h < 2 ^ 64" using unsigned_less [of h, where ?'a = int] by simp
  then show ?thesis
    using CheckCompatible_loop_returns [of "uint h" None c n] by (simp add: CheckCompatible_def)
qed

end
