(* ===== verification/Clique_Snapshot.thy ===== *)
theory Clique_Snapshot
  imports Types Params
begin

text \<open>
  The voting snapshot of the proof-of-authority engine (\<open>consensus/clique/snapshot.go\<close>) and the
  functions of \<open>consensus/clique/clique.go\<close> it uses: the recovery of a block's signer, the layout of
  the extra data, and the difficulty of a signer.
\<close>

section \<open>Constants and errors\<close>

definition signatureLength :: nat where "signatureLength = 65"

definition extraVanity :: nat where "extraVanity = 32"

definition extraPropose :: nat where "extraPropose = AddressLength + 1"

definition voterElection :: byte where "voterElection = 0xff"

definition signerElection :: byte where "signerElection = 0x00"

definition nonceAuthVote :: BlockNonce where "nonceAuthVote = 0xffffffffffffffff"

definition nonceDropVote :: BlockNonce where "nonceDropVote = 0"

text \<open>
  The error values of the engine.  The errors that code outside the engine returns are \<open>ErrEcrecover\<close>,
  \<open>ErrSign\<close> and \<open>ErrDatabase\<close>; a run-time panic is \<open>Panic\<close>.
\<close>

datatype go_panic = NilDereference | IndexOutOfRange | DivideByZero | CantEncode

datatype clique_error =
    errUnknownBlock | errInvalidVote | errInvalidCheckpointVote | errMissingVanity
  | errMissingSignature | errMissingSigners | errMissingVoters | errInvalidCheckpointSigners
  | errInvalidCheckpointVoters | errInvalidMixDigest | errInvalidUncleHash | errInvalidDifficulty
  | ErrInvalidTimestamp | errInvalidVotingChain | errWaitTransactions | ErrIneligibleSigner
  | ErrUnknownAncestor | ErrFutureBlock | errForkHash hash hash | errNoGenesis
  | errUnauthorized address | errSignedRecently address uint64 uint64 uint64
  | ErrEcrecover | ErrSign | ErrDatabase | OutOfFuel | Panic go_panic

section \<open>Extra data\<close>

definition ExtraEnsureVanity :: "bytes \<Rightarrow> bytes" where
  "ExtraEnsureVanity extra =
    (if length extra < extraVanity then extra @ replicate (extraVanity - length extra) 0
     else take extraVanity extra)"

definition ExtraVanity :: "bytes \<Rightarrow> bytes" where
  "ExtraVanity extra = (if length extra < extraVanity then extra else take extraVanity extra)"

definition ExtraAppendVote :: "bytes \<Rightarrow> address \<Rightarrow> bool \<Rightarrow> bytes" where
  "ExtraAppendVote extra candidate voter =
    (let extra' = extra @ Address_Bytes candidate;
         election = (if voter then voterElection else signerElection)
     in extra' @ [election])"

definition ExtraHasVote :: "bytes \<Rightarrow> bool" where
  "ExtraHasVote extra \<longleftrightarrow> length extra = extraVanity + extraPropose"

definition ExtraCandidate :: "bytes \<Rightarrow> address" where
  "ExtraCandidate extra =
    (if length extra < extraVanity + AddressLength then 0
     else BytesToAddress (take AddressLength (drop extraVanity extra)))"

definition ExtraIsVoterElection :: "bytes \<Rightarrow> bool" where
  "ExtraIsVoterElection extra =
    (if length extra < extraVanity + extraPropose then False
     else let b = extra ! (extraVanity + AddressLength) in
       if b = voterElection then True else if b = signerElection then False else False)"

section \<open>Recovering the signer of a block\<close>

text \<open>The sealed fields, in the order \<open>encodeSigHeader\<close> lists them.\<close>

definition encodeSigHeader :: "Header \<Rightarrow> rlp_value" where
  "encodeSigHeader h = VList
    [VHash (ParentHash h), VHash (UncleHash h), VAddress (Coinbase h), VHash (Root h),
     VHash (TxHash h), VHash (ReceiptHash h), VBytes (h_Bloom h), VBig (Difficulty h),
     VBig (h_Number h), VUint (h_GasLimit h), VUint (h_GasUsed h), VBig (h_Time h),
     VList (map VAddress (h_Signers h)), VList (map VAddress (h_Voters h)), VBytes (Extra h),
     VHash (MixDigest h), VBytes (nonce_Bytes (h_Nonce h))]"

definition CliqueRLP :: "Header \<Rightarrow> clique_error + bytes" where
  "CliqueRLP h = (case Encode (encodeSigHeader h) of Inl e \<Rightarrow> Inl (Panic CantEncode) | Inr b \<Rightarrow> Inr b)"

definition SealHash :: "(bytes \<Rightarrow> hash) \<Rightarrow> Header \<Rightarrow> clique_error + hash" where
  "SealHash keccak h =
    (case Encode (encodeSigHeader h) of Inl e \<Rightarrow> Inl (Panic CantEncode) | Inr b \<Rightarrow> Inr (keccak b))"

text \<open>
  What the code takes from other packages: the hash function, public key recovery
  (\<open>crypto.Ecrecover\<close>), and the \<open>Get\<close> and \<open>Add\<close> of the signature cache
  (\<open>hashicorp/golang-lru\<close>) of type \<open>'c\<close>.
\<close>

record 'c sig_ops =
  op_keccak :: "bytes \<Rightarrow> hash"
  op_Ecrecover :: "bytes \<Rightarrow> bytes \<Rightarrow> bytes option"
  sig_Get :: "hash \<Rightarrow> 'c \<Rightarrow> address option \<times> 'c"
  sig_Add :: "hash \<Rightarrow> address \<Rightarrow> 'c \<Rightarrow> 'c"

text \<open>The address computed from the signature, without the cache.\<close>

definition recover_signer :: "'c sig_ops \<Rightarrow> Header \<Rightarrow> clique_error + address" where
  "recover_signer ops header =
    (if length (h_Signer header) < signatureLength then Inl errMissingSignature
     else case SealHash (op_keccak ops) header of
       Inl e \<Rightarrow> Inl e
     | Inr sealhash \<Rightarrow>
         (case op_Ecrecover ops (Hash_Bytes sealhash) (h_Signer header) of
            None \<Rightarrow> Inl ErrEcrecover
          | Some pubkey \<Rightarrow>
              if length pubkey < 1 then Inl (Panic IndexOutOfRange)
              else Inr (BytesToAddress (drop 12 (Hash_Bytes (op_keccak ops (drop 1 pubkey)))))))"

definition ecrecover :: "'c sig_ops \<Rightarrow> Header \<Rightarrow> 'c \<Rightarrow> (clique_error + address) \<times> 'c" where
  "ecrecover ops header sigcache =
    (let hash = Header_Hash (op_keccak ops) header in
     case sig_Get ops hash sigcache of
       (Some address, sigcache1) \<Rightarrow> (Inr address, sigcache1)
     | (None, sigcache1) \<Rightarrow>
         (case recover_signer ops header of
            Inl e \<Rightarrow> (Inl e, sigcache1)
          | Inr signer \<Rightarrow> (Inr signer, sig_Add ops hash signer sigcache1)))"

section \<open>Difficulty\<close>

text \<open>The two loops go over the entries of the map; a missing entry reads as 0.\<close>

definition CalcDifficulty :: "(address, uint64) go_map \<Rightarrow> address \<Rightarrow> uint64" where
  "CalcDifficulty lastSigned signer =
    (let lst = (case map_get lastSigned signer of None \<Rightarrow> 0 | Some n \<Rightarrow> n);
         difficulty =
           (if lst > 0 then
              fold (\<lambda>(addr, n) difficulty. if n > lst then difficulty + 1 else difficulty) lastSigned 1
            else
              fold (\<lambda>(addr, n) difficulty. if n > 0 \<or> addr > signer then difficulty + 1 else difficulty) lastSigned 1)
     in if difficulty \<le> length lastSigned div 2 then 0 else word_of_nat difficulty)"

section \<open>The snapshot\<close>

record Vote =
  v_Signer :: address
  v_Block :: uint64
  v_Address :: address
  v_Authorize :: bool

record Tally =
  t_Authorize :: bool
  t_Votes :: int

record Snapshot =
  s_Number :: uint64
  s_Hash :: hash
  Signers :: "(address, uint64) go_map"
  Voters :: "(address, unit) go_map"
  Votes :: "Vote list"
  s_Tally :: "(address, Tally) go_map"

definition newGenesisSnapshot :: "uint64 \<Rightarrow> hash \<Rightarrow> address list \<Rightarrow> address list \<Rightarrow> Snapshot" where
  "newGenesisSnapshot number hash signers voters =
    \<lparr> s_Number = number, s_Hash = hash,
      Signers = fold (\<lambda>signer m. map_put signer 0 m) signers [],
      Voters = fold (\<lambda>voter m. map_put voter () m) voters [],
      Votes = [], s_Tally = [] \<rparr>"

text \<open>\<open>copy\<close> inserts every entry of each map into a fresh one.\<close>

definition copy_map :: "('k, 'v) go_map \<Rightarrow> ('k, 'v) go_map" where
  "copy_map m = fold (\<lambda>(k, v) c. map_put k v c) m []"

definition snap_copy :: "Snapshot \<Rightarrow> Snapshot" where
  "snap_copy s =
    \<lparr> s_Number = s_Number s, s_Hash = s_Hash s, Signers = copy_map (Signers s),
      Voters = copy_map (Voters s), Votes = Votes s, s_Tally = copy_map (s_Tally s) \<rparr>"

definition validVote :: "Snapshot \<Rightarrow> address \<Rightarrow> bool \<Rightarrow> bool \<Rightarrow> bool" where
  "validVote s address authorize voter_election =
    (if voter_election then
       (let voter = map_has (Voters s) address in (voter \<and> \<not> authorize) \<or> (\<not> voter \<and> authorize))
     else
       (let signer = map_has (Signers s) address in (signer \<and> \<not> authorize) \<or> (\<not> signer \<and> authorize)))"

definition cast :: "Snapshot \<Rightarrow> address \<Rightarrow> bool \<Rightarrow> bool \<Rightarrow> bool \<times> Snapshot" where
  "cast s address authorize voter_election =
    (if \<not> validVote s address authorize voter_election then (False, s)
     else (case map_get (s_Tally s) address of
       Some old \<Rightarrow> (True, s\<lparr> s_Tally := map_put address (old\<lparr> t_Votes := t_Votes old + 1 \<rparr>) (s_Tally s) \<rparr>)
     | None \<Rightarrow>
         (True, s\<lparr> s_Tally := map_put address \<lparr> t_Authorize = authorize, t_Votes = 1 \<rparr> (s_Tally s) \<rparr>)))"

definition uncast :: "Snapshot \<Rightarrow> address \<Rightarrow> bool \<Rightarrow> bool \<times> Snapshot" where
  "uncast s address authorize =
    (case map_get (s_Tally s) address of
       None \<Rightarrow> (False, s)
     | Some tally \<Rightarrow>
         if t_Authorize tally \<noteq> authorize then (False, s)
         else if t_Votes tally > 1 then
           (True, s\<lparr> s_Tally := map_put address (tally\<lparr> t_Votes := t_Votes tally - 1 \<rparr>) (s_Tally s) \<rparr>)
         else (True, s\<lparr> s_Tally := map_del address (s_Tally s) \<rparr>))"

definition nextSignableBlockNumber :: "Snapshot \<Rightarrow> uint64 \<Rightarrow> uint64" where
  "nextSignableBlockNumber s lastSignedBlockNumber =
    (let n = word_of_nat (length (Signers s)) in lastSignedBlockNumber + n div 2 + 1)"

subsection \<open>Applying headers\<close>

text \<open>\<open>append(snap.Votes[:i], snap.Votes[i+1:]...)\<close>\<close>

definition remove_at :: "nat \<Rightarrow> 'a list \<Rightarrow> 'a list" where
  "remove_at i xs = take i xs @ drop (i + 1) xs"

text \<open>
  The loop that discards the previous vote of a signer on a candidate; the second argument list is
  what \<open>range snap.Votes\<close> has still to visit, from index \<open>i\<close> on.
\<close>

fun discard_previous :: "address \<Rightarrow> address \<Rightarrow> nat \<Rightarrow> Vote list \<Rightarrow> Snapshot \<Rightarrow> Snapshot" where
  "discard_previous signer candidate i [] snap = snap"
| "discard_previous signer candidate i (vote # votes) snap =
    (if v_Signer vote = signer \<and> v_Address vote = candidate then
       (let snap1 = snd (uncast snap (v_Address vote) (v_Authorize vote))
        in snap1\<lparr> Votes := remove_at i (Votes snap1) \<rparr>)
     else discard_previous signer candidate (i + 1) votes snap)"

lemma uncast_Votes [simp]: "Votes (snd (uncast s a b)) = Votes s"
  by (simp add: uncast_def split: option.splits)

lemma length_remove_at: "i < length xs \<Longrightarrow> length (remove_at i xs) = length xs - 1"
  by (simp add: remove_at_def)

text \<open>The loop that discards every vote of a deauthorized voter.\<close>

function discard_votes_of :: "address \<Rightarrow> nat \<Rightarrow> Snapshot \<Rightarrow> Snapshot" where
  "discard_votes_of candidate i snap =
    (if i < length (Votes snap) then
       (if v_Signer (Votes snap ! i) = candidate then
          (let snap1 = snd (uncast snap (v_Address (Votes snap ! i)) (v_Authorize (Votes snap ! i)))
           in discard_votes_of candidate i (snap1\<lparr> Votes := remove_at i (Votes snap1) \<rparr>))
        else discard_votes_of candidate (i + 1) snap)
     else snap)"
  by pat_completeness auto
termination discard_votes_of
  by (relation "measure (\<lambda>(candidate, i, snap). length (Votes snap) - i)") (auto simp: length_remove_at)

text \<open>The loop that discards every vote on a candidate.\<close>

function discard_votes_on :: "address \<Rightarrow> nat \<Rightarrow> Snapshot \<Rightarrow> Snapshot" where
  "discard_votes_on candidate i snap =
    (if i < length (Votes snap) then
       (if v_Address (Votes snap ! i) = candidate then
          discard_votes_on candidate i (snap\<lparr> Votes := remove_at i (Votes snap) \<rparr>)
        else discard_votes_on candidate (i + 1) snap)
     else snap)"
  by pat_completeness auto
termination discard_votes_on
  by (relation "measure (\<lambda>(candidate, i, snap). length (Votes snap) - i)") (auto simp: length_remove_at)

declare discard_votes_of.simps [simp del] discard_votes_on.simps [simp del]

text \<open>The update of the signers and voters once the tally of a candidate has passed.\<close>

definition pass_vote :: "address \<Rightarrow> Snapshot \<Rightarrow> Snapshot" where
  "pass_vote candidate snap =
    (let tally = (case map_get (s_Tally snap) candidate of
                    None \<Rightarrow> \<lparr> t_Authorize = False, t_Votes = 0 \<rparr> | Some t \<Rightarrow> t)
     in if t_Votes tally > int (length (Voters snap) div 2) then
       (let snap1 =
          (if t_Authorize tally then
             (if \<not> map_has (Signers snap) candidate then
                snap\<lparr> Signers := map_put candidate 0 (Signers snap) \<rparr>
              else snap\<lparr> Voters := map_put candidate () (Voters snap) \<rparr>)
           else
             (if \<not> map_has (Voters snap) candidate then
                snap\<lparr> Signers := map_del candidate (Signers snap) \<rparr>
              else discard_votes_of candidate 0 (snap\<lparr> Voters := map_del candidate (Voters snap) \<rparr>)));
          snap2 = discard_votes_on candidate 0 snap1
        in snap2\<lparr> s_Tally := map_del candidate (s_Tally snap2) \<rparr>)
     else snap)"

text \<open>What a header of a voter does to the votes.\<close>

definition apply_vote :: "address \<Rightarrow> uint64 \<Rightarrow> Header \<Rightarrow> Snapshot \<Rightarrow> clique_error + Snapshot" where
  "apply_vote signer number header snap =
    (let (candidate, voter_election) =
           (if ExtraHasVote (Extra header)
            then (ExtraCandidate (Extra header), ExtraIsVoterElection (Extra header)) else (0, False));
         snap1 = discard_previous signer candidate 0 (Votes snap) snap
     in if h_Nonce header \<noteq> nonceAuthVote \<and> h_Nonce header \<noteq> nonceDropVote then Inl errInvalidVote
     else
       (let authorize = (h_Nonce header = nonceAuthVote);
            snap2 = (case cast snap1 candidate authorize voter_election of
                (True, s) \<Rightarrow> s\<lparr> Votes := Votes s @ [\<lparr> v_Signer = signer, v_Block = number,
                                v_Address = candidate, v_Authorize = authorize \<rparr>] \<rparr>
              | (False, s) \<Rightarrow> s)
        in Inr (pass_vote candidate snap2)))"

text \<open>The part of the loop body of \<open>apply\<close> after the signer is known.\<close>

definition apply_signed :: "uint64 \<Rightarrow> address \<Rightarrow> Header \<Rightarrow> Snapshot \<Rightarrow> clique_error + Snapshot" where
  "apply_signed number signer header snap =
    (case map_get (Signers snap) signer of
       None \<Rightarrow> Inl (errUnauthorized signer)
     | Some lastBlockSigned \<Rightarrow>
         (let next = nextSignableBlockNumber snap lastBlockSigned in
          if lastBlockSigned > 0 \<and> number < next then
            Inl (errSignedRecently signer number lastBlockSigned next)
          else
            (let snap1 = snap\<lparr> Signers := map_put signer number (Signers snap) \<rparr> in
             if map_has (Voters snap1) signer then apply_vote signer number header snap1
             else Inr snap1)))"

text \<open>One iteration of the loop: epoch reset, recovery of the signer, and the rest.\<close>

definition apply_header :: "'c sig_ops \<Rightarrow> uint64 \<Rightarrow> Header \<Rightarrow> Snapshot \<Rightarrow> 'c \<Rightarrow> (clique_error + Snapshot) \<times> 'c" where
  "apply_header ops epoch header snap sigcache =
    (case NumberU64 header of
       None \<Rightarrow> (Inl (Panic NilDereference), sigcache)
     | Some number \<Rightarrow>
         if epoch = 0 then (Inl (Panic DivideByZero), sigcache)
         else
           (let snap1 = (if number mod epoch = 0 then snap\<lparr> Votes := [], s_Tally := [] \<rparr> else snap) in
            case ecrecover ops header sigcache of
              (Inl e, sigcache1) \<Rightarrow> (Inl e, sigcache1)
            | (Inr signer, sigcache1) \<Rightarrow> (apply_signed number signer header snap1, sigcache1)))"

fun apply_headers :: "'c sig_ops \<Rightarrow> uint64 \<Rightarrow> Header list \<Rightarrow> Snapshot \<Rightarrow> 'c \<Rightarrow> (clique_error + Snapshot) \<times> 'c" where
  "apply_headers ops epoch [] snap sigcache = (Inr snap, sigcache)"
| "apply_headers ops epoch (header # headers) snap sigcache =
    (case apply_header ops epoch header snap sigcache of
       (Inl e, sigcache1) \<Rightarrow> (Inl e, sigcache1)
     | (Inr snap1, sigcache1) \<Rightarrow> apply_headers ops epoch headers snap1 sigcache1)"

text \<open>The sanity check that the header numbers are contiguous.\<close>

fun check_chain :: "Header list \<Rightarrow> clique_error option" where
  "check_chain (h1 # h2 # hs) =
    (case (NumberU64 h2, NumberU64 h1) of
       (Some n2, Some n1) \<Rightarrow> if n2 \<noteq> n1 + 1 then Some errInvalidVotingChain else check_chain (h2 # hs)
     | _ \<Rightarrow> Some (Panic NilDereference))"
| "check_chain hs = None"

definition snap_apply :: "'c sig_ops \<Rightarrow> uint64 \<Rightarrow> Snapshot \<Rightarrow> Header list \<Rightarrow> 'c \<Rightarrow> (clique_error + Snapshot) \<times> 'c" where
  "snap_apply ops epoch s headers sigcache =
    (if headers = [] then (Inr s, sigcache)
     else case check_chain headers of
       Some e \<Rightarrow> (Inl e, sigcache)
     | None \<Rightarrow>
         (case NumberU64 (hd headers) of
            None \<Rightarrow> (Inl (Panic NilDereference), sigcache)
          | Some n0 \<Rightarrow>
              if n0 \<noteq> s_Number s + 1 then (Inl errInvalidVotingChain, sigcache)
              else (case apply_headers ops epoch headers (snap_copy s) sigcache of
                 (Inl e, sigcache1) \<Rightarrow> (Inl e, sigcache1)
               | (Inr snap, sigcache1) \<Rightarrow>
                   (Inr (snap\<lparr> s_Number := s_Number snap + word_of_nat (length headers),
                               s_Hash := Header_Hash (op_keccak ops) (last headers) \<rparr>), sigcache1))))"

subsection \<open>The sorted lists of signers and voters\<close>

text \<open>The two nested loops exchange elements that are out of order; \<open>bytes.Compare\<close> is the word order.\<close>

fun exchange_inner :: "nat \<Rightarrow> nat \<Rightarrow> nat \<Rightarrow> address list \<Rightarrow> address list" where
  "exchange_inner i j 0 xs = xs"
| "exchange_inner i j (Suc k) xs =
    exchange_inner i (j + 1) k
      (if xs ! i > xs ! j then xs[i := xs ! j, j := xs ! i] else xs)"

fun exchange_outer :: "nat \<Rightarrow> nat \<Rightarrow> address list \<Rightarrow> address list" where
  "exchange_outer i 0 xs = xs"
| "exchange_outer i (Suc k) xs =
    exchange_outer (i + 1) k (exchange_inner i (i + 1) (length xs - (i + 1)) xs)"

definition signers :: "Snapshot \<Rightarrow> address list" where
  "signers s = (let xs = map fst (Signers s) in exchange_outer 0 (length xs) xs)"

definition voters :: "Snapshot \<Rightarrow> address list" where
  "voters s = (let xs = map fst (Voters s) in exchange_outer 0 (length xs) xs)"

section \<open>What the seal covers\<close>

lemma encodeSigHeader_encodable: "header_numbers h \<Longrightarrow> encodable (encodeSigHeader h)"
  by (erule header_numbers_cases) (simp add: encodeSigHeader_def VHash_def VAddress_def)

lemma encodeSigHeader_inj:
  assumes "header_numbers h" "header_numbers h'" "item_of (encodeSigHeader h) = item_of (encodeSigHeader h')"
  shows "h\<lparr> h_Signer := [] \<rparr> = h'\<lparr> h_Signer := [] \<rparr>"
  using assms(1,2)
proof (elim header_numbers_cases)
  fix d n t d' n' t'
  assume f: "Difficulty h = Some d" "h_Number h = Some n" "h_Time h = Some t" "0 \<le> d" "0 \<le> n" "0 \<le> t"
    "Difficulty h' = Some d'" "h_Number h' = Some n'" "h_Time h' = Some t'" "0 \<le> d'" "0 \<le> n'" "0 \<le> t'"
  have
    "ParentHash h = ParentHash h'" "UncleHash h = UncleHash h'" "Coinbase h = Coinbase h'"
    "Root h = Root h'" "TxHash h = TxHash h'" "ReceiptHash h = ReceiptHash h'" "h_Bloom h = h_Bloom h'"
    "Difficulty h = Difficulty h'" "h_Number h = h_Number h'" "h_GasLimit h = h_GasLimit h'"
    "h_GasUsed h = h_GasUsed h'" "h_Time h = h_Time h'" "h_Signers h = h_Signers h'"
    "h_Voters h = h_Voters h'" "Extra h = Extra h'" "MixDigest h = MixDigest h'"
    "h_Nonce h = h_Nonce h'"
    using assms(3) f by (simp_all add: encodeSigHeader_def del: item_of.simps(2,4))
  then show ?thesis by - (rule Header.equality, simp_all)
qed

lemma SealHash_covers:
  assumes "header_numbers h" "header_numbers h'"
    and "length (enc (item_of (encodeSigHeader h))) < 2 ^ 64" "length (enc (item_of (encodeSigHeader h'))) < 2 ^ 64"
    and "inj_on keccak {enc (item_of (encodeSigHeader h)), enc (item_of (encodeSigHeader h'))}"
    and "SealHash keccak h = SealHash keccak h'"
  shows "h\<lparr> h_Signer := [] \<rparr> = h'\<lparr> h_Signer := [] \<rparr>"
proof -
  note e = encbuf_output(2) [OF encodeSigHeader_encodable]
  have "keccak (enc (item_of (encodeSigHeader h))) = keccak (enc (item_of (encodeSigHeader h')))"
    using assms(6) by (simp add: SealHash_def e [OF assms(1,3)] e [OF assms(2,4)])
  then have "enc (item_of (encodeSigHeader h)) = enc (item_of (encodeSigHeader h'))"
    by (rule inj_onD [OF assms(5)]) blast+
  from enc_inj [OF assms(3) this] show ?thesis by (rule encodeSigHeader_inj [OF assms(1,2)])
qed
end
