(* ===== verification/Clique_Voting.thy ===== *)
theory Clique_Voting
  imports Clique_Snapshot "HOL-Library.Multiset"
begin

text \<open>
  Lemmas on the voting snapshot: the loops in closed form, the sorted lists, the extra data, the
  difficulty, and the invariant every applied header keeps.
\<close>

section \<open>The loops in closed form\<close>

lemma copy_map_id_aux: "distinct (map fst (c @ m)) \<Longrightarrow> fold (\<lambda>(k, v) c. map_put k v c) m c = c @ m"
proof (induction m arbitrary: c)
  case (Cons kv m)
  obtain k v where kv: "kv = (k, v)" by fastforce
  then have "k \<notin> set (map fst c)" using Cons.prems by auto
  then have "map_put k v c = c @ [(k, v)]" by (induction c) auto
  then show ?case using Cons kv by simp
qed simp

lemma copy_map_id [simp]: "map_ok m \<Longrightarrow> copy_map m = m"
  using copy_map_id_aux [of "[]" m] by (simp add: copy_map_def)

lemma remove_at_filter:
  assumes "i < length xs" "P (xs ! i)"
  shows "take i xs @ filter (\<lambda>x. \<not> P x) (drop i xs) =
    take i (remove_at i xs) @ filter (\<lambda>x. \<not> P x) (drop i (remove_at i xs))"
proof -
  have "drop i xs = xs ! i # drop (i + 1) xs" using assms(1) by (simp add: Cons_nth_drop_Suc)
  then show ?thesis using assms by (simp add: remove_at_def)
qed

lemma discard_votes_on_eq:
  "discard_votes_on candidate i snap = snap\<lparr> Votes := take i (Votes snap) @
     filter (\<lambda>v. v_Address v \<noteq> candidate) (drop i (Votes snap)) \<rparr>"
proof (induction candidate i snap rule: discard_votes_on.induct)
  case (1 candidate i snap)
  show ?case
  proof (cases "i < length (Votes snap)")
    case True
    note step = discard_votes_on.simps [of candidate i snap]
    show ?thesis
    proof (cases "v_Address (Votes snap ! i) = candidate")
      case eq: True
      then show ?thesis
        using 1(1) [OF True eq] remove_at_filter [OF True, of "\<lambda>v. v_Address v = candidate"] True
        by (subst step) simp
    next
      case False
      have "drop i (Votes snap) = Votes snap ! i # drop (i + 1) (Votes snap)"
        using True by (simp add: Cons_nth_drop_Suc)
      then show ?thesis using 1(2) [OF True False] True False
        by (subst step) (simp add: take_Suc_conv_app_nth)
    qed
  qed (subst discard_votes_on.simps, simp)
qed

lemma uncast_fields [simp]:
  "Signers (snd (uncast s a b)) = Signers s" "Voters (snd (uncast s a b)) = Voters s"
  "s_Number (snd (uncast s a b)) = s_Number s"
  by (simp_all add: uncast_def split: option.splits)

lemma discard_votes_of_Votes:
  "Votes (discard_votes_of candidate i snap) =
     take i (Votes snap) @ filter (\<lambda>v. v_Signer v \<noteq> candidate) (drop i (Votes snap))"
proof (induction candidate i snap rule: discard_votes_of.induct)
  case (1 candidate i snap)
  show ?case
  proof (cases "i < length (Votes snap)")
    case True
    note step = discard_votes_of.simps [of candidate i snap]
    show ?thesis
    proof (cases "v_Signer (Votes snap ! i) = candidate")
      case eq: True
      then show ?thesis
        using 1(1) [OF True eq refl] remove_at_filter [OF True, of "\<lambda>v. v_Signer v = candidate"] True
        by (subst step) (simp add: Let_def)
    next
      case False
      have "drop i (Votes snap) = Votes snap ! i # drop (i + 1) (Votes snap)"
        using True by (simp add: Cons_nth_drop_Suc)
      then show ?thesis using 1(2) [OF True False] True False
        by (subst step) (simp add: take_Suc_conv_app_nth)
    qed
  qed (subst discard_votes_of.simps, simp)
qed

lemma discard_votes_of_fields [simp]:
  "Signers (discard_votes_of candidate i snap) = Signers snap \<and>
   Voters (discard_votes_of candidate i snap) = Voters snap \<and>
   s_Number (discard_votes_of candidate i snap) = s_Number snap"
proof (induction candidate i snap rule: discard_votes_of.induct)
  case (1 candidate i snap)
  then show ?case by (subst (1 2 3) discard_votes_of.simps) (simp add: Let_def)
qed

lemma discard_previous_fields [simp]:
  "Signers (discard_previous signer candidate i votes snap) = Signers snap"
  "Voters (discard_previous signer candidate i votes snap) = Voters snap"
  "s_Number (discard_previous signer candidate i votes snap) = s_Number snap"
  by (induction signer candidate i votes snap rule: discard_previous.induct) (simp_all add: Let_def)

section \<open>Sorting\<close>

text \<open>
  One run of the inner loop from \<open>j\<close> on: a permutation that leaves the elements before \<open>i\<close> alone and
  brings the least of the rest to \<open>i\<close>.
\<close>

lemma exchange_inner_spec:
  assumes "i < j" "j + k = length xs" "\<forall>q. i < q \<and> q < j \<longrightarrow> xs ! i \<le> xs ! q"
  shows "mset (exchange_inner i j k xs) = mset xs \<and> length (exchange_inner i j k xs) = length xs \<and>
    take i (exchange_inner i j k xs) = take i xs \<and>
    (\<forall>q. i < q \<and> q < length xs \<longrightarrow> exchange_inner i j k xs ! i \<le> exchange_inner i j k xs ! q)"
  using assms
proof (induction i j k xs rule: exchange_inner.induct)
  case (1 i j xs)
  then show ?case by simp
next
  case (2 i j k xs)
  let ?xs = "if xs ! i > xs ! j then xs[i := xs ! j, j := xs ! i] else xs"
  have ij: "i < length xs" "j < length xs" using "2.prems" by auto
  have "\<forall>q. i < q \<and> q < j + 1 \<longrightarrow> ?xs ! i \<le> ?xs ! q"
  proof (intro allI impI)
    fix q assume q: "i < q \<and> q < j + 1"
    show "?xs ! i \<le> ?xs ! q"
    proof (cases "q = j")
      case True
      then show ?thesis using ij "2.prems"(1) by (auto simp: nth_list_update)
    next
      case False
      then have "xs ! i \<le> xs ! q" using q "2.prems"(3) by simp
      then show ?thesis using ij q False "2.prems"(1) by (auto simp: nth_list_update)
    qed
  qed
  then have "mset (exchange_inner i (j + 1) k ?xs) = mset ?xs \<and>
      length (exchange_inner i (j + 1) k ?xs) = length ?xs \<and>
      take i (exchange_inner i (j + 1) k ?xs) = take i ?xs \<and>
      (\<forall>q. i < q \<and> q < length ?xs \<longrightarrow> exchange_inner i (j + 1) k ?xs ! i \<le> exchange_inner i (j + 1) k ?xs ! q)"
    using "2.prems"(1,2) by (intro "2.IH") auto
  moreover have "mset ?xs = mset xs" "length ?xs = length xs" "take i ?xs = take i xs"
    using ij "2.prems"(1) by (auto simp: mset_swap take_update_cancel)
  ultimately show ?case by simp
qed

lemma exchange_outer_spec:
  assumes "i + k = length xs" "sorted (take i xs)"
    "\<forall>p q. p < i \<and> i \<le> q \<and> q < length xs \<longrightarrow> xs ! p \<le> xs ! q"
  shows "mset (exchange_outer i k xs) = mset xs \<and> sorted (exchange_outer i k xs)"
  using assms
proof (induction i k xs rule: exchange_outer.induct)
  case (2 i k xs)
  let ?ys = "exchange_inner i (i + 1) (length xs - (i + 1)) xs"
  have inner: "mset ?ys = mset xs \<and> length ?ys = length xs \<and> take i ?ys = take i xs \<and>
    (\<forall>q. i < q \<and> q < length xs \<longrightarrow> ?ys ! i \<le> ?ys ! q)"
    using "2.prems"(1) by (intro exchange_inner_spec) auto
  then have len: "length ?ys = length xs" and tk: "take i ?ys = take i xs" by blast+
  have i: "i < length xs" using "2.prems"(1) by simp
  have pre: "?ys ! p = xs ! p" if "p < i" for p using tk that by (metis nth_take)
  have "set (drop i ?ys) = set (drop i xs)"
  proof -
    have "mset ?ys = mset xs" using inner by blast
    then have "mset (take i ?ys @ drop i ?ys) = mset (take i xs @ drop i xs)"
      by (simp only: append_take_drop_id)
    then have "mset (drop i ?ys) = mset (drop i xs)" unfolding mset_append tk by simp
    then show ?thesis by (rule mset_eq_setD)
  qed
  then have low: "?ys ! p \<le> ?ys ! q" if "p < i" "i \<le> q" "q < length xs" for p q
  proof -
    have "?ys ! q \<in> set (drop i ?ys)" using that len by (auto simp: in_set_conv_nth intro!: exI [of _ "q - i"])
    then have "?ys ! q \<in> set (drop i xs)" using \<open>set (drop i ?ys) = set (drop i xs)\<close> by simp
    then obtain r where "?ys ! q = xs ! r" "i \<le> r" "r < length xs"
      by (auto simp: in_set_conv_nth) (metis add.commute le_add2 less_diff_conv)
    then show ?thesis using pre [OF that(1)] "2.prems"(3) that(1) by simp
  qed
  have "sorted (take (i + 1) ?ys)"
  proof -
    have "take (i + 1) ?ys = take i xs @ [?ys ! i]" using i len tk by (simp add: take_Suc_conv_app_nth)
    moreover have "\<forall>x \<in> set (take i xs). x \<le> ?ys ! i"
      using low [of _ i] pre i by (auto simp: in_set_conv_nth)
    ultimately show ?thesis using "2.prems"(2) by (simp add: sorted_append)
  qed
  moreover have "\<forall>p q. p < i + 1 \<and> i + 1 \<le> q \<and> q < length ?ys \<longrightarrow> ?ys ! p \<le> ?ys ! q"
    using low inner len by (auto simp: less_Suc_eq)
  ultimately have "mset (exchange_outer (i + 1) k ?ys) = mset ?ys \<and> sorted (exchange_outer (i + 1) k ?ys)"
    using "2.prems"(1) len by (intro "2.IH") auto
  then show ?case using inner by simp
qed simp

lemma exchange_sort: "mset (exchange_outer 0 (length xs) xs) = mset xs" "sorted (exchange_outer 0 (length xs) xs)"
  using exchange_outer_spec [of 0 "length xs" xs] by auto

lemma exchange_sort_eq: "exchange_outer 0 (length xs) xs = sort xs"
  using exchange_sort [of xs] by (metis properties_for_sort)

lemma signers_eq_sort: "signers s = sort (map fst (Signers s))"
  by (simp only: signers_def Let_def exchange_sort_eq)

lemma voters_eq_sort: "voters s = sort (map fst (Voters s))"
  by (simp only: voters_def Let_def exchange_sort_eq)

lemma sort_keys: "map_ok m \<Longrightarrow> sort (map fst m) = sorted_list_of_set (dom (map_of m))"
  by (simp add: dom_map_of_conv_image_fst sorted_list_of_set_sort_remdups distinct_remdups_id flip: set_map)

lemma signers_spec: "map_ok (Signers s) \<Longrightarrow> signers s = sorted_list_of_set (dom (map_of (Signers s)))"
  by (simp add: signers_eq_sort sort_keys)

lemma voters_spec: "map_ok (Voters s) \<Longrightarrow> voters s = sorted_list_of_set (dom (map_of (Voters s)))"
  by (simp add: voters_eq_sort sort_keys)

section \<open>Extra data\<close>

lemmas extra_defs = ExtraEnsureVanity_def ExtraVanity_def ExtraAppendVote_def ExtraHasVote_def
  ExtraCandidate_def ExtraIsVoterElection_def extraVanity_def extraPropose_def AddressLength_def

lemma length_ExtraEnsureVanity: "length (ExtraEnsureVanity e) = 32"
  by (simp add: extra_defs)

lemma Extra_vote:
  assumes "length e = 32"
  shows "ExtraHasVote (ExtraAppendVote e c v)" "ExtraCandidate (ExtraAppendVote e c v) = c"
    "ExtraIsVoterElection (ExtraAppendVote e c v) = v" "ExtraVanity (ExtraAppendVote e c v) = e"
  using assms
  by (simp_all add: extra_defs Let_def BytesToAddress_Bytes nth_append voterElection_def signerElection_def)

section \<open>Difficulty\<close>

text \<open>\<open>lower e f\<close>: the entry \<open>e\<close> has a lower priority than \<open>f\<close>.\<close>

definition lower :: "address \<times> uint64 \<Rightarrow> address \<times> uint64 \<Rightarrow> bool" where
  "lower e f = (if snd f > 0 then snd e > snd f else snd e > 0 \<or> fst e > fst f)"

text \<open>No two signers share the number of a signed block.\<close>

definition signed_distinct :: "(address, uint64) go_map \<Rightarrow> bool" where
  "signed_distinct m \<longleftrightarrow> (\<forall>e \<in> set m. \<forall>f \<in> set m. snd e > 0 \<and> snd e = snd f \<longrightarrow> fst e = fst f)"

definition lower_count :: "(address, uint64) go_map \<Rightarrow> address \<times> uint64 \<Rightarrow> nat" where
  "lower_count m f = card {e \<in> set m. lower e f}"

lemma lower_irrefl: "\<not> lower e e"
  by (simp add: lower_def)

lemma lower_trans: "lower e f \<Longrightarrow> lower f g \<Longrightarrow> lower e g"
  by (cases "snd g = 0"; cases "snd f = 0") (auto simp: lower_def word_gt_0 intro: less_trans)

lemma lower_total:
  "signed_distinct m \<Longrightarrow> map_ok m \<Longrightarrow> e \<in> set m \<Longrightarrow> f \<in> set m \<Longrightarrow> e \<noteq> f \<Longrightarrow> lower e f \<or> lower f e"
proof -
  assume a: "signed_distinct m" "map_ok m" "e \<in> set m" "f \<in> set m" "e \<noteq> f"
  have ne: "fst e \<noteq> fst f" using a(2-5) by (metis map_ok_get_iff option.inject prod.collapse)
  show ?thesis
  proof (cases "snd e = 0 \<and> snd f = 0")
    case True
    then show ?thesis using ne by (auto simp: lower_def)
  next
    case False
    have "snd e > 0 \<and> snd e = snd f \<longrightarrow> fst e = fst f"
      using a(1,3,4) unfolding signed_distinct_def by blast
    then have "snd e < snd f \<or> snd f < snd e" using False ne by (metis word_gt_0 linorder_neqE)
    then show ?thesis unfolding lower_def by (metis word_gt_0 word_not_simps(1))
  qed
qed

text \<open>A loop that counts the entries with a property.\<close>

lemma fold_count: "fold (\<lambda>(x, y) k. if P x y then k + 1 else k) xs k = k + length (filter (\<lambda>(x, y). P x y) xs)"
  for k :: nat
  by (induction xs arbitrary: k) auto

lemma CalcDifficulty_eq:
  assumes "map_ok m" "map_of m a = Some n"
  shows "CalcDifficulty m a =
    (if 1 + lower_count m (a, n) \<le> length m div 2 then 0 else word_of_nat (1 + lower_count m (a, n)))"
proof -
  have d: "distinct m" using assms(1) by (simp add: distinct_map)
  have "length (filter P m) = card {e \<in> set m. P e}" for P
    using d by (metis distinct_card distinct_filter set_filter)
  then have "(if n > 0 then 1 + length (filter (\<lambda>(addr, k). k > n) m)
      else 1 + length (filter (\<lambda>(addr, k). k > 0 \<or> addr > a) m)) = 1 + lower_count m (a, n)"
    by (auto simp: lower_count_def lower_def case_prod_beta)
  then show ?thesis using assms(2) unfolding CalcDifficulty_def fold_count by (simp add: Let_def)
qed

lemma lower_count_less: "e \<in> set m \<Longrightarrow> lower_count m e < card (set m)"
proof -
  assume e: "e \<in> set m"
  have "{x \<in> set m. lower x e} \<subset> set m" using e lower_irrefl [of e] by blast
  then show ?thesis unfolding lower_count_def by (rule psubset_card_mono [OF finite_set])
qed

lemma lower_count_mono: "lower e f \<Longrightarrow> e \<in> set m \<Longrightarrow> lower_count m e < lower_count m f"
proof -
  assume a: "lower e f" "e \<in> set m"
  have "{x \<in> set m. lower x e} \<subset> {x \<in> set m. lower x f}"
    using a lower_irrefl [of e] lower_trans [OF _ a(1)] by blast
  then show ?thesis unfolding lower_count_def by (intro psubset_card_mono) auto
qed

lemma lower_count_bij:
  assumes "signed_distinct m" "map_ok m"
  shows "bij_betw (lower_count m) (set m) {..<length m}"
proof -
  have card: "card (set m) = length m" using assms(2) by (simp add: distinct_card distinct_map)
  have inj: "inj_on (lower_count m) (set m)"
  proof (rule inj_onI, rule ccontr)
    fix e f assume ef: "e \<in> set m" "f \<in> set m" "lower_count m e = lower_count m f" "e \<noteq> f"
    from lower_total [OF assms ef(1,2,4)] lower_count_mono [of e f m] lower_count_mono [of f e m] ef(1-3)
    show False by auto
  qed
  moreover have "lower_count m ` set m \<subseteq> {..<length m}"
    unfolding card [symmetric] using lower_count_less by blast
  then have "lower_count m ` set m = {..<length m}"
    using inj card by (intro card_subset_eq) (auto simp: card_image)
  ultimately show ?thesis by (simp add: bij_betw_def)
qed

lemma unat_CalcDifficulty:
  assumes "map_ok m" "(a, n) \<in> set m" "length m < 2 ^ 64"
  shows "unat (CalcDifficulty m a) =
    (if 1 + lower_count m (a, n) \<le> length m div 2 then 0 else 1 + lower_count m (a, n))"
proof -
  have get: "map_of m a = Some n" using assms(1,2) by simp
  have "lower_count m (a, n) < length m"
    using lower_count_less [OF assms(2)] assms(1) by (simp add: distinct_card distinct_map)
  then have "1 + lower_count m (a, n) < 2 ^ 64" using assms(3) by linarith
  then have "unat (word_of_nat (1 + lower_count m (a, n)) :: uint64) = 1 + lower_count m (a, n)"
    by (rule unat_word_of_nat_64)
  then show ?thesis by (simp only: CalcDifficulty_eq [OF assms(1) get] if_distrib [of unat] unsigned_0)
qed

lemma CalcDifficulty_range:
  assumes "map_ok m" "a \<in> dom (map_of m)" "length m < 2 ^ 64" "CalcDifficulty m a \<noteq> 0"
  shows "length m div 2 + 1 \<le> unat (CalcDifficulty m a)" "unat (CalcDifficulty m a) \<le> length m"
proof -
  obtain n where n: "(a, n) \<in> set m" using assms(2) map_of_SomeD by fast
  have "lower_count m (a, n) < length m"
    using lower_count_less [OF n] assms(1) by (simp add: distinct_card distinct_map)
  moreover have "unat (CalcDifficulty m a) \<noteq> 0" using assms(4) by (simp add: unat_eq_0)
  ultimately show "length m div 2 + 1 \<le> unat (CalcDifficulty m a)" "unat (CalcDifficulty m a) \<le> length m"
    using unat_CalcDifficulty [OF assms(1) n assms(3)] by (auto split: if_splits)
qed

lemma CalcDifficulty_bij:
  assumes "map_ok m" "signed_distinct m" "length m < 2 ^ 64"
  shows "bij_betw (\<lambda>a. unat (CalcDifficulty m a)) {a \<in> dom (map_of m). CalcDifficulty m a \<noteq> 0}
    {length m div 2 + 1..length m}"
proof (rule bij_betw_imageI)
  note bij = lower_count_bij [OF assms(2,1)]
  let ?S = "{a \<in> dom (map_of m). CalcDifficulty m a \<noteq> 0}"
  have get: "\<exists>n. (a, n) \<in> set m" if "a \<in> dom (map_of m)" for a using that map_of_SomeD by fast
  note d = unat_CalcDifficulty [OF assms(1) _ assms(3)]
  have nz: "unat (CalcDifficulty m a) \<noteq> 0" if "a \<in> ?S" for a using that by (simp add: unat_eq_0)
  show "inj_on (\<lambda>a. unat (CalcDifficulty m a)) ?S"
  proof (rule inj_onI)
    fix a b assume a: "a \<in> ?S" and b: "b \<in> ?S" and eq: "unat (CalcDifficulty m a) = unat (CalcDifficulty m b)"
    obtain x y where xy: "(a, x) \<in> set m" "(b, y) \<in> set m" using get a b by blast
    have "lower_count m (a, x) = lower_count m (b, y)"
      using d [OF xy(1)] d [OF xy(2)] nz [OF a] nz [OF b] eq by (auto split: if_splits)
    then have "(a, x) = (b, y)" using bij xy by (metis bij_betw_def inj_onD)
    then show "a = b" by simp
  qed
  show "(\<lambda>a. unat (CalcDifficulty m a)) ` ?S = {length m div 2 + 1..length m}"
  proof (intro equalityI subsetI)
    fix k assume "k \<in> (\<lambda>a. unat (CalcDifficulty m a)) ` ?S"
    then show "k \<in> {length m div 2 + 1..length m}"
      using CalcDifficulty_range [OF assms(1) _ assms(3)] by auto
  next
    fix k assume k: "k \<in> {length m div 2 + 1..length m}"
    then have "k - 1 \<in> lower_count m ` set m" using bij by (auto simp: bij_betw_def)
    then obtain a n where an: "(a, n) \<in> set m" "lower_count m (a, n) = k - 1" by auto
    have "unat (CalcDifficulty m a) = k" using d [OF an(1)] an(2) k by auto
    moreover have "a \<in> ?S" using an(1) assms(1) calculation k by (auto simp: dom_def)
    ultimately show "k \<in> (\<lambda>a. unat (CalcDifficulty m a)) ` ?S" by blast
  qed
qed

section \<open>The tally invariant\<close>

declare map_of_eq_Some_iff [simp del] Some_eq_map_of_iff [simp del]

definition vote_key :: "Vote \<Rightarrow> address \<times> address" where
  "vote_key v = (v_Signer v, v_Address v)"

definition votes_on :: "Snapshot \<Rightarrow> address \<Rightarrow> nat" where
  "votes_on s a = length (filter (\<lambda>v. v_Address v = a) (Votes s))"

definition tally_votes :: "Snapshot \<Rightarrow> address \<Rightarrow> int" where
  "tally_votes s a = (case map_get (s_Tally s) a of None \<Rightarrow> 0 | Some t \<Rightarrow> t_Votes t)"

text \<open>
  A voter has at most one vote on an address, every tally is positive, and it counts at least the
  votes listed.
\<close>

definition tally_inv :: "Snapshot \<Rightarrow> bool" where
  "tally_inv s \<longleftrightarrow> map_ok (s_Tally s) \<and> distinct (map vote_key (Votes s)) \<and>
    (\<forall>a. int (votes_on s a) \<le> tally_votes s a) \<and>
    (\<forall>a t. map_get (s_Tally s) a = Some t \<longrightarrow> 1 \<le> t_Votes t)"

lemma tally_votes_nonneg: "tally_inv s \<Longrightarrow> 0 \<le> tally_votes s a"
  by (metis of_nat_0_le_iff order_trans tally_inv_def)

lemma set_remove_at: "set (remove_at i xs) \<subseteq> set xs"
  by (auto simp: remove_at_def dest: in_set_takeD in_set_dropD)

lemma remove_at_split: "i < length xs \<Longrightarrow> xs = take i xs @ xs ! i # drop (i + 1) xs"
  by (simp add: id_take_nth_drop)

lemma distinct_remove_at: "distinct (map f xs) \<Longrightarrow> distinct (map f (remove_at i xs))"
proof (cases "i < length xs")
  case True
  assume "distinct (map f xs)"
  then have "distinct (map f (take i xs @ xs ! i # drop (i + 1) xs))"
    using remove_at_split [OF True] by simp
  then show ?thesis by (simp add: remove_at_def)
qed (simp add: remove_at_def)

lemma filter_remove_at:
  assumes "i < length xs"
  shows "length (filter P xs) = length (filter P (remove_at i xs)) + (if P (xs ! i) then 1 else 0)"
proof -
  have "length (filter P xs) = length (filter P (take i xs @ xs ! i # drop (i + 1) xs))"
    using remove_at_split [OF assms] by simp
  then show ?thesis by (simp add: remove_at_def)
qed

text \<open>Uncasting a listed vote and removing it from the list.\<close>

lemma tally_votes_uncast:
  assumes "tally_inv s"
  shows "tally_votes (snd (uncast s a b)) x \<ge> tally_votes s x - (if x = a then 1 else 0)"
    and "x \<noteq> a \<Longrightarrow> tally_votes (snd (uncast s a b)) x = tally_votes s x"
proof -
  have "tally_votes (snd (uncast s a b)) x \<ge> tally_votes s x - (if x = a then 1 else 0) \<and>
    (x \<noteq> a \<longrightarrow> tally_votes (snd (uncast s a b)) x = tally_votes s x)"
  proof (cases "map_get (s_Tally s) a")
    case (Some t)
    then show ?thesis by (simp add: uncast_def tally_votes_def update_conv' delete_conv')
  qed (simp add: uncast_def)
  then show "tally_votes (snd (uncast s a b)) x \<ge> tally_votes s x - (if x = a then 1 else 0)"
    "x \<noteq> a \<Longrightarrow> tally_votes (snd (uncast s a b)) x = tally_votes s x" by blast+
qed

lemma tally_inv_remove:
  assumes inv: "tally_inv s" and i: "i < length (Votes s)" and v: "v = Votes s ! i"
  defines "s1 \<equiv> snd (uncast s (v_Address v) (v_Authorize v))"
  shows "tally_inv (s1\<lparr> Votes := remove_at i (Votes s1) \<rparr>)"
proof -
  have votes: "Votes s1 = Votes s" by (simp add: s1_def)
  have ok: "map_ok (s_Tally s1)" using inv
    by (auto simp: s1_def uncast_def tally_inv_def distinct_update distinct_delete split: option.splits)
  have pos: "\<forall>a t. map_get (s_Tally s1) a = Some t \<longrightarrow> 1 \<le> t_Votes t" using inv
    by (auto simp: s1_def uncast_def tally_inv_def update_conv' delete_conv' split: option.splits if_splits)
  have "int (votes_on (s1\<lparr> Votes := remove_at i (Votes s1) \<rparr>) a) \<le> tally_votes s1 a" for a
  proof -
    have "int (votes_on s a) \<le> tally_votes s a" using inv by (simp add: tally_inv_def)
    then show ?thesis
      using tally_votes_uncast [OF inv, where a = "v_Address v" and b = "v_Authorize v" and x = a] tally_votes_nonneg [OF inv, of a]
        filter_remove_at [OF i, of "\<lambda>x. v_Address x = a"]
      by (cases "v_Address v = a") (simp_all add: votes_on_def s1_def v)
  qed
  then show ?thesis using ok pos inv distinct_remove_at [of vote_key "Votes s" i]
    by (simp add: tally_inv_def votes tally_votes_def)
qed

lemma discard_previous_inv:
  assumes "tally_inv s" "i + length vs = length (Votes s)" "vs = drop i (Votes s)"
    "\<forall>v \<in> set (take i (Votes s)). vote_key v \<noteq> (signer, candidate)"
  shows "tally_inv (discard_previous signer candidate i vs s) \<and>
    set (Votes (discard_previous signer candidate i vs s)) \<subseteq> set (Votes s) \<and>
    (\<forall>v \<in> set (Votes (discard_previous signer candidate i vs s)). vote_key v \<noteq> (signer, candidate))"
  using assms
proof (induction signer candidate i vs s rule: discard_previous.induct)
  case (1 signer candidate i s)
  then show ?case by simp
next
  case (2 signer candidate i v vs s)
  have i: "i < length (Votes s)" using "2.prems"(2) by simp
  have v: "v = Votes s ! i" and vs: "vs = drop (i + 1) (Votes s)"
    using "2.prems"(3) Cons_nth_drop_Suc [OF i] by (metis Suc_eq_plus1 list.inject)+
  show ?case
  proof (cases "v_Signer v = signer \<and> v_Address v = candidate")
    case True
    let ?s1 = "snd (uncast s (v_Address v) (v_Authorize v))"
    have key: "vote_key v = (signer, candidate)" using True by (simp add: vote_key_def)
    have d: "distinct (map vote_key (take i (Votes s) @ v # drop (i + 1) (Votes s)))"
      using "2.prems"(1) remove_at_split [OF i] v by (simp add: tally_inv_def)
    have "vote_key x \<noteq> (signer, candidate)" if "x \<in> set (drop (i + 1) (Votes s))" for x
      using d key that by (metis distinct.simps(2) distinct_append image_eqI list.set_map list.simps(9) map_append)
    then have "\<forall>x \<in> set (remove_at i (Votes s)). vote_key x \<noteq> (signer, candidate)"
      using "2.prems"(4) unfolding remove_at_def by auto
    then show ?thesis using True tally_inv_remove [OF "2.prems"(1) i v] set_remove_at [of i "Votes s"]
      by (simp add: Let_def)
  next
    case False
    then have "\<forall>x \<in> set (take (i + 1) (Votes s)). vote_key x \<noteq> (signer, candidate)"
      using "2.prems"(4) i v by (auto simp: take_Suc_conv_app_nth vote_key_def)
    moreover have "discard_previous signer candidate i (v # vs) s = discard_previous signer candidate (i + 1) vs s"
      using False by auto
    ultimately show ?thesis using "2.IH" [OF False "2.prems"(1) _ vs] "2.prems"(2) by simp
  qed
qed

lemma discard_votes_of_inv: "tally_inv s \<Longrightarrow> tally_inv (discard_votes_of candidate i s)"
proof (induction candidate i s rule: discard_votes_of.induct)
  case (1 candidate i s)
  show ?case
  proof (cases "i < length (Votes s)")
    case True
    then show ?thesis using 1(1) [OF True _ refl] 1(2) [OF True] 1(3) tally_inv_remove [OF 1(3) True refl]
      by (subst discard_votes_of.simps) (auto simp: Let_def)
  next
    case False
    then show ?thesis using 1(3) by (subst discard_votes_of.simps) simp
  qed
qed

section \<open>The snapshot invariant\<close>

text \<open>
  The maps have distinct keys, no two signers share the number of a signed block and none is above
  \<open>number\<close>, every listed vote is by a current voter, and the tally invariant holds.
\<close>

definition snap_inv :: "uint64 \<Rightarrow> Snapshot \<Rightarrow> bool" where
  "snap_inv number s \<longleftrightarrow> map_ok (Signers s) \<and> map_ok (Voters s) \<and> signed_distinct (Signers s) \<and>
    (\<forall>e \<in> set (Signers s). snd e \<le> number) \<and>
    (\<forall>v \<in> set (Votes s). map_has (Voters s) (v_Signer v)) \<and> tally_inv s"

lemma set_map_put: "set (map_put k v m) \<subseteq> insert (k, v) (set m)"
  by (induction m) auto

lemma set_map_del: "set (map_del k m) \<subseteq> set m"
  by (auto simp: AList.delete_eq)

lemma map_ok_put: "map_ok m \<Longrightarrow> map_ok (map_put k v m)"
  by (rule distinct_update)

lemma map_ok_del: "map_ok m \<Longrightarrow> map_ok (map_del k m)"
  by (rule distinct_delete)

lemma signed_distinct_subset: "signed_distinct m \<Longrightarrow> set m' \<subseteq> set m \<Longrightarrow> signed_distinct m'"
  unfolding signed_distinct_def by blast

lemma signed_distinct_insert:
  assumes "signed_distinct m" "set m' \<subseteq> insert (k, n) (set m)" "n = 0 \<or> (\<forall>e \<in> set m. snd e < n)"
  shows "signed_distinct m'"
  unfolding signed_distinct_def
proof (intro ballI impI)
  fix e f assume e: "e \<in> set m'" and f: "f \<in> set m'" and eq: "0 < snd e \<and> snd e = snd f"
  have "e = (k, n) \<or> e \<in> set m" "f = (k, n) \<or> f \<in> set m" using e f assms(2) by auto
  moreover have "e \<in> set m \<Longrightarrow> f \<in> set m \<Longrightarrow> fst e = fst f"
    using assms(1) eq unfolding signed_distinct_def by blast
  moreover have "x \<in> set m \<Longrightarrow> snd x = n \<Longrightarrow> n = 0" for x using assms(3) by auto
  ultimately show "fst e = fst f" using eq by (metis fst_conv less_irrefl snd_conv)
qed

lemma signed_distinct_put_0: "signed_distinct m \<Longrightarrow> signed_distinct (map_put k 0 m)"
  using signed_distinct_insert [OF _ set_map_put] by blast

lemma signed_distinct_put_new:
  "signed_distinct m \<Longrightarrow> \<forall>e \<in> set m. snd e < n \<Longrightarrow> signed_distinct (map_put k n m)"
  using signed_distinct_insert [OF _ set_map_put] by blast

lemma signed_below_put: "\<forall>e \<in> set m. snd e \<le> n \<Longrightarrow> x \<le> n \<Longrightarrow> \<forall>e \<in> set (map_put k x m). snd e \<le> n"
  using set_map_put [of k x m] by (metis insert_iff snd_conv subset_iff)

lemmas map_ok_rules = map_ok_put map_ok_del signed_distinct_put_0 signed_below_put

text \<open>The discarding of votes on a candidate together with its tally.\<close>

lemma tally_inv_discard_on:
  assumes "tally_inv s"
  shows "tally_inv (s\<lparr> Votes := filter (\<lambda>v. v_Address v \<noteq> c) (Votes s), s_Tally := map_del c (s_Tally s) \<rparr>)"
proof -
  let ?s = "s\<lparr> Votes := filter (\<lambda>v. v_Address v \<noteq> c) (Votes s), s_Tally := map_del c (s_Tally s) \<rparr>"
  have on: "votes_on ?s a = (if a = c then 0 else votes_on s a)" for a
    by (auto simp: votes_on_def filter_empty_conv intro!: arg_cong [where f = length] filter_cong)
  have tv: "tally_votes ?s a = (if a = c then 0 else tally_votes s a)" for a
    by (simp add: tally_votes_def delete_conv')
  have "int (votes_on ?s a) \<le> tally_votes ?s a" for a
    unfolding on tv using assms by (simp add: tally_inv_def)
  then show ?thesis using assms
    by (simp add: tally_inv_def distinct_delete distinct_map_filter delete_conv' del: delete_conv)
qed

lemma tally_inv_cong:
  "Votes s = Votes s' \<Longrightarrow> s_Tally s = s_Tally s' \<Longrightarrow> tally_inv s = tally_inv s'"
  by (simp add: tally_inv_def votes_on_def tally_votes_def)

lemma snap_inv_finish:
  assumes "snap_inv number s"
  shows "snap_inv number ((discard_votes_on c 0 s)\<lparr> s_Tally := map_del c (s_Tally (discard_votes_on c 0 s)) \<rparr>)"
  using assms tally_inv_discard_on [of s c] by (auto simp: snap_inv_def discard_votes_on_eq)

lemma snap_inv_drop_voter:
  assumes "snap_inv number s"
  shows "snap_inv number (discard_votes_of c 0 (s\<lparr> Voters := map_del c (Voters s) \<rparr>))"
proof -
  have "tally_inv (discard_votes_of c 0 (s\<lparr> Voters := map_del c (Voters s) \<rparr>))"
    using assms tally_inv_cong [of s "s\<lparr> Voters := map_del c (Voters s) \<rparr>"]
    by (intro discard_votes_of_inv) (simp add: snap_inv_def)
  moreover have "map_has (map_del c (Voters s)) (v_Signer v)" if "v \<in> set (Votes s)" "v_Signer v \<noteq> c" for v
    using assms that by (auto simp: snap_inv_def delete_conv')
  ultimately show ?thesis using assms
    by (auto simp: snap_inv_def discard_votes_of_Votes map_ok_del)
qed

lemma snap_inv_update:
  assumes "snap_inv number s"
  shows "snap_inv number (s\<lparr> Signers := map_put c 0 (Signers s) \<rparr>)"
    "snap_inv number (s\<lparr> Voters := map_put c () (Voters s) \<rparr>)"
    "snap_inv number (s\<lparr> Signers := map_del c (Signers s) \<rparr>)"
proof -
  have [simp]: "tally_inv (s\<lparr> Signers := a \<rparr>)" "tally_inv (s\<lparr> Voters := b \<rparr>)" for a b
    using assms tally_inv_cong [of s "s\<lparr> Signers := a \<rparr>"] tally_inv_cong [of s "s\<lparr> Voters := b \<rparr>"]
    by (simp_all add: snap_inv_def)
  show "snap_inv number (s\<lparr> Signers := map_put c 0 (Signers s) \<rparr>)"
    using assms signed_below_put [of "Signers s" number 0 c]
    unfolding snap_inv_def by (simp add: map_ok_rules)
  show "snap_inv number (s\<lparr> Voters := map_put c () (Voters s) \<rparr>)"
    using assms unfolding snap_inv_def by (simp add: map_ok_rules update_conv')
  show "snap_inv number (s\<lparr> Signers := map_del c (Signers s) \<rparr>)"
    using assms set_map_del [of c "Signers s"] signed_distinct_subset [OF _ set_map_del]
    unfolding snap_inv_def by (auto simp: map_ok_rules)
qed

lemma pass_vote_inv:
  assumes "snap_inv number s"
  shows "snap_inv number (pass_vote c s)"
  unfolding pass_vote_def Let_def
  using assms snap_inv_update [OF assms, of c] snap_inv_drop_voter [OF assms, of c]
  by (simp add: snap_inv_finish)

lemma cast_inv:
  assumes inv: "snap_inv number s" and voter: "map_has (Voters s) signer"
    and fresh: "\<forall>v \<in> set (Votes s). vote_key v \<noteq> (signer, c)"
    and cast: "cast s c auth election = (True, s')"
  shows "snap_inv number (s'\<lparr> Votes := Votes s' @ [\<lparr> v_Signer = signer, v_Block = n, v_Address = c, v_Authorize = auth \<rparr>] \<rparr>)"
    (is "snap_inv number ?s")
proof -
  define t where "t = (case map_get (s_Tally s) c of None \<Rightarrow> \<lparr> t_Authorize = auth, t_Votes = 1 \<rparr>
      | Some old \<Rightarrow> old\<lparr> t_Votes := t_Votes old + 1 \<rparr>)"
  have s': "s' = s\<lparr> s_Tally := map_put c t (s_Tally s) \<rparr>"
    using cast by (auto simp: cast_def t_def split: if_splits option.splits)
  have tinv: "tally_inv s" using inv by (simp add: snap_inv_def)
  have t: "t_Votes t = tally_votes s c + 1" by (simp add: t_def tally_votes_def split: option.split)
  have tv: "tally_votes ?s a = (if a = c then tally_votes s c + 1 else tally_votes s a)" for a
    using t by (simp add: s' tally_votes_def update_conv')
  have on: "votes_on ?s a = (if a = c then votes_on s c + 1 else votes_on s a)" for a
    by (simp add: s' votes_on_def)
  have "int (votes_on ?s a) \<le> tally_votes ?s a" for a
    unfolding tv on using tinv by (simp add: tally_inv_def)
  moreover have "distinct (map vote_key (Votes ?s))"
    using tinv fresh by (auto simp: s' tally_inv_def vote_key_def)
  moreover have "1 \<le> t_Votes x" if "map_get (s_Tally ?s) a = Some x" for a x
    using that t tally_votes_nonneg [OF tinv, of c] tinv
    by (auto simp: s' update_conv' tally_inv_def split: if_splits)
  ultimately have "tally_inv ?s" using tinv by (simp add: tally_inv_def s' map_ok_put)
  then show ?thesis using inv voter by (auto simp: snap_inv_def s')
qed

lemma cast_False: "cast s c auth election = (False, s') \<Longrightarrow> s' = s"
  by (auto simp: cast_def split: if_splits option.splits)

lemma discard_previous_snap_inv:
  assumes "snap_inv number s"
  shows "snap_inv number (discard_previous signer c 0 (Votes s) s)"
    "\<forall>v \<in> set (Votes (discard_previous signer c 0 (Votes s) s)). vote_key v \<noteq> (signer, c)"
  using assms discard_previous_inv [of s 0 "Votes s" signer c] by (auto simp: snap_inv_def)

lemma apply_vote_inv:
  assumes inv: "snap_inv number s" and voter: "map_has (Voters s) signer"
    and res: "apply_vote signer n header s = Inr s'"
  shows "snap_inv number s'"
proof -
  obtain c e where ce: "(if ExtraHasVote (Extra header)
      then (ExtraCandidate (Extra header), ExtraIsVoterElection (Extra header)) else (0, False)) = (c, e)"
    by fastforce
  let ?s1 = "discard_previous signer c 0 (Votes s) s" and ?auth = "h_Nonce header = nonceAuthVote"
  note s1 = discard_previous_snap_inv [OF inv, of signer c]
  obtain ok s2 where cast: "cast ?s1 c ?auth e = (ok, s2)" by fastforce
  show ?thesis
  proof (cases ok)
    case True
    let ?v = "\<lparr> v_Signer = signer, v_Block = n, v_Address = c, v_Authorize = ?auth \<rparr>"
    have "s' = pass_vote c (s2\<lparr> Votes := Votes s2 @ [?v] \<rparr>)"
      using res cast True by (simp add: apply_vote_def ce Let_def split: if_splits)
    moreover have "snap_inv number (s2\<lparr> Votes := Votes s2 @ [?v] \<rparr>)"
      using s1 voter cast True by (intro cast_inv [where s = ?s1]) auto
    ultimately show ?thesis by (simp add: pass_vote_inv)
  next
    case False
    then have "s' = pass_vote c s2"
      using res cast by (simp add: apply_vote_def ce Let_def split: if_splits)
    moreover have "s2 = ?s1" using cast False by (simp add: cast_False)
    ultimately show ?thesis using s1(1) by (simp add: pass_vote_inv)
  qed
qed

lemma apply_signed_inv:
  assumes inv: "snap_inv n0 s" and n: "n0 < number" and res: "apply_signed number signer header s = Inr s'"
  shows "snap_inv number s'"
proof -
  let ?s1 = "s\<lparr> Signers := map_put signer number (Signers s) \<rparr>"
  have lt: "\<forall>e \<in> set (Signers s). snd e < number" using inv n by (auto simp: snap_inv_def)
  have "tally_inv ?s1" using inv tally_inv_cong [of s ?s1] by (simp add: snap_inv_def)
  moreover have "\<forall>e \<in> set (map_put signer number (Signers s)). snd e \<le> number"
    using lt by (intro signed_below_put) auto
  ultimately have "snap_inv number ?s1"
    using inv lt by (simp add: snap_inv_def map_ok_put signed_distinct_put_new)
  then show ?thesis using res apply_vote_inv [of number ?s1 signer]
    by (auto simp: apply_signed_def Let_def split: option.splits if_splits)
qed

lemma snap_inv_epoch: "snap_inv n s \<Longrightarrow> snap_inv n (s\<lparr> Votes := [], s_Tally := [] \<rparr>)"
  by (simp add: snap_inv_def tally_inv_def votes_on_def tally_votes_def)

lemma apply_header_inv:
  assumes "snap_inv n0 s" "NumberU64 header = Some number" "n0 < number"
    "apply_header ops epoch header s c = (Inr s', c')"
  shows "snap_inv number s'"
proof -
  obtain signer where "apply_signed number signer header
      (if number mod epoch = 0 then s\<lparr> Votes := [], s_Tally := [] \<rparr> else s) = Inr s'"
    using assms(2,4) by (auto simp: apply_header_def Let_def split: if_splits prod.splits sum.splits)
  then show ?thesis
    using assms(1) snap_inv_epoch [OF assms(1)] by (intro apply_signed_inv [OF _ assms(3)]) simp_all
qed

fun chain_from :: "uint64 \<Rightarrow> Header list \<Rightarrow> bool" where
  "chain_from n [] = True"
| "chain_from n (h # hs) = (NumberU64 h = Some (n + 1) \<and> chain_from (n + 1) hs)"

lemma check_chain_from: "check_chain (h # hs) = None \<Longrightarrow> NumberU64 h = Some (n + 1) \<Longrightarrow> chain_from n (h # hs)"
proof (induction hs arbitrary: h n)
  case (Cons h' hs)
  then have "check_chain (h' # hs) = None" "NumberU64 h' = Some (n + 1 + 1)"
    by (auto split: option.splits if_splits)
  from Cons.IH [OF this] show ?case using Cons.prems(2) by simp
qed simp

lemma unat_Suc_uint64: "unat (n :: uint64) + 1 < 2 ^ 64 \<Longrightarrow> unat (n + 1) = unat n + 1"
  by (simp add: unat_add_uint64)

lemma apply_headers_inv:
  assumes "snap_inv n s" "chain_from n hs" "unat n + length hs < 2 ^ 64"
    "apply_headers ops epoch hs s c = (Inr s', c')"
  shows "snap_inv (n + word_of_nat (length hs)) s'"
  using assms
proof (induction hs arbitrary: n s c)
  case (Cons h hs)
  obtain s1 c1 where s1: "apply_header ops epoch h s c = (Inr s1, c1)"
    and rest: "apply_headers ops epoch hs s1 c1 = (Inr s', c')"
    using Cons.prems(4) by (auto split: prod.splits sum.splits)
  have n: "unat (n + 1) = unat n + 1" using Cons.prems(3) by (intro unat_Suc_uint64) simp
  then have "n < n + 1" by (simp add: word_less_nat_alt)
  then have "snap_inv (n + 1) s1" using apply_header_inv [OF Cons.prems(1) _ _ s1] Cons.prems(2) by simp
  then have "snap_inv (n + 1 + word_of_nat (length hs)) s'"
    using Cons.prems(2,3) n by (intro Cons.IH [OF _ _ _ rest]) simp_all
  moreover have "n + 1 + word_of_nat (length hs) = n + word_of_nat (length (h # hs))" by simp
  ultimately show ?case by (simp only:)
qed simp

lemma snap_copy_id: "snap_inv n s \<Longrightarrow> snap_copy s = s"
  by (simp add: snap_copy_def snap_inv_def tally_inv_def)

lemma pass_vote_Number [simp]: "s_Number (pass_vote c s) = s_Number s"
  by (simp add: pass_vote_def Let_def discard_votes_on_eq)

lemma cast_fields [simp]:
  "s_Number (snd (cast s c a e)) = s_Number s" "Signers (snd (cast s c a e)) = Signers s"
  "Voters (snd (cast s c a e)) = Voters s"
  by (simp_all add: cast_def split: option.split)

lemma apply_vote_Number: "apply_vote signer n h s = Inr s' \<Longrightarrow> s_Number s' = s_Number s"
  using cast_fields(1)
  by (fastforce simp: apply_vote_def Let_def case_prod_beta split: if_splits bool.splits)

lemma apply_header_Number: "apply_header ops epoch h s c = (Inr s', c') \<Longrightarrow> s_Number s' = s_Number s"
  by (auto simp: apply_header_def apply_signed_def Let_def dest!: apply_vote_Number
      split: option.splits if_splits prod.splits sum.splits)

lemma apply_headers_Number: "apply_headers ops epoch hs s c = (Inr s', c') \<Longrightarrow> s_Number s' = s_Number s"
  by (induction hs arbitrary: s c) (auto dest: apply_header_Number split: prod.splits sum.splits)

lemma snap_apply_inv:
  assumes inv: "snap_inv (s_Number s) s" and len: "unat (s_Number s) + length hs < 2 ^ 64"
    and res: "snap_apply ops epoch s hs c = (Inr s', c')"
  shows "snap_inv (s_Number s') s' \<and> unat (s_Number s') = unat (s_Number s) + length hs"
proof (cases "hs = []")
  case True
  then show ?thesis using assms by (simp add: snap_apply_def)
next
  case False
  let ?n = "s_Number s"
  obtain s1 where ch: "check_chain hs = None" "NumberU64 (hd hs) = Some (?n + 1)"
    and s1: "apply_headers ops epoch hs s c = (Inr s1, c')"
    and s': "s' = s1\<lparr> s_Number := s_Number s1 + word_of_nat (length hs),
       s_Hash := Header_Hash (op_keccak ops) (last hs) \<rparr>"
    using res False snap_copy_id [OF inv]
    by (auto simp: snap_apply_def split: option.splits if_splits prod.splits sum.splits)
  have "chain_from ?n hs" using ch False check_chain_from [of "hd hs" "tl hs" ?n] by simp
  then have inv1: "snap_inv (?n + word_of_nat (length hs)) s1" using apply_headers_inv [OF inv _ len s1] by simp
  have n1: "s_Number s1 = ?n" using s1 by (rule apply_headers_Number)
  have l: "unat (word_of_nat (length hs) :: uint64) = length hs"
    using len by (intro unat_word_of_nat_64) simp
  then have "unat (s_Number s') = unat ?n + length hs"
    using len n1 unat_add_uint64 [of ?n "word_of_nat (length hs)"] by (simp add: s')
  moreover have "snap_inv (s_Number s') s'"
    using inv1 n1 tally_inv_cong [of s1 s'] by (simp add: snap_inv_def s')
  ultimately show ?thesis by simp
qed

lemma newGenesisSnapshot_inv: "snap_inv n (newGenesisSnapshot 0 h ss vs)"
proof -
  have ok: "map_ok (fold (\<lambda>a m. map_put a x m) as m)" if "map_ok m" for as x and m :: "('a, 'b) go_map"
    using that by (induction as arbitrary: m) (simp_all add: map_ok_put)
  have zero: "\<forall>e \<in> set (fold (\<lambda>a m. map_put a 0 m) as m). snd e = (0 :: uint64)"
    if "\<forall>e \<in> set m. snd e = 0" for as and m :: "(address, uint64) go_map"
    using that
  proof (induction as arbitrary: m)
    case (Cons a as)
    have "\<forall>e \<in> set (map_put a 0 m). snd e = 0" using Cons.prems set_map_put [of a 0 m] by auto
    then show ?case using Cons.IH by simp
  qed simp
  have "signed_distinct (fold (\<lambda>a m. map_put a 0 m) ss [])" using zero [of "[]" ss] by (simp add: signed_distinct_def)
  then show ?thesis using ok [of "[]" 0 ss] ok [of "[]" "()" vs] zero [of "[]" ss]
    by (simp add: snap_inv_def newGenesisSnapshot_def tally_inv_def votes_on_def tally_votes_def)
qed

section \<open>Difficulty and the recency rule\<close>

text \<open>The signers that signed after block \<open>l\<close> did so at different blocks up to \<open>n\<close>.\<close>

lemma card_signed_after:
  assumes "signed_distinct m" "\<forall>e \<in> set m. snd e \<le> n" "map_ok m"
  shows "card {e \<in> set m. snd e > l} \<le> unat n - unat l"
proof -
  let ?S = "{e \<in> set m. snd e > l}"
  have "inj_on (\<lambda>e. unat (snd e)) ?S"
  proof (rule inj_onI)
    fix e f assume e: "e \<in> ?S" and f: "f \<in> ?S" and eq: "unat (snd e) = unat (snd f)"
    have "0 \<le> l" by simp
    then have "0 < snd e" using e by (auto intro: le_less_trans)
    then have "fst e = fst f" using assms(1) e f eq by (auto simp: signed_distinct_def word_unat_eq_iff)
    then show "e = f" using eq by (simp add: prod_eq_iff word_unat_eq_iff)
  qed
  moreover have "(\<lambda>e. unat (snd e)) ` ?S \<subseteq> {unat l<..unat n}"
    using assms(2) by (auto simp: word_less_nat_alt word_le_nat_alt)
  ultimately have "card ?S \<le> card {unat l<..unat n}" by (intro card_inj_on_le) auto
  then show ?thesis by simp
qed

text \<open>A signer with a difficulty may sign the next block: the recency rule does not exclude it.\<close>

lemma eligible_not_recent:
  assumes inv: "snap_inv n s" and get: "map_get (Signers s) a = Some l"
    and elig: "CalcDifficulty (Signers s) a \<noteq> 0"
    and bound: "unat n + length (Signers s) + 1 < 2 ^ 64"
  shows "\<not> (l > 0 \<and> n + 1 < nextSignableBlockNumber s l)"
proof
  assume l: "l > 0 \<and> n + 1 < nextSignableBlockNumber s l"
  let ?m = "Signers s"
  have m: "map_ok ?m" "signed_distinct ?m" "\<forall>e \<in> set ?m. snd e \<le> n" using inv by (auto simp: snap_inv_def)
  have "lower_count ?m (a, l) = card {e \<in> set ?m. snd e > l}" using l by (simp add: lower_count_def lower_def)
  then have count: "lower_count ?m (a, l) \<le> unat n - unat l" using card_signed_after [OF m(2,3,1)] by simp
  have al: "(a, l) \<in> set ?m" using get by (rule map_of_SomeD)
  have "length ?m div 2 < 1 + lower_count ?m (a, l)"
    using elig CalcDifficulty_eq [OF m(1) get] by (auto split: if_splits)
  then have half: "length ?m div 2 \<le> unat n - unat l" using count by linarith
  have ln: "unat l \<le> unat n" using m(3) al by (auto simp: word_le_nat_alt)
  have len: "unat (word_of_nat (length ?m) :: uint64) = length ?m" using bound by (intro unat_word_of_nat_64) simp
  have d: "unat (word_of_nat (length ?m) div 2 :: uint64) = length ?m div 2" using len by (simp add: unat_div)
  have "unat (l + word_of_nat (length ?m) div 2) = unat l + length ?m div 2"
    using d half ln bound by (subst unat_add_uint64) simp_all
  then have "unat (nextSignableBlockNumber s l) = unat l + length ?m div 2 + 1"
    using half ln bound unfolding nextSignableBlockNumber_def Let_def by (subst unat_Suc_uint64) simp_all
  moreover have "unat (n + 1) = unat n + 1" using bound by (intro unat_Suc_uint64) simp
  moreover have "unat (n + 1) < unat (nextSignableBlockNumber s l)"
    using l by (simp only: word_less_nat_alt)
  ultimately show False using half ln by linarith
qed

lemma in_turn_signer_exists:
  assumes inv: "snap_inv n s" and ne: "Signers s \<noteq> []" and bound: "unat n + length (Signers s) + 1 < 2 ^ 64"
  shows "\<exists>a l. map_get (Signers s) a = Some l \<and> unat (CalcDifficulty (Signers s) a) = length (Signers s) \<and>
    \<not> (l > 0 \<and> n + 1 < nextSignableBlockNumber s l)"
proof -
  let ?m = "Signers s"
  have m: "map_ok ?m" "signed_distinct ?m" using inv by (auto simp: snap_inv_def)
  have len: "length ?m < 2 ^ 64" using bound by simp
  have "length ?m \<in> {length ?m div 2 + 1..length ?m}" using ne by (cases ?m) auto
  then have "length ?m \<in> (\<lambda>a. unat (CalcDifficulty ?m a)) ` {a \<in> dom (map_of ?m). CalcDifficulty ?m a \<noteq> 0}"
    using CalcDifficulty_bij [OF m len] by (simp add: bij_betw_def)
  then obtain a where "a \<in> {a \<in> dom (map_of ?m). CalcDifficulty ?m a \<noteq> 0}"
    "length ?m = unat (CalcDifficulty ?m a)" by (rule imageE)
  then have "a \<in> dom (map_of ?m)" "CalcDifficulty ?m a \<noteq> 0" "unat (CalcDifficulty ?m a) = length ?m"
    by simp_all
  then show ?thesis using eligible_not_recent [OF inv _ _ bound, of a] by blast
qed

end
