(* ===== verification/Clique_Engine.thy ===== *)
theory Clique_Engine
  imports Clique_Voting "HOL-Library.Sublist"
begin

text \<open>
  The proof-of-authority engine (\<open>consensus/clique/clique.go\<close>, \<open>api.go\<close>): retrieval of snapshots through
  the caches and the database, header verification, block preparation and sealing, and the RPC API.
  Every operation takes the engine and returns it updated.
\<close>

section \<open>The engine and what it uses\<close>

definition checkpointInterval :: uint64 where "checkpointInterval = 1024"

text \<open>\<open>wiggleTime\<close> in nanoseconds.\<close>

definition wiggleTime :: uint64 where "wiggleTime = 200000000"

text \<open>
  From other packages: the cache of recent snapshots of type \<open>'r\<close>, the database of type \<open>'d\<close>
  (\<open>GlobalTable().Get\<close> and \<open>Put\<close>, \<open>None\<close> for an error) and \<open>encoding/json\<close> on a snapshot.
\<close>

record ('c, 'r, 'd) engine_ops =
  e_sig :: "'c sig_ops"
  rec_Get :: "hash \<Rightarrow> 'r \<Rightarrow> Snapshot option \<times> 'r"
  rec_Add :: "hash \<Rightarrow> Snapshot \<Rightarrow> 'r \<Rightarrow> 'r"
  db_Get :: "bytes \<Rightarrow> 'd \<Rightarrow> bytes option"
  db_Put :: "bytes \<Rightarrow> bytes \<Rightarrow> 'd \<Rightarrow> 'd option"
  json_Marshal :: "Snapshot \<Rightarrow> bytes option"
  json_Unmarshal :: "bytes \<Rightarrow> Snapshot option"

text \<open>The interface \<open>consensus.ChainReader\<close>; \<open>None\<close> for a nil header.\<close>

record chain_reader =
  chain_Config :: ChainConfig
  CurrentHeader :: "Header option"
  GetHeader :: "hash \<Rightarrow> uint64 \<Rightarrow> Header option"
  GetHeaderByNumber :: "uint64 \<Rightarrow> Header option"
  GetHeaderByHash :: "hash \<Rightarrow> Header option"

record propose =
  p_Authorize :: bool
  p_VoterElection :: bool

text \<open>\<open>signFn\<close> is applied to the signer's account and the bytes to sign; the mime type is a constant.\<close>

record ('c, 'r, 'd) Clique =
  c_config :: CliqueConfig
  c_db :: 'd
  c_recents :: 'r
  c_signatures :: 'c
  c_proposals :: "(address, propose) go_map"
  c_signer :: address
  c_signFn :: "address \<Rightarrow> bytes \<Rightarrow> bytes option"

text \<open>\<open>New\<close> on fresh caches; before \<open>Authorize\<close> the sign function is nil, which fails when called.\<close>

definition New :: "CliqueConfig \<Rightarrow> 'd \<Rightarrow> 'r \<Rightarrow> 'c \<Rightarrow> ('c, 'r, 'd) Clique" where
  "New config db recents signatures =
    (let conf = (if Epoch config = 0 then config\<lparr> Epoch := DefaultCliqueEpoch \<rparr> else config) in
     \<lparr> c_config = conf, c_db = db, c_recents = recents, c_signatures = signatures,
       c_proposals = [], c_signer = 0, c_signFn = (\<lambda>_ _. None) \<rparr>)"

definition Authorize :: "address \<Rightarrow> (address \<Rightarrow> bytes \<Rightarrow> bytes option) \<Rightarrow> ('c, 'r, 'd) Clique \<Rightarrow> ('c, 'r, 'd) Clique" where
  "Authorize signer signFn c = c\<lparr> c_signer := signer, c_signFn := signFn \<rparr>"

definition Author :: "('c, 'r, 'd) engine_ops \<Rightarrow> Header \<Rightarrow> ('c, 'r, 'd) Clique \<Rightarrow> (clique_error + address) \<times> ('c, 'r, 'd) Clique" where
  "Author ops header c =
    (case ecrecover (e_sig ops) header (c_signatures c) of (r, sigs) \<Rightarrow> (r, c\<lparr> c_signatures := sigs \<rparr>))"

section \<open>Snapshots on disk\<close>

text \<open>The key \<open>"clique-"\<close> followed by the hash.\<close>

definition snapshot_key :: "hash \<Rightarrow> bytes" where
  "snapshot_key h = [0x63, 0x6c, 0x69, 0x71, 0x75, 0x65, 0x2d] @ Hash_Bytes h"

definition loadSnapshot :: "('c, 'r, 'd) engine_ops \<Rightarrow> 'd \<Rightarrow> hash \<Rightarrow> Snapshot option" where
  "loadSnapshot ops db hash =
    (case db_Get ops (snapshot_key hash) db of None \<Rightarrow> None | Some blob \<Rightarrow> json_Unmarshal ops blob)"

definition store :: "('c, 'r, 'd) engine_ops \<Rightarrow> Snapshot \<Rightarrow> 'd \<Rightarrow> 'd option" where
  "store ops s db =
    (case json_Marshal ops s of None \<Rightarrow> None | Some blob \<Rightarrow> db_Put ops (snapshot_key (s_Hash s)) blob db)"

section \<open>Retrieving a snapshot\<close>

text \<open>The header's hash under the engine's hash function.\<close>

abbreviation hdr_hash :: "('c, 'r, 'd) engine_ops \<Rightarrow> Header \<Rightarrow> hash" where
  "hdr_hash ops h \<equiv> Header_Hash (op_keccak (e_sig ops)) h"

text \<open>
  The next header going backward: the last explicit parent if there is one, which has to match, or
  the one in the chain; with it the parents that are left.
\<close>

definition next_header :: "('c, 'r, 'd) engine_ops \<Rightarrow> chain_reader \<Rightarrow> uint64 \<Rightarrow> hash \<Rightarrow> Header list \<Rightarrow>
    clique_error + (Header \<times> Header list)" where
  "next_header ops chain number hash parents =
    (if parents \<noteq> [] then
       (let header = last parents in
        if hdr_hash ops header \<noteq> hash then Inl ErrUnknownAncestor
        else case NumberU64 header of
          None \<Rightarrow> Inl (Panic NilDereference)
        | Some n \<Rightarrow> if n \<noteq> number then Inl ErrUnknownAncestor else Inr (header, butlast parents))
     else (case GetHeader chain hash number of
        None \<Rightarrow> Inl ErrUnknownAncestor
      | Some header \<Rightarrow> Inr (header, [])))"

text \<open>
  The loop of \<open>snapshot\<close> up to the genesis block: it ends with a snapshot and the headers gathered on
  the way (newest first), at block zero, or with an error.
\<close>

datatype gathered = Found Snapshot "Header list" | AtGenesis "Header list" | GatherError clique_error

function gather :: "('c, 'r, 'd) engine_ops \<Rightarrow> chain_reader \<Rightarrow> uint64 \<Rightarrow> hash \<Rightarrow> Header list \<Rightarrow> Header list \<Rightarrow>
    ('c, 'r, 'd) Clique \<Rightarrow> gathered \<times> ('c, 'r, 'd) Clique" where
  "gather ops chain number hash parents headers c =
    (case rec_Get ops hash (c_recents c) of
       (Some s, recents) \<Rightarrow> (Found s headers, c\<lparr> c_recents := recents \<rparr>)
     | (None, recents) \<Rightarrow>
         (let c1 = c\<lparr> c_recents := recents \<rparr> in
          case (if number mod checkpointInterval = 0 then loadSnapshot ops (c_db c1) hash else None) of
            Some s \<Rightarrow> (Found s headers, c1)
          | None \<Rightarrow>
              (if number = 0 then (AtGenesis headers, c1)
               else case next_header ops chain number hash parents of
                 Inl e \<Rightarrow> (GatherError e, c1)
               | Inr (header, parents1) \<Rightarrow>
                   gather ops chain (number - 1) (ParentHash header) parents1 (headers @ [header]) c1)))"
  by pat_completeness auto

lemma unat_pred_less: "(n :: uint64) \<noteq> 0 \<Longrightarrow> unat (n - 1) < unat n"
proof -
  assume "n \<noteq> 0"
  then have "0 < unat n" by (simp add: unat_gt_0)
  then have "1 \<le> n" by (simp add: word_le_nat_alt)
  then have "unat (n - 1) = unat n - 1" by (simp add: unat_sub)
  then show ?thesis using \<open>0 < unat n\<close> by simp
qed

termination gather
  by (relation "measure (\<lambda>(ops, chain, number, _). unat number)") (auto simp: unat_pred_less)

declare gather.simps [simp del]

text \<open>Applying the gathered headers, in ascending order, and saving the result.\<close>

definition finish_snapshot :: "('c, 'r, 'd) engine_ops \<Rightarrow> Snapshot \<Rightarrow> Header list \<Rightarrow> ('c, 'r, 'd) Clique \<Rightarrow>
    (clique_error + Snapshot) \<times> ('c, 'r, 'd) Clique" where
  "finish_snapshot ops snap headers c =
    (case snap_apply (e_sig ops) (Epoch (c_config c)) snap (rev headers) (c_signatures c) of
       (Inl e, sigs) \<Rightarrow> (Inl e, c\<lparr> c_signatures := sigs \<rparr>)
     | (Inr snap1, sigs) \<Rightarrow>
         (let c1 = c\<lparr> c_signatures := sigs, c_recents := rec_Add ops (s_Hash snap1) snap1 (c_recents c) \<rparr> in
          if s_Number snap1 mod checkpointInterval = 0 \<and> length headers > 0 then
            (case store ops snap1 (c_db c1) of
               None \<Rightarrow> (Inl ErrDatabase, c1)
             | Some db \<Rightarrow> (Inr snap1, c1\<lparr> c_db := db \<rparr>))
          else (Inr snap1, c1)))"

section \<open>Header verification\<close>

definition verifyForkHashes :: "('c, 'r, 'd) engine_ops \<Rightarrow> ChainConfig \<Rightarrow> Header \<Rightarrow> clique_error option" where
  "verifyForkHashes ops config header =
    (if EIP150Block config \<noteq> None \<and> EIP150Block config = h_Number header \<and>
        EIP150Hash config \<noteq> 0 \<and> EIP150Hash config \<noteq> hdr_hash ops header
     then Some (errForkHash (hdr_hash ops header) (EIP150Hash config)) else None)"

definition uncleHash :: "('c, 'r, 'd) engine_ops \<Rightarrow> hash" where
  "uncleHash ops = CalcUncleHash (op_keccak (e_sig ops)) []"

definition verifyHeader :: "('c, 'r, 'd) engine_ops \<Rightarrow> chain_reader \<Rightarrow> ('c, 'r, 'd) Clique \<Rightarrow> Header \<Rightarrow> clique_error option" where
  "verifyHeader ops chain c header =
    (case NumberU64 header of
       None \<Rightarrow> Some errUnknownBlock
     | Some number \<Rightarrow>
         if Epoch (c_config c) = 0 then Some (Panic DivideByZero)
         else
           (let checkpoint = (number mod Epoch (c_config c) = 0) in
            if checkpoint \<and> length (Extra header) > extraVanity then Some errInvalidVote
            else if h_Nonce header \<noteq> nonceAuthVote \<and> h_Nonce header \<noteq> nonceDropVote then Some errInvalidVote
            else if checkpoint \<and> h_Nonce header \<noteq> nonceDropVote then Some errInvalidCheckpointVote
            else if checkpoint \<and> length (h_Signers header) < 1 then Some errMissingSigners
            else if checkpoint \<and> length (h_Voters header) < 1 then Some errMissingVoters
            else if length (h_Signer header) < signatureLength then Some errMissingSignature
            else if MixDigest header \<noteq> 0 then Some errInvalidMixDigest
            else if UncleHash header \<noteq> uncleHash ops then Some errInvalidUncleHash
            else if number > 0 \<and> (case Difficulty header of None \<Rightarrow> True | Some d \<Rightarrow> big_Uint64 d = 0)
              then Some errInvalidDifficulty
            else verifyForkHashes ops (chain_Config chain) header))"

text \<open>A range loop over a computed list that compares it with a list of the header by index.\<close>

fun check_list :: "clique_error \<Rightarrow> address list \<Rightarrow> nat \<Rightarrow> address list \<Rightarrow> clique_error option" where
  "check_list err [] i hs = None"
| "check_list err (x # xs) i hs =
    (if i \<ge> length hs then Some (Panic IndexOutOfRange)
     else if x \<noteq> hs ! i then Some err else check_list err xs (i + 1) hs)"

text \<open>
  \<open>verifyCascadingFields\<close> and \<open>verifySeal\<close> call \<open>snapshot\<close>, which verifies the genesis header with them;
  the calls go through the argument \<open>snapf\<close>, and \<open>snapshot\<close> below closes the recursion.  \<open>now\<close> is the
  clock in seconds.
\<close>

type_synonym ('c, 'r, 'd) snapshot_fn =
  "uint64 \<Rightarrow> hash \<Rightarrow> Header list \<Rightarrow> ('c, 'r, 'd) Clique \<Rightarrow> (clique_error + Snapshot) \<times> ('c, 'r, 'd) Clique"

definition cascading_parent :: "chain_reader \<Rightarrow> Header \<Rightarrow> uint64 \<Rightarrow> Header list \<Rightarrow> Header option" where
  "cascading_parent chain header number parents =
    (if length parents > 0 then Some (last parents) else GetHeader chain (ParentHash header) (number - 1))"

definition verifyCascadingFields :: "('c, 'r, 'd) snapshot_fn \<Rightarrow> ('c, 'r, 'd) engine_ops \<Rightarrow> chain_reader \<Rightarrow> int \<Rightarrow>
    Header \<Rightarrow> Header list \<Rightarrow> ('c, 'r, 'd) Clique \<Rightarrow> clique_error option \<times> ('c, 'r, 'd) Clique" where
  "verifyCascadingFields snapf ops chain now header parents c =
    (case h_Time header of
       None \<Rightarrow> (Some (Panic NilDereference), c)
     | Some time \<Rightarrow>
       if time > now then (Some ErrFutureBlock, c)
       else case NumberU64 header of
         None \<Rightarrow> (Some (Panic NilDereference), c)
       | Some number \<Rightarrow>
         if number = 0 then (None, c)
         else (case cascading_parent chain header number parents of
             None \<Rightarrow> (Some ErrUnknownAncestor, c)
           | Some parent \<Rightarrow>
               (case NumberU64 parent of
                  None \<Rightarrow> (Some (Panic NilDereference), c)
                | Some pnumber \<Rightarrow>
                    if pnumber \<noteq> number - 1 \<or> hdr_hash ops parent \<noteq> ParentHash header then (Some ErrUnknownAncestor, c)
                    else (case h_Time parent of
                        None \<Rightarrow> (Some (Panic NilDereference), c)
                      | Some ptime \<Rightarrow>
                          if big_Uint64 ptime + Period (c_config c) > big_Uint64 time then (Some ErrInvalidTimestamp, c)
                          else (case snapf (number - 1) (ParentHash header) parents c of
                              (Inl e, c1) \<Rightarrow> (Some e, c1)
                            | (Inr snap, c1) \<Rightarrow>
                                if Epoch (c_config c1) = 0 then (Some (Panic DivideByZero), c1)
                                else if number mod Epoch (c_config c1) = 0 then
                                  (case check_list errInvalidCheckpointSigners (signers snap) 0 (h_Signers header) of
                                     Some e \<Rightarrow> (Some e, c1)
                                   | None \<Rightarrow>
                                       (check_list errInvalidCheckpointVoters (voters snap) 0 (h_Voters header), c1))
                                else (None, c1))))))"

definition verifySeal :: "('c, 'r, 'd) snapshot_fn \<Rightarrow> ('c, 'r, 'd) engine_ops \<Rightarrow> Header \<Rightarrow> Header list \<Rightarrow>
    ('c, 'r, 'd) Clique \<Rightarrow> clique_error option \<times> ('c, 'r, 'd) Clique" where
  "verifySeal snapf ops header parents c =
    (case NumberU64 header of
       None \<Rightarrow> (Some (Panic NilDereference), c)
     | Some number \<Rightarrow>
         if number = 0 then (None, c)
         else (case snapf (number - 1) (ParentHash header) parents c of
             (Inl e, c1) \<Rightarrow> (Some e, c1)
           | (Inr snap, c1) \<Rightarrow>
               (case Author ops header c1 of
                  (Inl e, c2) \<Rightarrow> (Some e, c2)
                | (Inr signer, c2) \<Rightarrow>
                    (case map_get (Signers snap) signer of
                       None \<Rightarrow> (Some (errUnauthorized signer), c2)
                     | Some lastBlockSigned \<Rightarrow>
                         (let next = nextSignableBlockNumber snap lastBlockSigned in
                          if lastBlockSigned > 0 \<and> number < next then
                            (Some (errSignedRecently signer number lastBlockSigned next), c2)
                          else (case Difficulty header of
                              None \<Rightarrow> (Some (Panic NilDereference), c2)
                            | Some d \<Rightarrow>
                                if big_Uint64 d \<noteq> CalcDifficulty (Signers snap) signer then (Some errInvalidDifficulty, c2)
                                else (None, c2)))))))"

text \<open>The three checks in order, as \<open>VerifyHeader\<close> and the batch loop run them.\<close>

definition verify_all :: "('c, 'r, 'd) snapshot_fn \<Rightarrow> ('c, 'r, 'd) engine_ops \<Rightarrow> chain_reader \<Rightarrow> int \<Rightarrow>
    Header \<Rightarrow> Header list \<Rightarrow> ('c, 'r, 'd) Clique \<Rightarrow> clique_error option \<times> ('c, 'r, 'd) Clique" where
  "verify_all snapf ops chain now header parents c =
    (case verifyHeader ops chain c header of
       Some e \<Rightarrow> (Some e, c)
     | None \<Rightarrow>
         (case verifyCascadingFields snapf ops chain now header parents c of
            (Some e, c1) \<Rightarrow> (Some e, c1)
          | (None, c1) \<Rightarrow> verifySeal snapf ops header parents c1))"

text \<open>\<open>snapshot\<close>; the fuel bounds the nesting of \<open>snapshot\<close> in the verification of the genesis header.\<close>

fun snapshot :: "nat \<Rightarrow> ('c, 'r, 'd) engine_ops \<Rightarrow> chain_reader \<Rightarrow> int \<Rightarrow> ('c, 'r, 'd) snapshot_fn" where
  "snapshot 0 ops chain now number hash parents c = (Inl OutOfFuel, c)"
| "snapshot (Suc fuel) ops chain now number hash parents c =
    (case gather ops chain number hash parents [] c of
       (GatherError e, c1) \<Rightarrow> (Inl e, c1)
     | (Found snap headers, c1) \<Rightarrow> finish_snapshot ops snap headers c1
     | (AtGenesis headers, c1) \<Rightarrow>
         (case GetHeaderByNumber chain 0 of
            None \<Rightarrow> (Inl errNoGenesis, c1)
          | Some genesis \<Rightarrow>
              (case verify_all (snapshot fuel ops chain now) ops chain now genesis [] c1 of
                 (Some e, c2) \<Rightarrow> (Inl e, c2)
               | (None, c2) \<Rightarrow>
                   (let snap = newGenesisSnapshot 0 (hdr_hash ops genesis) (h_Signers genesis) (h_Voters genesis) in
                    case store ops snap (c_db c2) of
                      None \<Rightarrow> (Inl ErrDatabase, c2)
                    | Some db \<Rightarrow> finish_snapshot ops snap headers (c2\<lparr> c_db := db \<rparr>)))))"

definition VerifyHeader :: "nat \<Rightarrow> ('c, 'r, 'd) engine_ops \<Rightarrow> chain_reader \<Rightarrow> int \<Rightarrow> Header \<Rightarrow>
    ('c, 'r, 'd) Clique \<Rightarrow> clique_error option \<times> ('c, 'r, 'd) Clique" where
  "VerifyHeader fuel ops chain now header c =
     verify_all (snapshot fuel ops chain now) ops chain now header [] c"

text \<open>
  The goroutine of \<open>verifyHeaders\<close> without an abort: the results it sends, in order; each header is
  verified with the headers before it as its parents.
\<close>

fun verifyHeaders :: "nat \<Rightarrow> ('c, 'r, 'd) engine_ops \<Rightarrow> chain_reader \<Rightarrow> int \<Rightarrow> Header list \<Rightarrow> Header list \<Rightarrow>
    ('c, 'r, 'd) Clique \<Rightarrow> clique_error option list \<times> ('c, 'r, 'd) Clique" where
  "verifyHeaders fuel ops chain now parents [] c = ([], c)"
| "verifyHeaders fuel ops chain now parents (header # headers) c =
    (case verify_all (snapshot fuel ops chain now) ops chain now header parents c of
       (res, c1) \<Rightarrow>
         (case verifyHeaders fuel ops chain now (parents @ [header]) headers c1 of
            (rs, c2) \<Rightarrow> (res # rs, c2)))"

definition VerifyHeaders :: "nat \<Rightarrow> ('c, 'r, 'd) engine_ops \<Rightarrow> chain_reader \<Rightarrow> int \<Rightarrow> Header list \<Rightarrow>
    ('c, 'r, 'd) Clique \<Rightarrow> clique_error option list \<times> ('c, 'r, 'd) Clique" where
  "VerifyHeaders fuel ops chain now headers c = verifyHeaders fuel ops chain now [] headers c"

section \<open>Preparing and sealing a block\<close>

text \<open>The proposals that make sense to vote on, in the order of the map.\<close>

definition proposal_addresses :: "('c, 'r, 'd) Clique \<Rightarrow> Snapshot \<Rightarrow> address list" where
  "proposal_addresses c snap =
    map fst (filter (\<lambda>(address, p). validVote snap address (p_Authorize p) (p_VoterElection p)) (c_proposals c))"

text \<open>The vote \<open>Prepare\<close> puts into the header; \<open>rnd n\<close> is \<open>rand.Intn(n)\<close>.\<close>

definition prepare_vote :: "(nat \<Rightarrow> nat) \<Rightarrow> ('c, 'r, 'd) Clique \<Rightarrow> Snapshot \<Rightarrow> Header \<Rightarrow> Header" where
  "prepare_vote rnd c snap header =
    (let addresses = proposal_addresses c snap in
     if length addresses > 0 then
       (let candidate = addresses ! rnd (length addresses);
            p = (case map_get (c_proposals c) candidate of
                   None \<Rightarrow> \<lparr> p_Authorize = False, p_VoterElection = False \<rparr> | Some p \<Rightarrow> p)
        in header\<lparr> Extra := ExtraAppendVote (Extra header) candidate (p_VoterElection p),
                   h_Nonce := (if p_Authorize p then nonceAuthVote else nonceDropVote) \<rparr>)
     else header)"

text \<open>
  \<open>Prepare\<close>; the header is returned as far as it was changed, and \<open>now\<close> is the clock in seconds.
\<close>

definition Prepare :: "nat \<Rightarrow> ('c, 'r, 'd) engine_ops \<Rightarrow> chain_reader \<Rightarrow> int \<Rightarrow> (nat \<Rightarrow> nat) \<Rightarrow> Header \<Rightarrow>
    ('c, 'r, 'd) Clique \<Rightarrow> clique_error option \<times> Header \<times> ('c, 'r, 'd) Clique" where
  "Prepare fuel ops chain now rnd header0 c =
    (let header = header0\<lparr> h_Nonce := 0 \<rparr> in
     case NumberU64 header of
       None \<Rightarrow> (Some (Panic NilDereference), header, c)
     | Some number \<Rightarrow>
       (case snapshot fuel ops chain now (number - 1) (ParentHash header) [] c of
          (Inl e, c1) \<Rightarrow> (Some e, header, c1)
        | (Inr snap, c1) \<Rightarrow>
          if c_signer c1 \<noteq> 0 \<and> \<not> map_has (Signers snap) (c_signer c1) then
            (Some (errUnauthorized (c_signer c1)), header, c1)
          else
            (let diff = CalcDifficulty (Signers snap) (c_signer c1) in
             if c_signer c1 \<noteq> 0 \<and> diff = 0 then (Some ErrIneligibleSigner, header, c1)
             else
               (let header1 = header\<lparr> Difficulty := Some (uint diff), Extra := ExtraEnsureVanity (Extra header) \<rparr> in
                if Epoch (c_config c1) = 0 then (Some (Panic DivideByZero), header1, c1)
                else
                  (let header2 = (if number mod Epoch (c_config c1) \<noteq> 0 then prepare_vote rnd c1 snap header1 else header1);
                       header3 = (if number mod Epoch (c_config c1) = 0
                                  then header2\<lparr> h_Signers := signers snap, h_Voters := voters snap \<rparr> else header2);
                       header4 = header3\<lparr> MixDigest := 0 \<rparr>
                   in case GetHeader chain (ParentHash header4) (number - 1) of
                        None \<Rightarrow> (Some ErrUnknownAncestor, header4, c1)
                      | Some parent \<Rightarrow>
                          (case h_Time parent of
                             None \<Rightarrow> (Some (Panic NilDereference), header4, c1)
                           | Some ptime \<Rightarrow>
                               (let time = ptime + uint (Period (c_config c1));
                                    time1 = (if big_Int64 time < now then now else time)
                                in (None, header4\<lparr> h_Time := Some time1 \<rparr>, c1))))))))"

text \<open>
  The outcome of \<open>Seal\<close>: an error, nothing after the stop signal, or the sealed header and the time
  until which to wait, in nanoseconds.
\<close>

datatype seal_result = SealError clique_error | SealStopped | Sealed Header int

definition Seal :: "nat \<Rightarrow> ('c, 'r, 'd) engine_ops \<Rightarrow> chain_reader \<Rightarrow> int \<Rightarrow> Header \<Rightarrow> nat \<Rightarrow>
    ('c, 'r, 'd) Clique \<Rightarrow> seal_result \<times> ('c, 'r, 'd) Clique" where
  "Seal fuel ops chain now block_header txs c =
    (let header = CopyHeader block_header in
     case (NumberU64 header, Difficulty header, h_Time header) of
       (Some number, Some difficulty, Some time) \<Rightarrow>
         if number = 0 then (SealError errUnknownBlock, c)
         else if Period (c_config c) = 0 \<and> txs = 0 then (SealError errWaitTransactions, c)
         else
           (let signer = c_signer c; signFn = c_signFn c in
            case snapshot fuel ops chain now (number - 1) (ParentHash header) [] c of
              (Inl e, c1) \<Rightarrow> (SealError e, c1)
            | (Inr snap, c1) \<Rightarrow>
              (case map_get (Signers snap) signer of
                 None \<Rightarrow> (SealError (errUnauthorized signer), c1)
               | Some lastBlockSigned \<Rightarrow>
                   if lastBlockSigned > 0 \<and> number < nextSignableBlockNumber snap lastBlockSigned then (SealStopped, c1)
                   else (case CliqueRLP header of
                       Inl e \<Rightarrow> (SealError e, c1)
                     | Inr rlp \<Rightarrow>
                         (case signFn signer rlp of
                            None \<Rightarrow> (SealError ErrSign, c1)
                          | Some sighash \<Rightarrow>
                              (let n = word_of_nat (length (Signers snap)) :: uint64;
                                   diff = big_Uint64 difficulty;
                                   delay = (n - diff) * wiggleTime
                               in (Sealed (CopyHeader (header\<lparr> h_Signer := sighash \<rparr>))
                                     (big_Int64 time * 1000000000 + sint delay), c1))))))
     | _ \<Rightarrow> (SealError (Panic NilDereference), c))"

section \<open>The RPC API (\<open>consensus/clique/api.go\<close>)\<close>

text \<open>\<open>None\<close> is a nil block number or \<open>LatestBlockNumber\<close>.\<close>

definition api_header :: "chain_reader \<Rightarrow> uint64 option \<Rightarrow> Header option" where
  "api_header chain number =
    (case number of None \<Rightarrow> CurrentHeader chain | Some n \<Rightarrow> GetHeaderByNumber chain n)"

definition api_snapshot :: "nat \<Rightarrow> ('c, 'r, 'd) engine_ops \<Rightarrow> chain_reader \<Rightarrow> int \<Rightarrow> Header option \<Rightarrow>
    ('c, 'r, 'd) Clique \<Rightarrow> (clique_error + Snapshot) \<times> ('c, 'r, 'd) Clique" where
  "api_snapshot fuel ops chain now header c =
    (case header of
       None \<Rightarrow> (Inl errUnknownBlock, c)
     | Some h \<Rightarrow> (case NumberU64 h of
          None \<Rightarrow> (Inl (Panic NilDereference), c)
        | Some n \<Rightarrow> snapshot fuel ops chain now n (hdr_hash ops h) [] c))"

definition GetSnapshot where
  "GetSnapshot fuel ops chain now number c = api_snapshot fuel ops chain now (api_header chain number) c"

definition GetSnapshotAtHash where
  "GetSnapshotAtHash fuel ops chain now hash c = api_snapshot fuel ops chain now (GetHeaderByHash chain hash) c"

definition GetSigners where
  "GetSigners fuel ops chain now number c =
    (case api_snapshot fuel ops chain now (api_header chain number) c of
       (Inl e, c1) \<Rightarrow> (Inl e, c1) | (Inr snap, c1) \<Rightarrow> (Inr (signers snap), c1))"

definition GetVoters where
  "GetVoters fuel ops chain now number c =
    (case api_snapshot fuel ops chain now (api_header chain number) c of
       (Inl e, c1) \<Rightarrow> (Inl e, c1) | (Inr snap, c1) \<Rightarrow> (Inr (voters snap), c1))"

definition GetSignersAtHash where
  "GetSignersAtHash fuel ops chain now hash c =
    (case api_snapshot fuel ops chain now (GetHeaderByHash chain hash) c of
       (Inl e, c1) \<Rightarrow> (Inl e, c1) | (Inr snap, c1) \<Rightarrow> (Inr (signers snap), c1))"

definition Proposals :: "('c, 'r, 'd) Clique \<Rightarrow> (address, propose) go_map" where
  "Proposals c = copy_map (c_proposals c)"

definition Propose :: "address \<Rightarrow> bool \<Rightarrow> ('c, 'r, 'd) Clique \<Rightarrow> ('c, 'r, 'd) Clique" where
  "Propose address auth c =
     c\<lparr> c_proposals := map_put address \<lparr> p_Authorize = auth, p_VoterElection = False \<rparr> (c_proposals c) \<rparr>"

definition ProposeVoter :: "address \<Rightarrow> bool \<Rightarrow> ('c, 'r, 'd) Clique \<Rightarrow> ('c, 'r, 'd) Clique" where
  "ProposeVoter address auth c =
     c\<lparr> c_proposals := map_put address \<lparr> p_Authorize = auth, p_VoterElection = True \<rparr> (c_proposals c) \<rparr>"

definition Discard :: "address \<Rightarrow> ('c, 'r, 'd) Clique \<Rightarrow> ('c, 'r, 'd) Clique" where
  "Discard address c = c\<lparr> c_proposals := map_del address (c_proposals c) \<rparr>"

section \<open>Lemmas\<close>

subsection \<open>The checkpoint lists\<close>

lemma check_list_from:
  "check_list err xs i hs =
    (if prefix xs (drop i hs) then None
     else if strict_prefix (drop i hs) xs then Some (Panic IndexOutOfRange) else Some err)"
proof (induction xs arbitrary: i)
  case (Cons x xs)
  show ?case
  proof (cases "i < length hs")
    case True
    then have "drop i hs = hs ! i # drop (i + 1) hs" by (simp add: Cons_nth_drop_Suc)
    then show ?thesis using Cons True by auto
  qed auto
qed simp

lemmas check_list_eq = check_list_from [of _ _ 0, simplified]

subsection \<open>Fuel\<close>

text \<open>A header of number zero is verified without a snapshot.\<close>

lemma verify_all_genesis:
  "NumberU64 g = Some 0 \<Longrightarrow> verify_all f ops chain now g ps c = verify_all f' ops chain now g ps c"
  by (simp add: verify_all_def verifyCascadingFields_def verifySeal_def split: option.split)

lemma snapshot_fuel:
  "(\<And>g. GetHeaderByNumber chain 0 = Some g \<Longrightarrow> NumberU64 g = Some 0) \<Longrightarrow>
   snapshot (Suc f) ops chain now number hash parents c = snapshot (Suc f') ops chain now number hash parents c"
  using verify_all_genesis [of _ "snapshot f ops chain now" ops chain now "[]" _ "snapshot f' ops chain now"]
  by (simp split: prod.split gathered.split option.split)

lemma verifyHeader_no_fuel: "verifyHeader ops chain c h \<noteq> Some OutOfFuel"
  by (simp add: verifyHeader_def verifyForkHashes_def Let_def split: option.split)

lemma verify_all_genesis_no_fuel:
  "NumberU64 g = Some 0 \<Longrightarrow> fst (verify_all f ops chain now g ps c) \<noteq> Some OutOfFuel"
  using verifyHeader_no_fuel [of ops chain c g]
  by (auto simp: verify_all_def verifyCascadingFields_def verifySeal_def split: option.split)

lemma ecrecover_no_fuel: "fst (ecrecover ops h c) \<noteq> Inl OutOfFuel"
  by (auto simp: ecrecover_def recover_signer_def SealHash_def Let_def
      split: prod.split option.split sum.split)

lemma apply_vote_no_fuel: "apply_vote a n h s \<noteq> Inl OutOfFuel"
  by (auto simp: apply_vote_def Let_def split: prod.split)

lemma apply_header_no_fuel: "fst (apply_header ops epoch h s c) \<noteq> Inl OutOfFuel"
  using ecrecover_no_fuel [of ops h c] apply_vote_no_fuel
  by (auto simp: apply_header_def apply_signed_def Let_def split: option.split prod.split sum.split)

lemma apply_headers_no_fuel: "fst (apply_headers ops epoch hs s c) \<noteq> Inl OutOfFuel"
proof (induction hs arbitrary: s c)
  case (Cons h hs)
  then show ?case using apply_header_no_fuel [of ops epoch h s c] by (auto split: prod.split sum.split)
qed simp

lemma check_chain_no_fuel: "check_chain hs \<noteq> Some OutOfFuel"
  by (induction hs rule: check_chain.induct) (auto split: option.split)

lemma snap_apply_no_fuel: "fst (snap_apply ops epoch s hs c) \<noteq> Inl OutOfFuel"
  using check_chain_no_fuel [of hs] apply_headers_no_fuel [of ops epoch hs "snap_copy s" c]
  by (auto simp: snap_apply_def split: option.split prod.split sum.split)

lemma finish_snapshot_no_fuel: "fst (finish_snapshot ops s hs c) \<noteq> Inl OutOfFuel"
  using snap_apply_no_fuel [of "e_sig ops" "Epoch (c_config c)" s "rev hs" "c_signatures c"]
  by (auto simp: finish_snapshot_def Let_def split: option.split prod.split sum.split)

lemma gather_no_fuel: "fst (gather ops chain number hash parents headers c) \<noteq> GatherError OutOfFuel"
proof (induction ops chain number hash parents headers c rule: gather.induct)
  case (1 ops chain number hash parents headers c)
  have "next_header ops chain number hash parents \<noteq> Inl OutOfFuel"
    by (auto simp: next_header_def Let_def split: option.split)
  then show ?case using 1 by (subst gather.simps) (auto simp: Let_def split: prod.split option.split sum.split)
qed

lemma snapshot_no_fuel:
  assumes "\<And>g. GetHeaderByNumber chain 0 = Some g \<Longrightarrow> NumberU64 g = Some 0"
  shows "fst (snapshot (Suc f) ops chain now number hash parents c) \<noteq> Inl OutOfFuel"
proof -
  obtain r c1 where g: "gather ops chain number hash parents [] c = (r, c1)" by fastforce
  then have "r \<noteq> GatherError OutOfFuel" using gather_no_fuel [of ops chain number hash parents "[]" c] by simp
  moreover have "fst (verify_all (snapshot f ops chain now) ops chain now g [] c1) \<noteq> Some OutOfFuel"
    if "GetHeaderByNumber chain 0 = Some g" for g
    using assms [OF that] by (rule verify_all_genesis_no_fuel)
  ultimately show ?thesis using g
    by (auto simp: Let_def finish_snapshot_no_fuel split: gathered.split option.split prod.split)
qed

subsection \<open>What retrieving a snapshot does to the engine\<close>

text \<open>The configuration is not changed.\<close>

lemma gather_config: "gather ops chain number hash parents headers c = (g, c') \<Longrightarrow> c_config c' = c_config c"
proof (induction ops chain number hash parents headers c rule: gather.induct)
  case (1 ops chain number hash parents headers c)
  obtain s recents where r: "rec_Get ops hash (c_recents c) = (s, recents)" by fastforce
  show ?case
  proof (cases s)
    case None
    show ?thesis using 1(1) [OF r [symmetric] None refl] 1(2) None r
      by (subst (asm) (2) gather.simps) (auto simp: Let_def split: if_splits option.splits sum.splits)
  next
    case (Some _)
    then show ?thesis using 1(2) r by (subst (asm) gather.simps) auto
  qed
qed

lemma finish_snapshot_result:
  assumes "finish_snapshot ops s headers c = (r, c')"
  shows "c_config c' = c_config c"
    and "r = Inr snap \<Longrightarrow> \<exists>recents. c_recents c' = rec_Add ops (s_Hash snap) snap recents"
  using assms by (auto simp: finish_snapshot_def Let_def split: prod.splits sum.splits option.splits if_splits)

lemma verifyCascadingFields_config:
  assumes "\<And>n h ps c r c'. snapf n h ps c = (r, c') \<Longrightarrow> c_config c' = c_config c"
    and "verifyCascadingFields snapf ops chain now header parents c = (res, c')"
  shows "c_config c' = c_config c"
  using assms(2)
  by (auto simp: verifyCascadingFields_def dest: assms(1) split: prod.splits sum.splits option.splits if_splits)

lemma verifySeal_config:
  assumes "\<And>n h ps c r c'. snapf n h ps c = (r, c') \<Longrightarrow> c_config c' = c_config c"
    and "verifySeal snapf ops header parents c = (res, c')"
  shows "c_config c' = c_config c"
proof -
  have author: "c_config c2 = c_config c1" if "Author ops header c1 = (x, c2)" for x c1 c2
    using that by (auto simp: Author_def split: prod.splits)
  show ?thesis using assms(2)
    by (auto simp: verifySeal_def Let_def dest!: assms(1) author split: prod.splits sum.splits option.splits if_splits)
qed

lemma verify_all_config:
  assumes "\<And>n h ps c r c'. snapf n h ps c = (r, c') \<Longrightarrow> c_config c' = c_config c"
    and "verify_all snapf ops chain now header parents c = (res, c')"
  shows "c_config c' = c_config c"
  using assms(2) verifyCascadingFields_config [OF assms(1)] verifySeal_config [OF assms(1)]
  by (auto simp: verify_all_def split: prod.splits option.splits)

lemma snapshot_config:
  "snapshot fuel ops chain now number hash parents c = (r, c') \<Longrightarrow> c_config c' = c_config c"
proof (induction fuel arbitrary: number hash parents c r c')
  case (Suc fuel)
  obtain g c1 where g: "gather ops chain number hash parents [] c = (g, c1)" by fastforce
  have "c_config c' = c_config c1"
  proof (cases g)
    case (AtGenesis headers)
    have "c_config c3 = c_config c2"
      if "verify_all (snapshot fuel ops chain now) ops chain now genesis [] c2 = (e, c3)" for genesis e c2 c3
      by (rule verify_all_config [OF _ that]) (rule Suc.IH)
    then show ?thesis using Suc.prems g AtGenesis
      by (fastforce simp: Let_def dest: finish_snapshot_result(1) split: option.splits prod.splits)
  qed (use Suc.prems g finish_snapshot_result(1) in auto)
  then show ?case using gather_config [OF g] by simp
qed simp

text \<open>The snapshot is in the cache afterwards, so that retrieving it again takes it from there.\<close>

lemma snapshot_adds:
  assumes "snapshot fuel ops chain now number hash parents c = (Inr snap, c')"
  shows "\<exists>recents. c_recents c' = rec_Add ops (s_Hash snap) snap recents"
proof (cases fuel)
  case (Suc f)
  obtain g c1 where g: "gather ops chain number hash parents [] c = (g, c1)" by fastforce
  show ?thesis using assms Suc g finish_snapshot_result(2) [OF _ refl]
    by (cases g) (auto simp: Let_def split: option.splits prod.splits)
qed (use assms in simp)

lemma snapshot_cached:
  assumes "rec_Get ops hash (c_recents c) = (Some snap, recents)"
  shows "snapshot (Suc f) ops chain now number hash parents c =
    (Inr snap, c\<lparr> c_recents := rec_Add ops (s_Hash snap) snap recents \<rparr>)"
proof -
  have "gather ops chain number hash parents [] c = (Found snap [], c\<lparr> c_recents := recents \<rparr>)"
    by (subst gather.simps) (simp add: assms)
  then show ?thesis by (simp add: finish_snapshot_def snap_apply_def)
qed

lemma snapshot_again:
  assumes "snapshot fuel ops chain now number hash parents c = (Inr snap, c')" and "s_Hash snap = hash"
    and cache: "\<And>recents. fst (rec_Get ops hash (rec_Add ops hash snap recents)) = Some snap"
  shows "\<exists>c''. snapshot fuel ops chain now number hash parents c' = (Inr snap, c'') \<and> c_signatures c'' = c_signatures c'"
proof -
  obtain f where f: "fuel = Suc f" using assms(1) by (cases fuel) auto
  obtain recents where "c_recents c' = rec_Add ops hash snap recents" using snapshot_adds [OF assms(1)] assms(2) by blast
  then obtain recents' where "rec_Get ops hash (c_recents c') = (Some snap, recents')"
    using cache [of recents] by (cases "rec_Get ops hash (rec_Add ops hash snap recents)") auto
  then show ?thesis unfolding f by (simp only: snapshot_cached) simp
qed

lemma Author_signatures: "c_signatures c = c_signatures c' \<Longrightarrow> fst (Author ops h c) = fst (Author ops h c')"
  by (simp add: Author_def split: prod.split)

subsection \<open>A prepared block verifies\<close>

lemma prepare_vote_fields [simp]:
  "h_Number (prepare_vote rnd c snap h) = h_Number h" "ParentHash (prepare_vote rnd c snap h) = ParentHash h"
  "Difficulty (prepare_vote rnd c snap h) = Difficulty h"
  by (simp_all add: prepare_vote_def Let_def)

lemma prepare_vote_nonce:
  "h_Nonce h = nonceDropVote \<Longrightarrow>
   h_Nonce (prepare_vote rnd c snap h) = nonceAuthVote \<or> h_Nonce (prepare_vote rnd c snap h) = nonceDropVote"
  by (simp add: prepare_vote_def Let_def)

lemma NumberU64_cong: "h_Number h = h_Number h' \<Longrightarrow> NumberU64 h = NumberU64 h'"
  by (simp add: NumberU64_def)

text \<open>What \<open>Prepare\<close> has established about the header when it succeeds.\<close>

definition prepared :: "('c, 'r, 'd) Clique \<Rightarrow> Snapshot \<Rightarrow> uint64 \<Rightarrow> Header \<Rightarrow> bool" where
  "prepared c snap number h \<longleftrightarrow> NumberU64 h = Some number \<and> MixDigest h = 0 \<and>
     Difficulty h = Some (uint (CalcDifficulty (Signers snap) (c_signer c))) \<and>
     (c_signer c \<noteq> 0 \<longrightarrow> map_has (Signers snap) (c_signer c) \<and> CalcDifficulty (Signers snap) (c_signer c) \<noteq> 0) \<and>
     Epoch (c_config c) \<noteq> 0 \<and> (h_Nonce h = nonceAuthVote \<or> h_Nonce h = nonceDropVote) \<and>
     (number mod Epoch (c_config c) = 0 \<longrightarrow>
        h_Nonce h = nonceDropVote \<and> length (Extra h) = extraVanity \<and> h_Signers h = signers snap \<and> h_Voters h = voters snap)"

lemma Prepare_prepared:
  assumes "Prepare fuel ops chain now rnd h c = (None, h', c')" and n: "NumberU64 h = Some number"
  obtains snap parent ptime where
    "snapshot fuel ops chain now (number - 1) (ParentHash h) [] c = (Inr snap, c')"
    "prepared c' snap number h'" "ParentHash h' = ParentHash h"
    "GetHeader chain (ParentHash h) (number - 1) = Some parent" "h_Time parent = Some ptime"
    "h_Time h' = Some (if big_Int64 (ptime + uint (Period (c_config c'))) < now then now
                       else ptime + uint (Period (c_config c')))"
proof -
  have [simp]: "NumberU64 (h\<lparr> h_Nonce := x \<rparr>) = Some number" for x using n by (simp add: NumberU64_def)
  have drop: "nonceDropVote = 0" by (simp add: nonceDropVote_def)
  obtain snap where snap: "snapshot fuel ops chain now (number - 1) (ParentHash h) [] c = (Inr snap, c')"
    using assms(1) by (auto simp: Prepare_def Let_def split: prod.splits sum.splits if_splits option.splits)
  note P = assms(1) [unfolded Prepare_def Let_def, simplified, simplified snap, simplified]
  obtain parent ptime where pt: "GetHeader chain (ParentHash h) (number - 1) = Some parent" "h_Time parent = Some ptime"
    using P by (auto split: if_splits option.splits)
  have "prepared c' snap number h'" "ParentHash h' = ParentHash h"
    using P pt n prepare_vote_nonce [of "h\<lparr> h_Nonce := 0, Difficulty := Some (uint (CalcDifficulty (Signers snap) (c_signer c'))),
        Extra := ExtraEnsureVanity (Extra h) \<rparr>" rnd c' snap]
    by (auto simp: prepared_def drop length_ExtraEnsureVanity extraVanity_def NumberU64_def split: if_splits)
  moreover have "h_Time h' = Some (if big_Int64 (ptime + uint (Period (c_config c'))) < now then now
                       else ptime + uint (Period (c_config c')))"
    using P pt by (auto split: if_splits)
  ultimately show ?thesis using that snap pt by blast
qed

text \<open>A header with the consensus fields of another one; the state root, seal and so on may differ.\<close>

definition same_consensus_fields :: "Header \<Rightarrow> Header \<Rightarrow> bool" where
  "same_consensus_fields h h2 \<longleftrightarrow> h_Number h2 = h_Number h \<and> ParentHash h2 = ParentHash h \<and>
     Difficulty h2 = Difficulty h \<and> Extra h2 = Extra h \<and> h_Nonce h2 = h_Nonce h \<and> MixDigest h2 = MixDigest h \<and>
     h_Signers h2 = h_Signers h \<and> h_Voters h2 = h_Voters h \<and> h_Time h2 = h_Time h"

lemma big_Uint64_uint: "big_Uint64 (uint (x :: uint64)) = x"
  by (simp add: big_Uint64_def)

lemma verifyHeader_prepared:
  assumes "prepared c snap number h" "same_consensus_fields h h2" "c_signer c \<noteq> 0"
    "UncleHash h2 = uncleHash ops" "signatureLength \<le> length (h_Signer h2)"
    "verifyForkHashes ops (chain_Config chain) h2 = None" "c_config v = c_config c"
    "number mod Epoch (c_config c) = 0 \<longrightarrow> Voters snap \<noteq> []"
  shows "verifyHeader ops chain v h2 = None"
proof -
  have "length (signers snap) \<ge> 1" using assms(1,3) by (auto simp: prepared_def signers_eq_sort Suc_le_eq)
  moreover have "number mod Epoch (c_config c) = 0 \<longrightarrow> length (voters snap) \<ge> 1"
    using assms(8) by (simp add: voters_eq_sort Suc_le_eq)
  moreover have "NumberU64 h2 = Some number" using assms(1,2)
    by (simp add: prepared_def same_consensus_fields_def NumberU64_def)
  ultimately show ?thesis using assms
    by (auto simp: verifyHeader_def prepared_def same_consensus_fields_def big_Uint64_uint Let_def)
qed

lemma verifySeal_prepared:
  assumes p: "prepared c snap number h" "same_consensus_fields h h2" "c_signer c \<noteq> 0" "number \<noteq> 0"
    and inv: "snap_inv (number - 1) snap" and bound: "unat number + length (Signers snap) < 2 ^ 64"
    and snapf: "snapf (number - 1) (ParentHash h) [] v = (Inr snap, v1)"
    and author: "fst (Author ops h2 v1) = Inr (c_signer c)"
  shows "fst (verifySeal snapf ops h2 [] v) = None"
proof -
  obtain v2 where v2: "Author ops h2 v1 = (Inr (c_signer c), v2)" using author by (cases "Author ops h2 v1") auto
  obtain l where l: "map_get (Signers snap) (c_signer c) = Some l" using p by (auto simp: prepared_def)
  have n: "number - 1 + 1 = number" by simp
  have "unat (number - 1) < unat number" using p(4) by (rule unat_pred_less)
  then have "\<not> (l > 0 \<and> number < nextSignableBlockNumber snap l)"
    using eligible_not_recent [OF inv l] p bound unfolding n by (simp add: prepared_def)
  then show ?thesis using p snapf v2 l
    by (auto simp: verifySeal_def prepared_def same_consensus_fields_def NumberU64_def big_Uint64_uint Let_def)
qed

lemma check_list_same: "check_list err xs 0 xs = None"
  by (simp add: check_list_eq)

lemma verifyCascadingFields_prepared:
  assumes p: "prepared c snap number h" "same_consensus_fields h h2" "number \<noteq> 0"
    and snapf: "snapf (number - 1) (ParentHash h) [] v = (Inr snap, v1)" "c_config v1 = c_config c"
    and parent: "GetHeader chain (ParentHash h) (number - 1) = Some parent" "NumberU64 parent = Some (number - 1)"
      "hdr_hash ops parent = ParentHash h" "h_Time parent = Some ptime"
    and time: "h_Time h = Some t" "t \<le> now" "0 \<le> ptime" "ptime + uint (Period (c_config v)) \<le> t" "t < 2 ^ 64"
  shows "verifyCascadingFields snapf ops chain now h2 [] v = (None, v1)"
proof -
  let ?p = "Period (c_config v)"
  have "0 \<le> uint ?p" by simp
  then have "0 \<le> t" using time by linarith
  have "big_Uint64 ptime + ?p = word_of_int (ptime + uint ?p)" using time by (simp add: big_Uint64_def)
  moreover have "uint (word_of_int (ptime + uint ?p) :: uint64) = (ptime + uint ?p) mod 2 ^ 64"
    by (simp only: unsigned_of_int take_bit_eq_mod) simp
  moreover have "(ptime + uint ?p) mod 2 ^ 64 = ptime + uint ?p"
    using time by (intro mod_pos_pos_trivial) simp_all
  moreover have "uint (big_Uint64 t) = t"
    using time \<open>0 \<le> t\<close> by (simp add: big_Uint64_def unsigned_of_int take_bit_eq_mod)
  ultimately have "\<not> big_Uint64 ptime + ?p > big_Uint64 t" using time by (simp add: word_less_def)
  moreover have "NumberU64 h2 = Some number" "h_Time h2 = Some t" "ParentHash h2 = ParentHash h"
    using p time(1) by (simp_all add: prepared_def same_consensus_fields_def NumberU64_def)
  moreover have "Epoch (c_config c) \<noteq> 0"
    "number mod Epoch (c_config c) = 0 \<Longrightarrow> h_Signers h2 = signers snap \<and> h_Voters h2 = voters snap"
    using p by (simp_all add: prepared_def same_consensus_fields_def)
  ultimately show ?thesis using p(3) snapf parent time(2)
    by (simp add: verifyCascadingFields_def cascading_parent_def check_list_same)
qed

end
