(* ===== verification/Clique_Theorems.thy ===== *)
theory Clique_Theorems
  imports Clique_Engine
begin

text \<open>
  The properties of the proof-of-authority engine, with a small engine on which they are evaluated.
\<close>

section \<open>A sample engine\<close>

text \<open>A header that casts no vote.\<close>

definition plain_header :: Header where
  "plain_header = zero_Header\<lparr> Extra := replicate 32 0, h_Nonce := nonceDropVote \<rparr>"

text \<open>An engine whose cache holds a snapshot with two signers and one voter; signer 1 has sealed every header.\<close>

definition sample_snapshot :: Snapshot where
  "sample_snapshot = newGenesisSnapshot 0 0 [1, 2] [1]"

definition sample_ops :: "(unit, unit, unit) engine_ops" where
  "sample_ops = \<lparr> e_sig = \<lparr> op_keccak = (\<lambda>_. 0), op_Ecrecover = (\<lambda>_ _. None), sig_Get = (\<lambda>_ u. (Some 1, u)), sig_Add = (\<lambda>_ _ u. u) \<rparr>,
     rec_Get = (\<lambda>_ u. (Some sample_snapshot, u)), rec_Add = (\<lambda>_ _ u. u), db_Get = (\<lambda>_ _. None), db_Put = (\<lambda>_ _ _. None),
     json_Marshal = (\<lambda>_. None), json_Unmarshal = (\<lambda>_. None) \<rparr>"

definition sample_config :: ChainConfig where
  "sample_config = \<lparr> ChainId = None, HomesteadBlock = None, EIP150Block = None, EIP150Hash = 0, EIP155Block = None,
     EIP158Block = None, ByzantiumBlock = None, ConstantinopleBlock = None, PetersburgBlock = None,
     DarvazaBlock = None, DarvazaDefaultGas = None, EWASMBlock = None, Clique_config = None \<rparr>"

definition sample_parent :: Header where
  "sample_parent = zero_Header\<lparr> h_Number := Some 9, h_Time := Some 10 \<rparr>"

definition sample_chain :: chain_reader where
  "sample_chain = \<lparr> chain_Config = sample_config, CurrentHeader = None, GetHeader = (\<lambda>_ _. Some sample_parent),
     GetHeaderByNumber = (\<lambda>_. None), GetHeaderByHash = (\<lambda>_. None) \<rparr>"

definition sample_engine :: "(unit, unit, unit) Clique" where
  "sample_engine = Authorize 1 (\<lambda>_ _. None) (New \<lparr> Period = 5, Epoch = 10 \<rparr> () () ())"

definition sample_header :: Header where
  "sample_header = zero_Header\<lparr> h_Number := Some 10, Difficulty := Some 2, h_Time := Some 15, Extra := replicate 32 0, h_Signers := [1, 2],
     h_Voters := [1], h_Signer := replicate 65 0 \<rparr>"

text \<open>
  A second node, with a cache that moves what it finds to the front, a database and a chain with a
  genesis block; one engine has seen the parent block, the other is new.
\<close>

definition peer_ops :: "(unit, (hash, Snapshot) go_map, unit) engine_ops" where
  "peer_ops = \<lparr> e_sig = e_sig sample_ops,
     rec_Get = (\<lambda>h r. case map_get r h of None \<Rightarrow> (None, r) | Some s \<Rightarrow> (Some s, (h, s) # map_del h r)),
     rec_Add = (\<lambda>h s r. (h, s) # map_del h r), db_Get = (\<lambda>_ _. None), db_Put = (\<lambda>_ _ u. Some u),
     json_Marshal = (\<lambda>_. Some []), json_Unmarshal = (\<lambda>_. None) \<rparr>"

definition genesis_header :: Header where
  "genesis_header = zero_Header\<lparr> h_Number := Some 0, Difficulty := Some 1, h_Time := Some 0, UncleHash := uncleHash peer_ops,
     Extra := replicate 32 0, h_Signers := [1, 2], h_Voters := [1], h_Signer := replicate 65 0 \<rparr>"

definition peer_chain :: chain_reader where
  "peer_chain = sample_chain\<lparr> GetHeaderByNumber := (\<lambda>_. Some genesis_header) \<rparr>"

definition peer_engine :: "(unit, (hash, Snapshot) go_map, unit) Clique" where
  "peer_engine = New \<lparr> Period = 5, Epoch = 10 \<rparr> () [(7, newGenesisSnapshot 3 7 [4] [4]), (0, sample_snapshot)] ()"

definition new_engine :: "(unit, (hash, Snapshot) go_map, unit) Clique" where
  "new_engine = New \<lparr> Period = 5, Epoch = 10 \<rparr> () [] ()"

lemma plain_header_simps [simp]:
  "\<not> ExtraHasVote (Extra plain_header)" "h_Nonce plain_header = nonceDropVote"
  by (simp_all add: plain_header_def ExtraHasVote_def extraVanity_def extraPropose_def AddressLength_def)

lemma sample_numbers [simp]: "NumberU64 sample_parent = Some 9" "NumberU64 sample_header = Some 10"
  "NumberU64 (zero_Header\<lparr>h_Number := Some 10\<rparr>) = Some 10"
  by (simp_all add: NumberU64_def sample_parent_def sample_header_def big_Uint64_def)

lemma sample_hash [simp]: "hdr_hash sample_ops h = 0"
  by (simp add: sample_ops_def Header_Hash_def rlpHash_def)

lemma sample_lists [simp]: "signers sample_snapshot = [1, 2]" "voters sample_snapshot = [1]"
  by (simp_all add: sample_snapshot_def newGenesisSnapshot_def signers_eq_sort voters_eq_sort)

lemma sample_snapshot_found [simp]:
  "snapshot 1 sample_ops chain now number hash parents sample_engine = (Inr sample_snapshot, sample_engine)"
  by (simp add: gather.simps sample_ops_def sample_engine_def Authorize_def New_def finish_snapshot_def snap_apply_def
    sample_snapshot_def newGenesisSnapshot_def)

lemma sample_diff [simp]: "CalcDifficulty (Signers sample_snapshot) 1 = 2" 
  by (simp add: sample_snapshot_def newGenesisSnapshot_def CalcDifficulty_def)

lemma sample_fields [simp]:
  "h_Time sample_header = Some 15" "ParentHash sample_header = 0" "h_Signers sample_header = [1, 2]"
  "h_Voters sample_header = [1]" "h_Time sample_parent = Some 10" "GetHeader sample_chain hash number = Some sample_parent"
  "c_config sample_engine = \<lparr> Period = 5, Epoch = 10 \<rparr>" "c_signer sample_engine = 1" "chain_Config sample_chain = sample_config"
  by (simp_all add: sample_header_def sample_parent_def sample_chain_def sample_engine_def zero_Header_def Authorize_def New_def)

lemma peer_hash [simp]: "hdr_hash peer_ops h = 0"
  by (simp add: peer_ops_def sample_ops_def Header_Hash_def rlpHash_def)

lemma peer_fields [simp]:
  "rec_Add peer_ops hash snap r = (hash, snap) # map_del hash r"
  "rec_Get peer_ops hash r = (case map_get r hash of None \<Rightarrow> (None, r) | Some s \<Rightarrow> (Some s, (hash, s) # map_del hash r))"
  "c_recents peer_engine = [(7, newGenesisSnapshot 3 7 [4] [4]), (0, sample_snapshot)]"
  "c_config peer_engine = \<lparr> Period = 5, Epoch = 10 \<rparr>" "s_Hash sample_snapshot = 0"
  "GetHeader peer_chain hash number = Some sample_parent" "chain_Config peer_chain = sample_config"
  "GetHeaderByNumber peer_chain 0 = Some genesis_header" "NumberU64 genesis_header = Some 0"
  by (simp_all add: peer_ops_def peer_engine_def New_def sample_snapshot_def newGenesisSnapshot_def peer_chain_def
      sample_chain_def genesis_header_def NumberU64_def big_Uint64_def)

lemma peer_snapshot:
  "snapshot 1 peer_ops chain now number 0 parents peer_engine =
    (Inr sample_snapshot, peer_engine\<lparr> c_recents := [(0, sample_snapshot), (7, newGenesisSnapshot 3 7 [4] [4])] \<rparr>)"
  using snapshot_cached [of peer_ops 0 peer_engine sample_snapshot _ 0 chain now number parents]
  by (simp del: snapshot.simps)

lemma new_engine_gather: "gather peer_ops peer_chain 0 0 [] [] new_engine = (AtGenesis [], new_engine)"
  by (simp add: gather.simps new_engine_def New_def loadSnapshot_def) (simp add: peer_ops_def)

lemma genesis_verified: "verify_all snapf peer_ops peer_chain 20 genesis_header [] new_engine = (None, new_engine)"
proof -
  have "verifyHeader peer_ops peer_chain new_engine genesis_header = None"
    by (simp add: verifyHeader_def new_engine_def New_def verifyForkHashes_def sample_config_def)
      (simp add: genesis_header_def zero_Header_def extraVanity_def signatureLength_def nonceDropVote_def)
  moreover have "h_Time genesis_header = Some 0" by (simp add: genesis_header_def)
  ultimately show ?thesis by (simp add: verify_all_def verifyCascadingFields_def verifySeal_def)
qed

section \<open>Difficulty and turns\<close>

text \<open>C14. Among the signers of a snapshot in which no two share a signed block, exactly one has each of
  the difficulties from \<open>n/2+1\<close> to \<open>n\<close>; the other signers have difficulty 0.\<close>

theorem difficulty_bijection:
  assumes "map_ok m" and "signed_distinct m" and "length m < 2 ^ 64"
  shows "bij_betw (\<lambda>a. unat (CalcDifficulty m a)) {a \<in> dom (map_of m). CalcDifficulty m a \<noteq> 0}
    {length m div 2 + 1..length m}"
  using assms by (rule CalcDifficulty_bij)

theorem difficulty_bijection_witness:
  "bij_betw (\<lambda>a. unat (CalcDifficulty [(1, 0), (2, 5), (3, 4)] a))
     {a \<in> dom (map_of [(1, 0), (2, 5), (3, 4 :: uint64)]). CalcDifficulty [(1, 0), (2, 5), (3, 4)] a \<noteq> 0} {2..3}"
proof -
  let ?m = "[(1, 0), (2, 5), (3, 4)] :: (address, uint64) go_map"
  have "signed_distinct ?m" by (auto simp: signed_distinct_def)
  then have "bij_betw (\<lambda>a. unat (CalcDifficulty ?m a)) {a \<in> dom (map_of ?m). CalcDifficulty ?m a \<noteq> 0}
      {length ?m div 2 + 1..length ?m}"
    by (intro difficulty_bijection) simp_all
  moreover have "length ?m div 2 + 1 = 2" "length ?m = 3" by simp_all
  ultimately show ?thesis by (simp only:)
qed

text \<open>C15. Some signer can always seal the next block: the one with the highest difficulty is
  authorized and is not excluded by the recency rule.\<close>

theorem in_turn_signer:
  assumes "snap_inv number s" and "Signers s \<noteq> []" and "unat number + length (Signers s) + 1 < 2 ^ 64"
  shows "\<exists>a l. map_get (Signers s) a = Some l \<and> unat (CalcDifficulty (Signers s) a) = length (Signers s) \<and>
    \<not> (l > 0 \<and> number + 1 < nextSignableBlockNumber s l)"
  using assms by (rule in_turn_signer_exists)

theorem in_turn_signer_witness:
  "\<exists>a l. map_get (Signers (newGenesisSnapshot 0 0 [1, 2] [1])) a = Some l \<and>
     unat (CalcDifficulty (Signers (newGenesisSnapshot 0 0 [1, 2] [1])) a) = 2"
proof -
  let ?s = "newGenesisSnapshot 0 0 [1, 2] [1]"
  have s: "Signers ?s = [(1, 0), (2, 0)]" by (simp add: newGenesisSnapshot_def)
  then have len: "length (Signers ?s) = 2" by simp
  have "\<exists>a l. map_get (Signers ?s) a = Some l \<and> unat (CalcDifficulty (Signers ?s) a) = length (Signers ?s) \<and>
      \<not> (l > 0 \<and> 0 + 1 < nextSignableBlockNumber ?s l)"
    by (rule in_turn_signer [OF newGenesisSnapshot_inv]) (simp_all add: s)
  then show ?thesis unfolding len by blast
qed

text \<open>C19. \<open>signers\<close> and \<open>voters\<close> list the keys of their maps in ascending order, whatever the order of
  the map iteration.\<close>

theorem signers_voters_sorted:
  assumes "map_ok (Signers s)" and "map_ok (Voters s)"
  shows "signers s = sorted_list_of_set (dom (map_of (Signers s))) \<and>
    voters s = sorted_list_of_set (dom (map_of (Voters s)))"
  using assms by (simp add: signers_spec voters_spec)

theorem signers_voters_sorted_witness:
  "signers (newGenesisSnapshot 0 0 [3, 1, 2] [2]) = sorted_list_of_set {1, 2, 3}"
proof -
  let ?s = "newGenesisSnapshot 0 0 [3, 1, 2] [2]"
  have s: "Signers ?s = [(3, 0), (1, 0), (2, 0)]" "Voters ?s = [(2, ())]"
    by (simp_all add: newGenesisSnapshot_def)
  have d: "dom (map_of (Signers ?s)) = {1, 2, 3}" unfolding s by auto
  show ?thesis using signers_voters_sorted [of ?s] unfolding d by (simp add: s)
qed

text \<open>C20. A vote appended to the vanity of the extra data is read back as it was written.\<close>

theorem extra_vote_roundtrip:
  "let e = ExtraAppendVote (ExtraEnsureVanity extra) candidate voter in
     ExtraHasVote e \<and> ExtraCandidate e = candidate \<and> ExtraIsVoterElection e = voter \<and>
     ExtraVanity e = ExtraEnsureVanity extra"
  using Extra_vote [OF length_ExtraEnsureVanity] by (simp add: Let_def)

section \<open>Snapshots\<close>

text \<open>C9. Applying headers keeps the invariant of the snapshot: the maps have distinct keys, no two
  signers share a signed block and none is above the snapshot's number, every vote is by a current
  voter, a voter has at most one vote on an address, and a tally counts at least the listed votes.
  The number advances by the number of headers.\<close>

theorem snapshot_apply_invariant:
  assumes "snap_inv (s_Number s) s" and "unat (s_Number s) + length headers < 2 ^ 64"
    and "snap_apply ops epoch s headers sigcache = (Inr s', sigcache')"
  shows "snap_inv (s_Number s') s' \<and> unat (s_Number s') = unat (s_Number s) + length headers"
  using assms by (rule snap_apply_inv)

theorem snapshot_apply_invariant_witness:
  "\<exists>s. snap_apply (e_sig sample_ops) 10 sample_snapshot [plain_header\<lparr> h_Number := Some 1 \<rparr>] () = (Inr s, ()) \<and>
     snap_inv (s_Number s) s \<and> unat (s_Number s) = 1"
proof -
  let ?h = "plain_header\<lparr> h_Number := Some 1 \<rparr>"
  have n: "s_Number sample_snapshot = 0" by (simp add: sample_snapshot_def newGenesisSnapshot_def)
  have e: "ecrecover (e_sig sample_ops) ?h () = (Inr 1, ())" by (simp add: ecrecover_def sample_ops_def)
  have "Extra ?h = Extra plain_header" "h_Nonce ?h = h_Nonce plain_header" by simp_all
  then obtain s1 where "apply_signed 1 1 ?h (snap_copy sample_snapshot) = Inr s1"
    by (simp add: apply_signed_def snap_copy_def sample_snapshot_def newGenesisSnapshot_def copy_map_def apply_vote_def Let_def)
  then have "apply_header (e_sig sample_ops) 10 ?h (snap_copy sample_snapshot) () = (Inr s1, ())"
    using e by (simp add: apply_header_def NumberU64_def big_Uint64_def)
  then obtain s where s: "snap_apply (e_sig sample_ops) 10 sample_snapshot [?h] () = (Inr s, ())"
    by (simp add: snap_apply_def NumberU64_def big_Uint64_def n)
  moreover have "snap_inv (s_Number sample_snapshot) sample_snapshot"
    unfolding n unfolding sample_snapshot_def by (rule newGenesisSnapshot_inv)
  ultimately show ?thesis using snapshot_apply_invariant [OF _ _ s] n by simp
qed

text \<open>C17. Retrieving a snapshot always returns: on a chain whose genesis block has number zero the
  verification of the genesis header asks for no further snapshot, so one level of nesting is enough.\<close>

theorem snapshot_terminates:
  assumes "\<And>g. GetHeaderByNumber chain 0 = Some g \<Longrightarrow> NumberU64 g = Some 0"
  shows "fst (snapshot (Suc f) ops chain now number hash parents c) \<noteq> Inl OutOfFuel \<and>
    snapshot (Suc f) ops chain now number hash parents c = snapshot 1 ops chain now number hash parents c"
  using snapshot_no_fuel [OF assms] snapshot_fuel [OF assms, where f' = 0 and f = f and ops = ops and now = now and number = number and hash = hash and parents = parents and c = c]
  by (simp add: One_nat_def)

theorem snapshot_terminates_witness:
  "gather peer_ops peer_chain 0 0 [] [] new_engine = (AtGenesis [], new_engine) \<and>
   GetHeaderByNumber peer_chain 0 = Some genesis_header \<and> NumberU64 genesis_header = Some 0 \<and>
   fst (snapshot (Suc 4) peer_ops peer_chain 20 0 0 [] new_engine) \<noteq> Inl OutOfFuel \<and>
   fst (snapshot (Suc 4) peer_ops peer_chain 20 0 0 [] new_engine) = Inr (newGenesisSnapshot 0 0 [1, 2] [1])"
proof -
  have t: "fst (snapshot (Suc 4) peer_ops peer_chain 20 0 0 [] new_engine) \<noteq> Inl OutOfFuel \<and>
      snapshot (Suc 4) peer_ops peer_chain 20 0 0 [] new_engine = snapshot 1 peer_ops peer_chain 20 0 0 [] new_engine"
    by (rule snapshot_terminates) simp
  have "h_Signers genesis_header = [1, 2]" "h_Voters genesis_header = [1]" by (simp_all add: genesis_header_def)
  moreover obtain db where "store peer_ops s (c_db new_engine) = Some db" for s by (simp add: store_def peer_ops_def)
  ultimately have "fst (snapshot 1 peer_ops peer_chain 20 0 0 [] new_engine) = Inr (newGenesisSnapshot 0 0 [1, 2] [1])"
    by (simp add: new_engine_gather genesis_verified finish_snapshot_def snap_apply_def Let_def)
  with t new_engine_gather show ?thesis by (simp del: snapshot.simps)
qed

section \<open>Blocks\<close>

text \<open>C13. The signature of a block covers every field of its header but the signature itself: two headers
  with the same seal hash, and no hash collision between their encodings, differ at most there.\<close>

theorem seal_covers_header:
  assumes "header_numbers h" and "header_numbers h'"
    and "length (enc (item_of (encodeSigHeader h))) < 2 ^ 64" and "length (enc (item_of (encodeSigHeader h'))) < 2 ^ 64"
    and "inj_on keccak {enc (item_of (encodeSigHeader h)), enc (item_of (encodeSigHeader h'))}"
    and "SealHash keccak h = SealHash keccak h'"
  shows "h\<lparr> h_Signer := [] \<rparr> = h'\<lparr> h_Signer := [] \<rparr>"
  using assms by (rule SealHash_covers)

theorem seal_covers_header_witness:
  "let h = zero_Header\<lparr> Difficulty := Some 1, h_Number := Some 0, h_Time := Some 0 \<rparr>; h' = h\<lparr> h_Signer := [5] \<rparr>;
       keccak = (\<lambda>b. word_of_nat (be_nat b))
   in header_numbers h \<and> header_numbers h' \<and> length (enc (item_of (encodeSigHeader h))) < 2 ^ 64 \<and>
     length (enc (item_of (encodeSigHeader h'))) < 2 ^ 64 \<and>
     inj_on keccak {enc (item_of (encodeSigHeader h)), enc (item_of (encodeSigHeader h'))} \<and>
     SealHash keccak h = SealHash keccak h' \<and> h_Signer h \<noteq> h_Signer h' \<and> h\<lparr> h_Signer := [] \<rparr> = h'\<lparr> h_Signer := [] \<rparr>"
proof -
  let ?h = "zero_Header\<lparr> Difficulty := Some 1, h_Number := Some 0, h_Time := Some 0 \<rparr>" and ?k = "\<lambda>b. word_of_nat (be_nat b) :: hash"
  let ?h' = "?h\<lparr> h_Signer := [5] \<rparr>"
  have n: "header_numbers ?h" "header_numbers ?h'"
    by (simp_all add: header_numbers_def big_natural_def zero_Header_def)
  have e: "encodeSigHeader ?h' = encodeSigHeader ?h" by (simp add: encodeSigHeader_def)
  have l: "length (enc (item_of (encodeSigHeader ?h))) < 2 ^ 64"
    by (simp add: encodeSigHeader_def zero_Header_def VHash_def VAddress_def encodeString_def encodeStringHeader_def
       nonce_Bytes_def big_Bytes_def BitLen_def bit_len.simps puthead_def putint_def Let_def)
  have l': "length (enc (item_of (encodeSigHeader ?h'))) < 2 ^ 64" using l unfolding e .
  have i: "inj_on ?k {enc (item_of (encodeSigHeader ?h)), enc (item_of (encodeSigHeader ?h'))}" unfolding e by simp
  have s: "SealHash ?k ?h = SealHash ?k ?h'" unfolding SealHash_def e ..
  have d: "h_Signer ?h \<noteq> h_Signer ?h'" by (simp add: zero_Header_def)
  show ?thesis unfolding Let_def using n l l' i s d seal_covers_header [OF n l l' i s] by blast
qed

lemma verifyCascadingFields_lists:
  assumes "verifyCascadingFields snapf ops chain now header parents c = (None, c')"
    and "NumberU64 header = Some number" "number \<noteq> 0" "number mod Epoch (c_config c') = 0"
    and "snapf (number - 1) (ParentHash header) parents c = (Inr snap, c')"
  shows "verifyCascadingFields snapf ops chain now (header\<lparr> h_Signers := ss, h_Voters := vs \<rparr>) parents c =
    (case check_list errInvalidCheckpointSigners (signers snap) 0 ss of
       Some e \<Rightarrow> (Some e, c') | None \<Rightarrow> (check_list errInvalidCheckpointVoters (voters snap) 0 vs, c'))"
proof -
  let ?h = "header\<lparr> h_Signers := ss, h_Voters := vs \<rparr>"
  have [simp]: "NumberU64 ?h = Some number" using assms(2) by (simp add: NumberU64_def)
  have [simp]: "cascading_parent chain ?h = cascading_parent chain header" by (simp add: cascading_parent_def fun_eq_iff)
  show ?thesis using assms by (auto simp: verifyCascadingFields_def split: option.splits if_splits)
qed

text \<open>C16. The lists of signers and voters of a checkpoint header that passes the other checks are accepted
  exactly if the computed lists are prefixes of them, so entries after these are not looked at.  A list
  that is a proper prefix of the computed one makes the verification panic with an index out of range;
  every other list gives the error for its kind, and the signers are checked before the voters.\<close>

theorem checkpoint_lists:
  assumes "verifyCascadingFields snapf ops chain now header parents c = (None, c')"
    and "NumberU64 header = Some number" and "number \<noteq> 0" and "number mod Epoch (c_config c') = 0"
    and "snapf (number - 1) (ParentHash header) parents c = (Inr snap, c')"
  shows "verifyCascadingFields snapf ops chain now (header\<lparr> h_Signers := ss, h_Voters := vs \<rparr>) parents c =
    (if \<not> prefix (signers snap) ss then
       Some (if strict_prefix ss (signers snap) then Panic IndexOutOfRange else errInvalidCheckpointSigners)
     else if \<not> prefix (voters snap) vs then
       Some (if strict_prefix vs (voters snap) then Panic IndexOutOfRange else errInvalidCheckpointVoters)
     else None, c')"
  unfolding verifyCascadingFields_lists [OF assms] check_list_eq by simp

theorem checkpoint_lists_witness:
  "let verify = (\<lambda>ss vs. fst (verifyCascadingFields (snapshot 1 sample_ops sample_chain 20) sample_ops sample_chain 20
     (sample_header\<lparr> h_Signers := ss, h_Voters := vs \<rparr>) [] sample_engine))
   in verify [1, 2] [1] = None \<and> verify [1, 2, 3] [1, 9] = None \<and> verify [1] [1] = Some (Panic IndexOutOfRange) \<and>
     verify [99] [1] = Some errInvalidCheckpointSigners \<and> verify [1, 2] [] = Some (Panic IndexOutOfRange)"
proof -
  have "verifyCascadingFields (snapshot 1 sample_ops sample_chain 20) sample_ops sample_chain 20 sample_header [] sample_engine
      = (None, sample_engine)"
    by (simp add: verifyCascadingFields_def cascading_parent_def big_Uint64_def del: snapshot.simps One_nat_def)
  note c = checkpoint_lists [OF this, of 10 sample_snapshot]
  show ?thesis unfolding Let_def
    using c [where ss = "[1, 2]" and vs = "[1]"] c [where ss = "[1, 2, 3]" and vs = "[1, 9]"] c [where ss = "[1]" and vs = "[1]"] c [where ss = "[99]" and vs = "[1]"] c [where ss = "[1, 2]" and vs = "[]"]
    by (simp add: strict_prefix_def del: snapshot.simps One_nat_def)
qed

lemma big_Int64_self: "0 \<le> x \<Longrightarrow> x < 2 ^ 63 \<Longrightarrow> big_Int64 x = x"
  by (simp add: big_Int64_def signed_of_int signed_take_bit_int_eq_self)

text \<open>C7. A header that \<open>Prepare\<close> has built for an eligible signer, and that signer has sealed, passes
  \<open>VerifyHeader\<close> on every other node, with its own caches, database and chain, under these conditions.
  The node has the same parent header and engine configuration and retrieves the same well-formed
  snapshot for it; its snapshot cache returns what was just added to it; the recovered signer is the one
  who prepared the block; at a checkpoint there is a voter; the uncle hash is that of no uncles and a
  configured EIP150 hash matches; and its clock has reached the time of the block.\<close>

theorem prepared_block_verifies:
  assumes "Prepare fuel ops chain now rnd h c = (None, h', c')" and "NumberU64 h = Some number" and "number \<noteq> 0"
    and "c_signer c' \<noteq> 0" and "snapshot fuel ops chain now (number - 1) (ParentHash h) [] c = (Inr snap, c')"
    and "GetHeader chain (ParentHash h) (number - 1) = Some parent" and "h_Time parent = Some ptime" and "0 \<le> ptime"
    and "ptime + uint (Period (c_config c')) < 2 ^ 63" and "now < 2 ^ 63" and "h_Time h' = Some t"
    and "snap_inv (number - 1) snap" and "s_Hash snap = ParentHash h"
    and "number mod Epoch (c_config c') = 0 \<longrightarrow> Voters snap \<noteq> []"
    and "unat number + length (Signers snap) < 2 ^ 64"
    and "same_consensus_fields h' h2" and "UncleHash h2 = uncleHash ops'" and "signatureLength \<le> length (h_Signer h2)"
    and "verifyForkHashes ops' (chain_Config chain') h2 = None"
    and "snapshot fuel' ops' chain' now' (number - 1) (ParentHash h) [] v = (Inr snap, v1)"
    and "\<And>recents. fst (rec_Get ops' (ParentHash h) (rec_Add ops' (ParentHash h) snap recents)) = Some snap"
    and "fst (Author ops' h2 v1) = Inr (c_signer c')" and "c_config v = c_config c'"
    and "GetHeader chain' (ParentHash h) (number - 1) = Some parent" and "NumberU64 parent = Some (number - 1)"
    and "hdr_hash ops' parent = ParentHash h" and "t \<le> now'"
  shows "fst (VerifyHeader fuel' ops' chain' now' h2 v) = None"
proof -
  obtain snap' parent' ptime' where p:
    "snapshot fuel ops chain now (number - 1) (ParentHash h) [] c = (Inr snap', c')"
    "prepared c' snap' number h'" "ParentHash h' = ParentHash h"
    "GetHeader chain (ParentHash h) (number - 1) = Some parent'" "h_Time parent' = Some ptime'"
    "h_Time h' = Some (if big_Int64 (ptime' + uint (Period (c_config c'))) < now then now
                       else ptime' + uint (Period (c_config c')))"
    using assms(1,2) by (rule Prepare_prepared)
  have eqs: "snap' = snap" "ptime' = ptime" using p assms(5-7) by auto
  have P: "prepared c' snap number h'" using p(2) eqs by simp
  let ?d = "ptime + uint (Period (c_config c'))"
  have d: "0 \<le> ?d" "?d < 2 ^ 63" using assms(8,9) by simp_all
  then have "big_Int64 ?d = ?d" by (rule big_Int64_self)
  then have t: "t = (if ?d < now then now else ?d)" using p(6) eqs assms(11) by simp
  have cfg: "c_config v1 = c_config c'" using snapshot_config [OF assms(20)] assms(23) by simp
  obtain v2 where v2: "snapshot fuel' ops' chain' now' (number - 1) (ParentHash h) [] v1 = (Inr snap, v2)"
    "c_signatures v2 = c_signatures v1" using snapshot_again [OF assms(20,13,21)] by blast
  have 1: "verifyHeader ops' chain' v h2 = None"
    using verifyHeader_prepared [OF P assms(16,4,17,18,19,23,14)] .
  have 2: "verifyCascadingFields (snapshot fuel' ops' chain' now') ops' chain' now' h2 [] v = (None, v1)"
    by (rule verifyCascadingFields_prepared [OF P assms(16,3), where t = t and ptime = ptime and parent = parent])
      (use assms p(3) t d cfg in auto)
  have "fst (Author ops' h2 v2) = Inr (c_signer c')" using assms(22) Author_signatures [OF v2(2)] by simp
  then have 3: "fst (verifySeal (snapshot fuel' ops' chain' now') ops' h2 [] v1) = None"
    using v2(1) p(3) by (intro verifySeal_prepared [OF P assms(16,4,3,12,15)]) simp_all
  show ?thesis by (simp add: VerifyHeader_def verify_all_def 1 2 3)
qed

lemma sample_prepare:
  "Prepare 1 sample_ops sample_chain 12 (\<lambda>_. 0) (zero_Header\<lparr> h_Number := Some 10 \<rparr>) sample_engine =
    (None, sample_header\<lparr> h_Signer := [] \<rparr>, sample_engine)"
proof -
  have [simp]: "NumberU64 (zero_Header\<lparr>h_Number := Some 10, h_Nonce := 0\<rparr>) = Some 10" by (simp add: NumberU64_def big_Uint64_def)
  have [simp]: "map_has (Signers sample_snapshot) 1" by (simp add: sample_snapshot_def newGenesisSnapshot_def)
  have "ExtraEnsureVanity [] = replicate 32 0" by (simp add: ExtraEnsureVanity_def extraVanity_def)
  then have "Extra zero_Header = [] \<Longrightarrow> ?thesis"
    by (simp add: Prepare_def Let_def big_Int64_self sample_header_def del: snapshot.simps One_nat_def)
      (simp add: zero_Header_def)
  then show ?thesis by (simp add: zero_Header_def)
qed

theorem prepared_block_verifies_witness:
  "fst (VerifyHeader 1 peer_ops peer_chain 20 (sample_header\<lparr> UncleHash := uncleHash peer_ops \<rparr>) peer_engine) = None \<and>
   c_recents (snd (snapshot 1 peer_ops peer_chain 20 9 0 [] peer_engine)) \<noteq> c_recents peer_engine"
proof
  let ?h2 = "sample_header\<lparr> UncleHash := uncleHash peer_ops \<rparr>"
  let ?v1 = "peer_engine\<lparr> c_recents := [(0, sample_snapshot), (7, newGenesisSnapshot 3 7 [4] [4])] \<rparr>"
  show "fst (VerifyHeader 1 peer_ops peer_chain 20 ?h2 peer_engine) = None"
  proof (rule prepared_block_verifies [OF sample_prepare, where number = 10 and snap = sample_snapshot and parent = sample_parent
      and ptime = 10 and t = 15 and ?v1.0 = ?v1])
    show "snap_inv (10 - 1) sample_snapshot" unfolding sample_snapshot_def by (rule newGenesisSnapshot_inv)
    show "fst (Author peer_ops ?h2 ?v1) = Inr (c_signer sample_engine)"
      by (simp add: Author_def ecrecover_def peer_ops_def sample_ops_def)
    show "unat (10 :: uint64) + length (Signers sample_snapshot) < 2 ^ 64"
      "10 mod Epoch (c_config sample_engine) = 0 \<longrightarrow> Voters sample_snapshot \<noteq> []"
      by (simp_all add: sample_snapshot_def newGenesisSnapshot_def)
  qed (simp_all add: peer_snapshot zero_Header_def same_consensus_fields_def signatureLength_def sample_header_def
      verifyForkHashes_def sample_config_def sample_parent_def NumberU64_def big_Uint64_def del: snapshot.simps One_nat_def)
  show "c_recents (snd (snapshot 1 peer_ops peer_chain 20 9 0 [] peer_engine)) \<noteq> c_recents peer_engine"
    by (simp add: peer_snapshot del: snapshot.simps One_nat_def)
qed

end
