(* ===== verification/Vm_Base.thy ===== *)
theory Vm_Base
  imports Params
begin

unbundle bit_operations_syntax

text \<open>
  The data structures of the virtual machine (\<open>core/vm\<close>): jump destination analysis (\<open>analysis.go\<close>),
  memory (\<open>memory.go\<close>), stack (\<open>stack.go\<close>, \<open>stack_table.go\<close>), the helpers of \<open>common.go\<close> and
  \<open>gas.go\<close>, the contract (\<open>contract.go\<close>) and the state of a running machine.

  The integers of the stack are values.  The integer pool (\<open>intpool.go\<close>) only recycles their storage and
  is not represented.
\<close>

section \<open>Errors (\<open>errors.go\<close>)\<close>

datatype vm_error =
    ErrOutOfGas
  | ErrCodeStoreOutOfGas
  | ErrDepth
  | ErrInsufficientBalance
  | ErrContractAddressCollision
  | ErrNoCompatibleInterpreter
  | errWriteProtection
  | errReturnDataOutOfBounds
  | errExecutionReverted
  | errMaxCodeSizeExceeded
  | errGasUintOverflow
  | errInvalidOpcode byte
  | errStackUnderflow nat nat
  | errStackLimit nat
  | errInvalidJump byte bigint
  | errPrecompile string

section \<open>Opcodes (\<open>opcodes.go\<close>)\<close>

type_synonym OpCode = byte

abbreviation (input) "STOP \<equiv> 0x00 :: OpCode"
abbreviation (input) "ADD \<equiv> 0x01 :: OpCode"
abbreviation (input) "MUL \<equiv> 0x02 :: OpCode"
abbreviation (input) "SUB \<equiv> 0x03 :: OpCode"
abbreviation (input) "DIV \<equiv> 0x04 :: OpCode"
abbreviation (input) "SDIV \<equiv> 0x05 :: OpCode"
abbreviation (input) "MOD \<equiv> 0x06 :: OpCode"
abbreviation (input) "SMOD \<equiv> 0x07 :: OpCode"
abbreviation (input) "ADDMOD \<equiv> 0x08 :: OpCode"
abbreviation (input) "MULMOD \<equiv> 0x09 :: OpCode"
abbreviation (input) "EXP \<equiv> 0x0a :: OpCode"
abbreviation (input) "SIGNEXTEND \<equiv> 0x0b :: OpCode"
abbreviation (input) "LT \<equiv> 0x10 :: OpCode"
abbreviation (input) "GT \<equiv> 0x11 :: OpCode"
abbreviation (input) "SLT \<equiv> 0x12 :: OpCode"
abbreviation (input) "SGT \<equiv> 0x13 :: OpCode"
abbreviation (input) "EQ \<equiv> 0x14 :: OpCode"
abbreviation (input) "ISZERO \<equiv> 0x15 :: OpCode"
abbreviation (input) "AND_OP \<equiv> 0x16 :: OpCode"
abbreviation (input) "OR_OP \<equiv> 0x17 :: OpCode"
abbreviation (input) "XOR_OP \<equiv> 0x18 :: OpCode"
abbreviation (input) "NOT_OP \<equiv> 0x19 :: OpCode"
abbreviation (input) "BYTE \<equiv> 0x1a :: OpCode"
abbreviation (input) "SHL \<equiv> 0x1b :: OpCode"
abbreviation (input) "SHR \<equiv> 0x1c :: OpCode"
abbreviation (input) "SAR \<equiv> 0x1d :: OpCode"
abbreviation (input) "SHA3 \<equiv> 0x20 :: OpCode"
abbreviation (input) "ADDRESS \<equiv> 0x30 :: OpCode"
abbreviation (input) "BALANCE \<equiv> 0x31 :: OpCode"
abbreviation (input) "ORIGIN \<equiv> 0x32 :: OpCode"
abbreviation (input) "CALLER \<equiv> 0x33 :: OpCode"
abbreviation (input) "CALLVALUE \<equiv> 0x34 :: OpCode"
abbreviation (input) "CALLDATALOAD \<equiv> 0x35 :: OpCode"
abbreviation (input) "CALLDATASIZE \<equiv> 0x36 :: OpCode"
abbreviation (input) "CALLDATACOPY \<equiv> 0x37 :: OpCode"
abbreviation (input) "CODESIZE \<equiv> 0x38 :: OpCode"
abbreviation (input) "CODECOPY \<equiv> 0x39 :: OpCode"
abbreviation (input) "GASPRICE \<equiv> 0x3a :: OpCode"
abbreviation (input) "EXTCODESIZE \<equiv> 0x3b :: OpCode"
abbreviation (input) "EXTCODECOPY \<equiv> 0x3c :: OpCode"
abbreviation (input) "RETURNDATASIZE \<equiv> 0x3d :: OpCode"
abbreviation (input) "RETURNDATACOPY \<equiv> 0x3e :: OpCode"
abbreviation (input) "EXTCODEHASH \<equiv> 0x3f :: OpCode"
abbreviation (input) "BLOCKHASH \<equiv> 0x40 :: OpCode"
abbreviation (input) "COINBASE \<equiv> 0x41 :: OpCode"
abbreviation (input) "TIMESTAMP \<equiv> 0x42 :: OpCode"
abbreviation (input) "NUMBER \<equiv> 0x43 :: OpCode"
abbreviation (input) "DIFFICULTY \<equiv> 0x44 :: OpCode"
abbreviation (input) "GASLIMIT \<equiv> 0x45 :: OpCode"
abbreviation (input) "POP \<equiv> 0x50 :: OpCode"
abbreviation (input) "MLOAD \<equiv> 0x51 :: OpCode"
abbreviation (input) "MSTORE \<equiv> 0x52 :: OpCode"
abbreviation (input) "MSTORE8 \<equiv> 0x53 :: OpCode"
abbreviation (input) "SLOAD \<equiv> 0x54 :: OpCode"
abbreviation (input) "SSTORE \<equiv> 0x55 :: OpCode"
abbreviation (input) "JUMP \<equiv> 0x56 :: OpCode"
abbreviation (input) "JUMPI \<equiv> 0x57 :: OpCode"
abbreviation (input) "PC \<equiv> 0x58 :: OpCode"
abbreviation (input) "MSIZE \<equiv> 0x59 :: OpCode"
abbreviation (input) "GAS \<equiv> 0x5a :: OpCode"
abbreviation (input) "JUMPDEST \<equiv> 0x5b :: OpCode"
abbreviation (input) "PUSH1 \<equiv> 0x60 :: OpCode"
abbreviation (input) "PUSH32 \<equiv> 0x7f :: OpCode"
abbreviation (input) "DUP1 \<equiv> 0x80 :: OpCode"
abbreviation (input) "SWAP1 \<equiv> 0x90 :: OpCode"
abbreviation (input) "LOG0 \<equiv> 0xa0 :: OpCode"
abbreviation (input) "CREATE \<equiv> 0xf0 :: OpCode"
abbreviation (input) "CALL \<equiv> 0xf1 :: OpCode"
abbreviation (input) "CALLCODE \<equiv> 0xf2 :: OpCode"
abbreviation (input) "RETURN \<equiv> 0xf3 :: OpCode"
abbreviation (input) "DELEGATECALL \<equiv> 0xf4 :: OpCode"
abbreviation (input) "CREATE2 \<equiv> 0xf5 :: OpCode"
abbreviation (input) "STATICCALL \<equiv> 0xfa :: OpCode"
abbreviation (input) "REVERT \<equiv> 0xfd :: OpCode"
abbreviation (input) "SELFDESTRUCT \<equiv> 0xff :: OpCode"

section \<open>Jump destination analysis (\<open>analysis.go\<close>)\<close>

text \<open>
  Positions are natural numbers: they stay below \<open>len(code) + 33\<close> and do not wrap around.  An index out
  of range panics.
\<close>

type_synonym bitvec = "byte list"

definition or_at :: "nat \<Rightarrow> byte \<Rightarrow> bitvec \<Rightarrow> bitvec exec" where
  "or_at i b bits = (if i < length bits then Inr (bits[i := (bits ! i) OR b]) else Inl GoPanic)"

definition bits_set :: "nat \<Rightarrow> bitvec \<Rightarrow> bitvec exec" where
  "bits_set pos bits = or_at (pos div 8) (drop_bit (pos mod 8) 0x80) bits"

definition bits_set8 :: "nat \<Rightarrow> bitvec \<Rightarrow> bitvec exec" where
  "bits_set8 pos bits =
    bind_exec (or_at (pos div 8) (drop_bit (pos mod 8) 0xFF) bits)
      (or_at (pos div 8 + 1) (NOT (drop_bit (pos mod 8) 0xFF)))"

definition codeSegment :: "nat \<Rightarrow> bitvec \<Rightarrow> bool exec" where
  "codeSegment pos bits =
    (if pos div 8 < length bits then Inr ((bits ! (pos div 8)) AND drop_bit (pos mod 8) 0x80 = 0)
     else Inl GoPanic)"

text \<open>The two inner loops of \<open>codeBitmap\<close>, which mark \<open>numbits\<close> bytes from \<open>pc\<close> on.\<close>

fun mark_bits :: "nat \<Rightarrow> nat \<Rightarrow> bitvec \<Rightarrow> bitvec exec" where
  "mark_bits numbits pc bits =
    (if numbits \<ge> 8 then bind_exec (bits_set8 pc bits) (mark_bits (numbits - 8) (pc + 8))
     else if numbits > 0 then bind_exec (bits_set pc bits) (mark_bits (numbits - 1) (pc + 1))
     else Inr bits)"

declare mark_bits.simps [simp del]

function codeBitmap_loop :: "bytes \<Rightarrow> nat \<Rightarrow> bitvec \<Rightarrow> bitvec exec" where
  "codeBitmap_loop code pc bits =
    (if pc < length code then
       (let op = code ! pc in
        if PUSH1 \<le> op \<and> op \<le> PUSH32 then
          (let numbits = unat (op - PUSH1 + 1) in
           bind_exec (mark_bits numbits (pc + 1) bits) (codeBitmap_loop code (pc + 1 + numbits)))
        else codeBitmap_loop code (pc + 1) bits)
     else Inr bits)"
  by pat_completeness auto
termination
  by (relation "measure (\<lambda>(code, pc, bits). length code - pc)") auto

declare codeBitmap_loop.simps [simp del]

definition codeBitmap :: "bytes \<Rightarrow> bitvec exec" where
  "codeBitmap code = codeBitmap_loop code 0 (replicate (length code div 8 + 1 + 4) 0)"

section \<open>Memory (\<open>memory.go\<close>)\<close>

record Memory =
  m_store :: bytes
  lastGasCost :: uint64

definition NewMemory :: Memory where
  "NewMemory = \<lparr> m_store = [], lastGasCost = 0 \<rparr>"

text \<open>\<open>copy\<close> of a slice into the memory from an offset on.\<close>

definition overwrite :: "nat \<Rightarrow> bytes \<Rightarrow> bytes \<Rightarrow> bytes" where
  "overwrite i value s = take i s @ value @ drop (i + length value) s"

definition mem_Set :: "uint64 \<Rightarrow> uint64 \<Rightarrow> bytes \<Rightarrow> Memory \<Rightarrow> Memory exec" where
  "mem_Set offset sz value m =
    (if sz > 0 then
       (if unat (offset + sz) > length (m_store m) \<or> offset > offset + sz then Inl GoPanic
        else Inr (m\<lparr> m_store := overwrite (unat offset) (take (unat sz) value) (m_store m) \<rparr>))
     else Inr m)"

definition mem_Set32 :: "uint64 \<Rightarrow> bigint \<Rightarrow> Memory \<Rightarrow> Memory exec" where
  "mem_Set32 offset val m =
    (if unat (offset + 32) > length (m_store m) \<or> offset > offset + 32 then Inl GoPanic
     else Inr (m\<lparr> m_store := overwrite (unat offset) (ReadBits val (replicate 32 0)) (m_store m) \<rparr>))"

definition mem_Len :: "Memory \<Rightarrow> nat" where
  "mem_Len m = length (m_store m)"

definition mem_Resize :: "uint64 \<Rightarrow> Memory \<Rightarrow> Memory" where
  "mem_Resize sz m =
    (if mem_Len m < unat sz then m\<lparr> m_store := m_store m @ replicate (unat sz - mem_Len m) 0 \<rparr> else m)"

text \<open>
  \<open>Get\<close> and \<open>GetPtr\<close>; a slice beyond the length of the store, which Go takes from the spare capacity if
  there is any, is a failure here.
\<close>

definition mem_Get :: "int \<Rightarrow> int \<Rightarrow> Memory \<Rightarrow> bytes exec" where
  "mem_Get offset sz m =
    (if sz = 0 then Inr []
     else if int (length (m_store m)) > offset then
       (if 0 \<le> offset \<and> 0 \<le> sz \<and> offset + sz \<le> int (length (m_store m))
        then Inr (take (nat sz) (drop (nat offset) (m_store m))) else Inl GoPanic)
     else Inr [])"

definition mem_GetPtr :: "int \<Rightarrow> int \<Rightarrow> Memory \<Rightarrow> bytes exec" where
  "mem_GetPtr offset sz m =
    (if sz = 0 then Inr []
     else if int (length (m_store m)) > offset then
       (if 0 \<le> offset \<and> 0 \<le> sz \<and> offset + sz \<le> int (length (m_store m))
        then Inr (take (nat sz) (drop (nat offset) (m_store m))) else Inl GoPanic)
     else Inr [])"

section \<open>Helpers (\<open>common.go\<close>, \<open>gas.go\<close>)\<close>

definition calcMemSize :: "bigint \<Rightarrow> bigint \<Rightarrow> bigint" where
  "calcMemSize off l = (if l = 0 then 0 else off + l)"

text \<open>
  \<open>getDataBig\<close>, for arguments that are not negative.  \<open>int(size)\<close> is negative from \<open>2^63\<close> on, and
  \<open>RightPadBytes\<close> then returns the slice as it is.
\<close>

definition getDataBig :: "bytes \<Rightarrow> bigint \<Rightarrow> bigint \<Rightarrow> bytes" where
  "getDataBig data start sz =
    (let dlen = int (length data); s = BigMin start dlen; e = BigMin (s + sz) dlen in
     RightPadBytes (take (unat (big_Uint64 e) - unat (big_Uint64 s)) (drop (unat (big_Uint64 s)) data))
       (nat (sint (big_Uint64 sz))))"

definition getData :: "bytes \<Rightarrow> uint64 \<Rightarrow> uint64 \<Rightarrow> bytes exec" where
  "getData data start sz =
    (let len = word_of_nat (length data) :: uint64;
         start1 = (if start > len then len else start);
         end0 = start1 + sz;
         end1 = (if end0 > len then len else end0) in
     if start1 > end1 then Inl GoPanic
     else Inr (RightPadBytes (take (unat end1 - unat start1) (drop (unat start1) data)) (nat (sint sz))))"

definition bigUint64 :: "bigint \<Rightarrow> uint64 \<times> bool" where
  "bigUint64 v = (big_Uint64 v, BitLen v > 64)"

definition toWordSize :: "uint64 \<Rightarrow> uint64" where
  "toWordSize sz = (if sz > - 1 - 31 then (- 1) div 32 + 1 else (sz + 31) div 32)"

definition allZero :: "bytes \<Rightarrow> bool" where
  "allZero b = list_all (\<lambda>x. x = 0) b"

definition GasQuickStep :: uint64 where "GasQuickStep = 2"
definition GasFastestStep :: uint64 where "GasFastestStep = 3"
definition GasFastStep :: uint64 where "GasFastStep = 5"
definition GasMidStep :: uint64 where "GasMidStep = 8"
definition GasSlowStep :: uint64 where "GasSlowStep = 10"
definition GasExtStep :: uint64 where "GasExtStep = 20"

definition callGas :: "GasTable \<Rightarrow> uint64 \<Rightarrow> uint64 \<Rightarrow> bigint \<Rightarrow> vm_error + uint64" where
  "callGas gasTable availableGas base callCost =
    (let availableGas1 = availableGas - base;
         gas = availableGas1 - availableGas1 div 64 in
     if CreateBySuicide gasTable > 0 \<and> (BitLen callCost > 64 \<or> gas < big_Uint64 callCost) then Inr gas
     else if BitLen callCost > 64 then Inl errGasUintOverflow
     else Inr (big_Uint64 callCost))"

section \<open>Contracts (\<open>contract.go\<close>)\<close>

text \<open>
  \<open>None\<close> stands for nil.  The map \<open>jumpdests\<close> is shared by all contracts of a call tree and lives in the
  state of the machine below; the interfaces \<open>caller\<close> and \<open>self\<close> are used for their addresses, and
  \<open>caller\<close> for the values that a delegate takes over.
\<close>

record Contract =
  CallerAddress :: address
  self :: address
  analysis :: "bitvec option"
  Code :: bytes
  CodeHash :: hash
  CodeAddr :: "address option"
  Input :: bytes
  Gas :: uint64
  c_value :: "bigint option"

datatype ContractRef = AccountRef address | ContractObj Contract

fun ref_Address :: "ContractRef \<Rightarrow> address" where
  "ref_Address (AccountRef a) = a"
| "ref_Address (ContractObj c) = self c"

definition NewContract :: "ContractRef \<Rightarrow> address \<Rightarrow> bigint option \<Rightarrow> uint64 \<Rightarrow> Contract" where
  "NewContract caller object v gas =
    \<lparr> CallerAddress = ref_Address caller, self = object, analysis = None, Code = [], CodeHash = 0,
      CodeAddr = None, Input = [], Gas = gas, c_value = v \<rparr>"

text \<open>The map of a new contract: that of a calling contract, a fresh one otherwise.\<close>

definition inherited_jumpdests :: "ContractRef \<Rightarrow> (hash, bitvec) go_map \<Rightarrow> (hash, bitvec) go_map" where
  "inherited_jumpdests caller m = (case caller of AccountRef a \<Rightarrow> [] | ContractObj c \<Rightarrow> m)"

definition AsDelegate :: "ContractRef \<Rightarrow> Contract \<Rightarrow> Contract exec" where
  "AsDelegate caller c =
    (case caller of
       AccountRef a \<Rightarrow> Inl GoPanic
     | ContractObj parent \<Rightarrow> Inr (c\<lparr> CallerAddress := CallerAddress parent, c_value := c_value parent \<rparr>))"

definition GetByte :: "Contract \<Rightarrow> uint64 \<Rightarrow> byte" where
  "GetByte c n = (if unat n < length (Code c) then Code c ! unat n else 0)"

definition GetOp :: "Contract \<Rightarrow> uint64 \<Rightarrow> OpCode" where
  "GetOp c n = GetByte c n"

definition UseGas :: "uint64 \<Rightarrow> Contract \<Rightarrow> bool \<times> Contract" where
  "UseGas gas c = (if Gas c < gas then (False, c) else (True, c\<lparr> Gas := Gas c - gas \<rparr>))"

definition SetCallCode :: "address \<Rightarrow> hash \<Rightarrow> bytes \<Rightarrow> Contract \<Rightarrow> Contract" where
  "SetCallCode addr hash code c = c\<lparr> Code := code, CodeHash := hash, CodeAddr := Some addr \<rparr>"

definition SetCodeOptionalHash :: "address \<Rightarrow> bytes \<Rightarrow> hash \<Rightarrow> Contract \<Rightarrow> Contract" where
  "SetCodeOptionalHash addr code hash c = c\<lparr> Code := code, CodeHash := hash, CodeAddr := Some addr \<rparr>"

text \<open>\<open>validJumpdest\<close> returns the answer with the contract and the shared map, where it caches the analysis.\<close>

definition validJumpdest :: "bigint \<Rightarrow> Contract \<Rightarrow> (hash, bitvec) go_map \<Rightarrow>
    (bool \<times> Contract \<times> (hash, bitvec) go_map) exec" where
  "validJumpdest dest c jumpdests =
    (let udest = big_Uint64 dest in
     if BitLen dest \<ge> 63 \<or> unat udest \<ge> length (Code c) then Inr (False, c, jumpdests)
     else if Code c ! unat udest \<noteq> JUMPDEST then Inr (False, c, jumpdests)
     else if CodeHash c \<noteq> 0 then
       (case map_get jumpdests (CodeHash c) of
          Some a \<Rightarrow> bind_exec (codeSegment (unat udest) a) (\<lambda>b. Inr (b, c, jumpdests))
        | None \<Rightarrow>
            bind_exec (codeBitmap (Code c)) (\<lambda>a.
            bind_exec (codeSegment (unat udest) a) (\<lambda>b. Inr (b, c, map_put (CodeHash c) a jumpdests))))
     else
       bind_exec (case analysis c of Some a \<Rightarrow> Inr a | None \<Rightarrow> codeBitmap (Code c)) (\<lambda>a.
       bind_exec (codeSegment (unat udest) a) (\<lambda>b. Inr (b, c\<lparr> analysis := Some a \<rparr>, jumpdests))))"

section \<open>The state database interface (\<open>interface.go\<close>)\<close>

record Log =
  l_Address :: address
  Topics :: "hash list"
  l_Data :: bytes
  l_BlockNumber :: uint64
  l_TxHash :: hash
  l_TxIndex :: uint64
  l_BlockHash :: hash
  l_Index :: uint64
  Removed :: bool

text \<open>
  The operations the virtual machine calls, on a database state of type \<open>'s\<close>.  Reading may fill caches,
  so every operation returns the state; the two that may panic return an \<open>exec\<close>.  The machine, apart from its tracers, does not use the
  result of \<open>Suicide\<close> and does not call \<open>GetRefund\<close>, \<open>ForEachStorage\<close> and the getters that end in \<open>Err\<close>.
\<close>

record 's StateDB_ops =
  db_CreateAccount :: "address \<Rightarrow> 's \<Rightarrow> 's"
  db_SubBalance :: "address \<Rightarrow> bigint \<Rightarrow> 's \<Rightarrow> 's"
  db_AddBalance :: "address \<Rightarrow> bigint \<Rightarrow> 's \<Rightarrow> 's"
  db_GetBalance :: "address \<Rightarrow> 's \<Rightarrow> bigint \<times> 's"
  db_GetNonce :: "address \<Rightarrow> 's \<Rightarrow> uint64 \<times> 's"
  db_SetNonce :: "address \<Rightarrow> uint64 \<Rightarrow> 's \<Rightarrow> 's"
  db_GetCodeHash :: "address \<Rightarrow> 's \<Rightarrow> hash \<times> 's"
  db_GetCode :: "address \<Rightarrow> 's \<Rightarrow> bytes \<times> 's"
  db_SetCode :: "address \<Rightarrow> bytes \<Rightarrow> 's \<Rightarrow> 's"
  db_GetCodeSize :: "address \<Rightarrow> 's \<Rightarrow> nat \<times> 's"
  db_AddRefund :: "uint64 \<Rightarrow> 's \<Rightarrow> 's"
  db_SubRefund :: "uint64 \<Rightarrow> 's \<Rightarrow> 's exec"
  db_GetCommittedState :: "address \<Rightarrow> hash \<Rightarrow> 's \<Rightarrow> hash \<times> 's"
  db_GetState :: "address \<Rightarrow> hash \<Rightarrow> 's \<Rightarrow> hash \<times> 's"
  db_SetState :: "address \<Rightarrow> hash \<Rightarrow> hash \<Rightarrow> 's \<Rightarrow> 's"
  db_Suicide :: "address \<Rightarrow> 's \<Rightarrow> 's"
  db_HasSuicided :: "address \<Rightarrow> 's \<Rightarrow> bool \<times> 's"
  db_Exist :: "address \<Rightarrow> 's \<Rightarrow> bool \<times> 's"
  db_Empty :: "address \<Rightarrow> 's \<Rightarrow> bool \<times> 's"
  db_RevertToSnapshot :: "int \<Rightarrow> 's \<Rightarrow> 's exec"
  db_Snapshot :: "'s \<Rightarrow> int \<times> 's"
  db_AddLog :: "Log \<Rightarrow> 's \<Rightarrow> 's"
  db_AddPreimage :: "hash \<Rightarrow> bytes \<Rightarrow> 's \<Rightarrow> 's"

section \<open>The machine\<close>

text \<open>
  What an execution does not change: the \<open>Context\<close> and the configuration of \<open>evm.go\<close>, the hash function
  and the precompiled contracts of the two forks.
\<close>

record precompile =
  RequiredGas :: "bytes \<Rightarrow> uint64"
  p_Run :: "bytes \<Rightarrow> bytes \<times> vm_error option"

record 's Env =
  vm_db :: "'s StateDB_ops"
  GetHash :: "uint64 \<Rightarrow> hash"
  Origin :: address
  GasPrice :: bigint
  e_Coinbase :: address
  GasLimit :: uint64
  BlockNumber :: bigint
  e_Time :: bigint
  e_Difficulty :: bigint
  chainConfig :: ChainConfig
  NoRecursion :: bool
  EnablePreimageRecording :: bool
  vm_keccak :: "bytes \<Rightarrow> hash"
  PrecompiledContractsHomestead :: "address \<Rightarrow> precompile option"
  PrecompiledContractsByzantium :: "address \<Rightarrow> precompile option"

definition chainRules :: "'s Env \<Rightarrow> Rules" where
  "chainRules env = config_Rules (chainConfig env) (Some (BlockNumber env))"

definition gasTable :: "'s Env \<Rightarrow> GasTable" where
  "gasTable env = config_GasTable (chainConfig env) (Some (BlockNumber env))"

text \<open>
  What it changes: the database, the fields of \<open>EVM\<close>, those of its one \<open>EVMInterpreter\<close> and the shared map
  of jump destinations.
\<close>

record 's EVM =
  StateDB :: 's
  depth :: nat
  evm_abort :: bool
  callGasTemp :: uint64
  readOnly :: bool
  returnData :: bytes
  jumpdests :: "(hash, bitvec) go_map"

text \<open>The variables of \<open>Run\<close>; the head of the list is the top of the stack.\<close>

record 's Frame =
  pc :: uint64
  stack :: "bigint list"
  mem :: Memory
  contract :: Contract
  evm :: "'s EVM"

definition Back :: "nat \<Rightarrow> 's Frame \<Rightarrow> bigint exec" where
  "Back n f = (if n < length (stack f) then Inr (stack f ! n) else Inl GoPanic)"

definition makeStackFunc :: "nat \<Rightarrow> nat \<Rightarrow> bigint list \<Rightarrow> vm_error option" where
  "makeStackFunc pops pushes st =
    (if length st < pops then Some (errStackUnderflow (length st) pops)
     else if length st + pushes - pops > unat StackLimit then Some (errStackLimit (length st))
     else None)"

definition makeDupStackFunc :: "nat \<Rightarrow> bigint list \<Rightarrow> vm_error option" where
  "makeDupStackFunc n = makeStackFunc n (n + 1)"

definition makeSwapStackFunc :: "nat \<Rightarrow> bigint list \<Rightarrow> vm_error option" where
  "makeSwapStackFunc n = makeStackFunc n n"

end
