(* ===== verification/Vm_Instructions.thy ===== *)
theory Vm_Instructions
  imports Vm_Base
begin

unbundle bit_operations_syntax

text \<open>
  The instructions of the virtual machine (\<open>core/vm/instructions.go\<close>), one definition per execution
  function.  An execution function maps a frame to its return bytes, an error and the frame afterwards; a
  pop from an empty stack is a run-time panic.
\<close>

section \<open>Execution functions\<close>

text \<open>
  The calls of \<open>evm.go\<close> that instructions make; they run the machine recursively and are passed as an
  argument.  The results are the returned bytes, the gas that is left, the error and the machine.
\<close>

record 's Calls =
  c_Call :: "ContractRef \<Rightarrow> address \<Rightarrow> bytes \<Rightarrow> uint64 \<Rightarrow> bigint \<Rightarrow> 's EVM \<Rightarrow> (bytes \<times> uint64 \<times> vm_error option \<times> 's EVM) exec"
  c_CallCode :: "ContractRef \<Rightarrow> address \<Rightarrow> bytes \<Rightarrow> uint64 \<Rightarrow> bigint \<Rightarrow> 's EVM \<Rightarrow> (bytes \<times> uint64 \<times> vm_error option \<times> 's EVM) exec"
  c_DelegateCall :: "ContractRef \<Rightarrow> address \<Rightarrow> bytes \<Rightarrow> uint64 \<Rightarrow> 's EVM \<Rightarrow> (bytes \<times> uint64 \<times> vm_error option \<times> 's EVM) exec"
  c_StaticCall :: "ContractRef \<Rightarrow> address \<Rightarrow> bytes \<Rightarrow> uint64 \<Rightarrow> 's EVM \<Rightarrow> (bytes \<times> uint64 \<times> vm_error option \<times> 's EVM) exec"
  c_Create :: "ContractRef \<Rightarrow> bytes \<Rightarrow> uint64 \<Rightarrow> bigint \<Rightarrow> 's EVM \<Rightarrow> (bytes \<times> address \<times> uint64 \<times> vm_error option \<times> 's EVM) exec"
  c_Create2 :: "ContractRef \<Rightarrow> bytes \<Rightarrow> uint64 \<Rightarrow> bigint \<Rightarrow> bigint \<Rightarrow> 's EVM \<Rightarrow> (bytes \<times> address \<times> uint64 \<times> vm_error option \<times> 's EVM) exec"

type_synonym 's op_result = "(bytes \<times> vm_error option \<times> 's Frame) exec"

type_synonym 's executionFunc = "'s Env \<Rightarrow> 's Calls \<Rightarrow> 's Frame \<Rightarrow> 's op_result"

definition done_op :: "'s Frame \<Rightarrow> 's op_result" where
  "done_op f = Inr ([], None, f)"

definition push :: "bigint \<Rightarrow> 's Frame \<Rightarrow> 's Frame" where
  "push v f = f\<lparr> stack := v # stack f \<rparr>"

text \<open>Instructions that replace the topmost one, two or three items by a result.\<close>

fun stack_op1 :: "(bigint \<Rightarrow> bigint) \<Rightarrow> 's Frame \<Rightarrow> 's op_result" where
  "stack_op1 g f = (case stack f of x # s \<Rightarrow> done_op (f\<lparr> stack := g x # s \<rparr>) | _ \<Rightarrow> Inl GoPanic)"

fun stack_op2 :: "(bigint \<Rightarrow> bigint \<Rightarrow> bigint) \<Rightarrow> 's Frame \<Rightarrow> 's op_result" where
  "stack_op2 g f = (case stack f of x # y # s \<Rightarrow> done_op (f\<lparr> stack := g x y # s \<rparr>) | _ \<Rightarrow> Inl GoPanic)"

fun stack_op3 :: "(bigint \<Rightarrow> bigint \<Rightarrow> bigint \<Rightarrow> bigint) \<Rightarrow> 's Frame \<Rightarrow> 's op_result" where
  "stack_op3 g f =
    (case stack f of x # y # z # s \<Rightarrow> done_op (f\<lparr> stack := g x y z # s \<rparr>) | _ \<Rightarrow> Inl GoPanic)"

section \<open>Arithmetic, comparison and bit operations\<close>

text \<open>The Euclidean division and remainder of \<open>big.Int\<close>.\<close>

definition big_Div :: "bigint \<Rightarrow> bigint \<Rightarrow> bigint" where
  "big_Div x y = sgn y * (x div \<bar>y\<bar>)"

definition big_Mod :: "bigint \<Rightarrow> bigint \<Rightarrow> bigint" where
  "big_Mod x y = x mod \<bar>y\<bar>"

definition opAdd :: "'s executionFunc" where
  "opAdd env cs = stack_op2 (\<lambda>x y. U256 (x + y))"

definition opSub :: "'s executionFunc" where
  "opSub env cs = stack_op2 (\<lambda>x y. U256 (x - y))"

definition opMul :: "'s executionFunc" where
  "opMul env cs = stack_op2 (\<lambda>x y. U256 (x * y))"

definition opDiv :: "'s executionFunc" where
  "opDiv env cs = stack_op2 (\<lambda>x y. if y \<noteq> 0 then U256 (big_Div x y) else 0)"

definition sdiv :: "bigint \<Rightarrow> bigint \<Rightarrow> bigint" where
  "sdiv x0 y0 =
    (let x = S256 x0; y = S256 y0 in
     if y = 0 \<or> x = 0 then 0
     else if sgn x \<noteq> sgn y then U256 (- big_Div \<bar>x\<bar> \<bar>y\<bar>)
     else U256 (big_Div \<bar>x\<bar> \<bar>y\<bar>))"

definition opSdiv :: "'s executionFunc" where
  "opSdiv env cs = stack_op2 sdiv"

definition opMod :: "'s executionFunc" where
  "opMod env cs = stack_op2 (\<lambda>x y. if y = 0 then 0 else U256 (big_Mod x y))"

definition smod :: "bigint \<Rightarrow> bigint \<Rightarrow> bigint" where
  "smod x0 y0 =
    (let x = S256 x0; y = S256 y0 in
     if y = 0 then 0
     else if x < 0 then U256 (- big_Mod \<bar>x\<bar> \<bar>y\<bar>)
     else U256 (big_Mod \<bar>x\<bar> \<bar>y\<bar>))"

definition opSmod :: "'s executionFunc" where
  "opSmod env cs = stack_op2 smod"

definition opExp :: "'s executionFunc" where
  "opExp env cs = stack_op2 (\<lambda>base exponent.
    if exponent < 1 then 1
    else if base = 0 then 0
    else if exponent = 1 then base
    else fst (Exp base exponent))"

definition sign_extend :: "bigint \<Rightarrow> bigint \<Rightarrow> bigint" where
  "sign_extend back num =
    (let n = unat (big_Uint64 back * 8 + 7); mask = 2 ^ n - 1 in
     if bit num n then U256 (num OR NOT mask) else U256 (num AND mask))"

definition opSignExtend :: "'s executionFunc" where
  "opSignExtend env cs f =
    (case stack f of
       [] \<Rightarrow> Inl GoPanic
     | back # s \<Rightarrow>
         if back < 31 then
           (case s of [] \<Rightarrow> Inl GoPanic | num # s' \<Rightarrow> done_op (f\<lparr> stack := sign_extend back num # s' \<rparr>))
         else done_op (f\<lparr> stack := s \<rparr>))"

definition opNot :: "'s executionFunc" where
  "opNot env cs = stack_op1 (\<lambda>x. U256 (NOT x))"

definition opLt :: "'s executionFunc" where
  "opLt env cs = stack_op2 (\<lambda>x y. if x < y then 1 else 0)"

definition opGt :: "'s executionFunc" where
  "opGt env cs = stack_op2 (\<lambda>x y. if x > y then 1 else 0)"

definition opSlt :: "'s executionFunc" where
  "opSlt env cs = stack_op2 (\<lambda>x y.
    if x \<ge> tt255 \<and> y < tt255 then 1
    else if x < tt255 \<and> y \<ge> tt255 then 0
    else if x < y then 1 else 0)"

definition opSgt :: "'s executionFunc" where
  "opSgt env cs = stack_op2 (\<lambda>x y.
    if x \<ge> tt255 \<and> y < tt255 then 0
    else if x < tt255 \<and> y \<ge> tt255 then 1
    else if x > y then 1 else 0)"

definition opEq :: "'s executionFunc" where
  "opEq env cs = stack_op2 (\<lambda>x y. if x = y then 1 else 0)"

definition opIszero :: "'s executionFunc" where
  "opIszero env cs = stack_op1 (\<lambda>x. if x > 0 then 0 else 1)"

definition opAnd :: "'s executionFunc" where
  "opAnd env cs = stack_op2 (\<lambda>x y. x AND y)"

definition opOr :: "'s executionFunc" where
  "opOr env cs = stack_op2 (\<lambda>x y. x OR y)"

definition opXor :: "'s executionFunc" where
  "opXor env cs = stack_op2 (\<lambda>x y. x XOR y)"

definition opByte :: "'s executionFunc" where
  "opByte env cs = stack_op2 (\<lambda>th val. if th < 32 then uint (Byte val 32 (nat (big_Int64 th))) else 0)"

definition opAddmod :: "'s executionFunc" where
  "opAddmod env cs = stack_op3 (\<lambda>x y z. if z > 0 then U256 (big_Mod (x + y) z) else 0)"

definition opMulmod :: "'s executionFunc" where
  "opMulmod env cs = stack_op3 (\<lambda>x y z. if z > 0 then U256 (big_Mod (x * y) z) else 0)"

definition opSHL :: "'s executionFunc" where
  "opSHL env cs = stack_op2 (\<lambda>shift0 value0.
    let shift = U256 shift0; v = U256 value0 in
    if shift \<ge> 256 then 0 else U256 (v * 2 ^ unat (big_Uint64 shift)))"

definition opSHR :: "'s executionFunc" where
  "opSHR env cs = stack_op2 (\<lambda>shift0 value0.
    let shift = U256 shift0; v = U256 value0 in
    if shift \<ge> 256 then 0 else U256 (v div 2 ^ unat (big_Uint64 shift)))"

definition opSAR :: "'s executionFunc" where
  "opSAR env cs = stack_op2 (\<lambda>shift0 value0.
    let shift = U256 shift0; v = S256 value0 in
    if shift \<ge> 256 then (if v \<ge> 0 then U256 0 else U256 (- 1))
    else U256 (v div 2 ^ unat (big_Uint64 shift)))"

section \<open>Environment\<close>

definition opSha3 :: "'s executionFunc" where
  "opSha3 env cs f =
    (case stack f of
       offset # sz # s \<Rightarrow>
         bind_exec (mem_Get (big_Int64 offset) (big_Int64 sz) (mem f)) (\<lambda>data.
           let h = vm_keccak env data;
               f1 = (if EnablePreimageRecording env
                     then f\<lparr> evm := (evm f)\<lparr> StateDB := db_AddPreimage (vm_db env) h data (StateDB (evm f)) \<rparr> \<rparr> else f)
           in done_op (f1\<lparr> stack := Hash_Big h # s \<rparr>))
     | _ \<Rightarrow> Inl GoPanic)"

definition opAddress :: "'s executionFunc" where
  "opAddress env cs f = done_op (push (Address_Big (self (contract f))) f)"

text \<open>A read of the state database, which may fill its caches.\<close>

definition read_db :: "('s \<Rightarrow> 'a \<times> 's) \<Rightarrow> 's Frame \<Rightarrow> 'a \<times> 's Frame" where
  "read_db g f = (case g (StateDB (evm f)) of (x, db) \<Rightarrow> (x, f\<lparr> evm := (evm f)\<lparr> StateDB := db \<rparr> \<rparr>))"

definition write_db :: "('s \<Rightarrow> 's) \<Rightarrow> 's Frame \<Rightarrow> 's Frame" where
  "write_db g f = f\<lparr> evm := (evm f)\<lparr> StateDB := g (StateDB (evm f)) \<rparr> \<rparr>"

definition opBalance :: "'s executionFunc" where
  "opBalance env cs f =
    (case stack f of
       slot # s \<Rightarrow>
         (case read_db (db_GetBalance (vm_db env) (BigToAddress slot)) f of
            (b, f1) \<Rightarrow> done_op (f1\<lparr> stack := b # s \<rparr>))
     | _ \<Rightarrow> Inl GoPanic)"

definition opOrigin :: "'s executionFunc" where
  "opOrigin env cs f = done_op (push (Address_Big (Origin env)) f)"

definition opCaller :: "'s executionFunc" where
  "opCaller env cs f = done_op (push (Address_Big (CallerAddress (contract f))) f)"

definition opCallValue :: "'s executionFunc" where
  "opCallValue env cs f =
    (case c_value (contract f) of None \<Rightarrow> Inl GoPanic | Some v \<Rightarrow> done_op (push v f))"

definition opCallDataLoad :: "'s executionFunc" where
  "opCallDataLoad env cs f =
    stack_op1 (\<lambda>offset. big_SetBytes (getDataBig (Input (contract f)) offset 32)) f"

definition opCallDataSize :: "'s executionFunc" where
  "opCallDataSize env cs f = done_op (push (int (length (Input (contract f)))) f)"

text \<open>The end of the copying instructions: \<open>memory.Set\<close>.\<close>

definition set_mem :: "bigint \<Rightarrow> bigint \<Rightarrow> bytes \<Rightarrow> 's Frame \<Rightarrow> 's Frame exec" where
  "set_mem memOffset len data f =
    bind_exec (mem_Set (big_Uint64 memOffset) (big_Uint64 len) data (mem f)) (\<lambda>m. Inr (f\<lparr> mem := m \<rparr>))"

definition opCallDataCopy :: "'s executionFunc" where
  "opCallDataCopy env cs f =
    (case stack f of
       memOffset # dataOffset # len # s \<Rightarrow>
         bind_exec (set_mem memOffset len (getDataBig (Input (contract f)) dataOffset len) (f\<lparr> stack := s \<rparr>)) done_op
     | _ \<Rightarrow> Inl GoPanic)"

definition opReturnDataSize :: "'s executionFunc" where
  "opReturnDataSize env cs f = done_op (push (int (length (returnData (evm f)))) f)"

definition opReturnDataCopy :: "'s executionFunc" where
  "opReturnDataCopy env cs f =
    (case stack f of
       memOffset # dataOffset # len # s \<Rightarrow>
         (let end1 = dataOffset + len; f1 = f\<lparr> stack := s \<rparr>; d = returnData (evm f) in
          if BitLen end1 > 64 \<or> length d < unat (big_Uint64 end1) then Inr ([], Some errReturnDataOutOfBounds, f1)
          else if big_Uint64 dataOffset > big_Uint64 end1 then Inl GoPanic
          else bind_exec (set_mem memOffset len
                 (take (unat (big_Uint64 end1) - unat (big_Uint64 dataOffset)) (drop (unat (big_Uint64 dataOffset)) d)) f1) done_op)
     | _ \<Rightarrow> Inl GoPanic)"

definition opExtCodeSize :: "'s executionFunc" where
  "opExtCodeSize env cs f =
    (case stack f of
       slot # s \<Rightarrow>
         (case read_db (db_GetCodeSize (vm_db env) (BigToAddress slot)) f of
            (n, f1) \<Rightarrow> done_op (f1\<lparr> stack := int n # s \<rparr>))
     | _ \<Rightarrow> Inl GoPanic)"

definition opCodeSize :: "'s executionFunc" where
  "opCodeSize env cs f = done_op (push (int (length (Code (contract f)))) f)"

definition opCodeCopy :: "'s executionFunc" where
  "opCodeCopy env cs f =
    (case stack f of
       memOffset # codeOffset # len # s \<Rightarrow>
         bind_exec (set_mem memOffset len (getDataBig (Code (contract f)) codeOffset len) (f\<lparr> stack := s \<rparr>)) done_op
     | _ \<Rightarrow> Inl GoPanic)"

definition opExtCodeCopy :: "'s executionFunc" where
  "opExtCodeCopy env cs f =
    (case stack f of
       addr # memOffset # codeOffset # len # s \<Rightarrow>
         (case read_db (db_GetCode (vm_db env) (BigToAddress addr)) f of
            (code, f1) \<Rightarrow>
              bind_exec (set_mem memOffset len (getDataBig code codeOffset len) (f1\<lparr> stack := s \<rparr>)) done_op)
     | _ \<Rightarrow> Inl GoPanic)"

definition opExtCodeHash :: "'s executionFunc" where
  "opExtCodeHash env cs f =
    (case stack f of
       slot # s \<Rightarrow>
         (case read_db (db_Empty (vm_db env) (BigToAddress slot)) f of
            (True, f1) \<Rightarrow> done_op (f1\<lparr> stack := 0 # s \<rparr>)
          | (False, f1) \<Rightarrow>
              (case read_db (db_GetCodeHash (vm_db env) (BigToAddress slot)) f1 of
                 (h, f2) \<Rightarrow> done_op (f2\<lparr> stack := Hash_Big h # s \<rparr>)))
     | _ \<Rightarrow> Inl GoPanic)"

definition opGasprice :: "'s executionFunc" where
  "opGasprice env cs f = done_op (push (GasPrice env) f)"

definition opBlockhash :: "'s executionFunc" where
  "opBlockhash env cs = stack_op1 (\<lambda>num.
    if num > BlockNumber env - 257 \<and> num < BlockNumber env then Hash_Big (GetHash env (big_Uint64 num)) else 0)"

definition opCoinbase :: "'s executionFunc" where
  "opCoinbase env cs f = done_op (push (Address_Big (e_Coinbase env)) f)"

definition opTimestamp :: "'s executionFunc" where
  "opTimestamp env cs f = done_op (push (U256 (e_Time env)) f)"

definition opNumber :: "'s executionFunc" where
  "opNumber env cs f = done_op (push (U256 (BlockNumber env)) f)"

definition opDifficulty :: "'s executionFunc" where
  "opDifficulty env cs f = done_op (push (U256 (e_Difficulty env)) f)"

definition opGasLimit :: "'s executionFunc" where
  "opGasLimit env cs f = done_op (push (U256 (uint (GasLimit env))) f)"

section \<open>Stack, memory, storage and flow\<close>

definition opPop :: "'s executionFunc" where
  "opPop env cs f = (case stack f of x # s \<Rightarrow> done_op (f\<lparr> stack := s \<rparr>) | _ \<Rightarrow> Inl GoPanic)"

definition opMload :: "'s executionFunc" where
  "opMload env cs f =
    (case stack f of
       offset # s \<Rightarrow>
         bind_exec (mem_Get (big_Int64 offset) 32 (mem f)) (\<lambda>data. done_op (f\<lparr> stack := big_SetBytes data # s \<rparr>))
     | _ \<Rightarrow> Inl GoPanic)"

definition opMstore :: "'s executionFunc" where
  "opMstore env cs f =
    (case stack f of
       mStart # val # s \<Rightarrow>
         bind_exec (mem_Set32 (big_Uint64 mStart) val (mem f)) (\<lambda>m. done_op (f\<lparr> stack := s, mem := m \<rparr>))
     | _ \<Rightarrow> Inl GoPanic)"

definition opMstore8 :: "'s executionFunc" where
  "opMstore8 env cs f =
    (case stack f of
       off0 # val0 # s \<Rightarrow>
         (let off = big_Int64 off0; val = big_Int64 val0; st = m_store (mem f) in
          if 0 \<le> off \<and> off < int (length st)
          then done_op (f\<lparr> stack := s, mem := (mem f)\<lparr> m_store := st[nat off := word_of_int val] \<rparr> \<rparr>)
          else Inl GoPanic)
     | _ \<Rightarrow> Inl GoPanic)"

definition opSload :: "'s executionFunc" where
  "opSload env cs f =
    (case stack f of
       loc # s \<Rightarrow>
         (case read_db (db_GetState (vm_db env) (self (contract f)) (BigToHash loc)) f of
            (val, f1) \<Rightarrow> done_op (f1\<lparr> stack := Hash_Big val # s \<rparr>))
     | _ \<Rightarrow> Inl GoPanic)"

definition opSstore :: "'s executionFunc" where
  "opSstore env cs f =
    (case stack f of
       loc # val # s \<Rightarrow>
         done_op (write_db (db_SetState (vm_db env) (self (contract f)) (BigToHash loc) (BigToHash val)) (f\<lparr> stack := s \<rparr>))
     | _ \<Rightarrow> Inl GoPanic)"

text \<open>The jump itself: the destination is checked and the analysis is kept.\<close>

definition jump_to :: "bigint \<Rightarrow> 's Frame \<Rightarrow> 's op_result" where
  "jump_to pos f =
    bind_exec (validJumpdest pos (contract f) (jumpdests (evm f))) (\<lambda>(ok, c, jd).
      let f1 = f\<lparr> contract := c, evm := (evm f)\<lparr> jumpdests := jd \<rparr> \<rparr> in
      if \<not> ok then Inr ([], Some (errInvalidJump (GetOp c (big_Uint64 pos)) pos), f1)
      else done_op (f1\<lparr> pc := big_Uint64 pos \<rparr>))"

definition opJump :: "'s executionFunc" where
  "opJump env cs f = (case stack f of pos # s \<Rightarrow> jump_to pos (f\<lparr> stack := s \<rparr>) | _ \<Rightarrow> Inl GoPanic)"

definition opJumpi :: "'s executionFunc" where
  "opJumpi env cs f =
    (case stack f of
       pos # cond # s \<Rightarrow>
         if cond \<noteq> 0 then jump_to pos (f\<lparr> stack := s \<rparr>) else done_op (f\<lparr> stack := s, pc := pc f + 1 \<rparr>)
     | _ \<Rightarrow> Inl GoPanic)"

definition opJumpdest :: "'s executionFunc" where
  "opJumpdest env cs f = done_op f"

definition opPc :: "'s executionFunc" where
  "opPc env cs f = done_op (push (uint (pc f)) f)"

definition opMsize :: "'s executionFunc" where
  "opMsize env cs f = done_op (push (int (mem_Len (mem f))) f)"

definition opGas :: "'s executionFunc" where
  "opGas env cs f = done_op (push (uint (Gas (contract f))) f)"

section \<open>Calls and creation\<close>

text \<open>After a call the gas that is left returns to the contract; \<open>st\<close> is the stack with the result.\<close>

definition resume :: "bigint list \<Rightarrow> uint64 \<Rightarrow> 's EVM \<Rightarrow> 's Frame \<Rightarrow> 's Frame" where
  "resume st returnGas e f =
    f\<lparr> stack := st, evm := e, contract := (contract f)\<lparr> Gas := Gas (contract f) + returnGas \<rparr> \<rparr>"

definition opCreate :: "'s executionFunc" where
  "opCreate env cs f =
    (case stack f of
       v # offset # sz # s \<Rightarrow>
         bind_exec (mem_Get (big_Int64 offset) (big_Int64 sz) (mem f)) (\<lambda>input.
           let g = Gas (contract f);
               gas = (if IsEIP150 (chainConfig env) (Some (BlockNumber env)) then g - g div 64 else g);
               c = snd (UseGas gas (contract f)) in
           bind_exec (c_Create cs (ContractObj c) input gas v (evm f)) (\<lambda>(res, addr, returnGas, suberr, e).
             let r = (if IsHomestead (chainConfig env) (Some (BlockNumber env)) \<and> suberr = Some ErrCodeStoreOutOfGas then 0
                      else if suberr \<noteq> None \<and> suberr \<noteq> Some ErrCodeStoreOutOfGas then 0
                      else Address_Big addr) in
             Inr (if suberr = Some errExecutionReverted then res else [], None,
                  resume (r # s) returnGas e (f\<lparr> contract := c \<rparr>))))
     | _ \<Rightarrow> Inl GoPanic)"

definition opCreate2 :: "'s executionFunc" where
  "opCreate2 env cs f =
    (case stack f of
       endowment # offset # sz # salt # s \<Rightarrow>
         bind_exec (mem_Get (big_Int64 offset) (big_Int64 sz) (mem f)) (\<lambda>input.
           let g = Gas (contract f);
               gas = g - g div 64;
               c = snd (UseGas gas (contract f)) in
           bind_exec (c_Create2 cs (ContractObj c) input gas endowment salt (evm f)) (\<lambda>(res, addr, returnGas, suberr, e).
             let r = (if suberr \<noteq> None then 0 else Address_Big addr) in
             Inr (if suberr = Some errExecutionReverted then res else [], None,
                  resume (r # s) returnGas e (f\<lparr> contract := c \<rparr>))))
     | _ \<Rightarrow> Inl GoPanic)"

text \<open>
  The common end of the four calls: the result on the stack, the returned bytes copied to the memory
  unless the call failed, and the gas.
\<close>

definition finish_call :: "bigint \<Rightarrow> bigint \<Rightarrow> bigint list \<Rightarrow> 's Frame \<Rightarrow> bytes \<times> uint64 \<times> vm_error option \<times> 's EVM \<Rightarrow> 's op_result" where
  "finish_call retOffset retSize s f res =
    (case res of (ret, returnGas, err, e) \<Rightarrow>
      let f1 = resume ((if err \<noteq> None then 0 else 1) # s) returnGas e f in
      if err = None \<or> err = Some errExecutionReverted then
        bind_exec (set_mem retOffset retSize ret f1) (\<lambda>f2. Inr (ret, None, f2))
      else Inr (ret, None, f1))"

definition opCall :: "'s executionFunc" where
  "opCall env cs f =
    (case stack f of
       gas0 # addr # value0 # inOffset # inSize # retOffset # retSize # s \<Rightarrow>
         (let v = U256 value0 in
          bind_exec (mem_Get (big_Int64 inOffset) (big_Int64 inSize) (mem f)) (\<lambda>args.
            let gas = (if v \<noteq> 0 then callGasTemp (evm f) + CallStipend else callGasTemp (evm f)) in
            bind_exec (c_Call cs (ContractObj (contract f)) (BigToAddress addr) args gas v (evm f))
              (finish_call retOffset retSize s f)))
     | _ \<Rightarrow> Inl GoPanic)"

definition opCallCode :: "'s executionFunc" where
  "opCallCode env cs f =
    (case stack f of
       gas0 # addr # value0 # inOffset # inSize # retOffset # retSize # s \<Rightarrow>
         (let v = U256 value0 in
          bind_exec (mem_Get (big_Int64 inOffset) (big_Int64 inSize) (mem f)) (\<lambda>args.
            let gas = (if v \<noteq> 0 then callGasTemp (evm f) + CallStipend else callGasTemp (evm f)) in
            bind_exec (c_CallCode cs (ContractObj (contract f)) (BigToAddress addr) args gas v (evm f))
              (finish_call retOffset retSize s f)))
     | _ \<Rightarrow> Inl GoPanic)"

definition opDelegateCall :: "'s executionFunc" where
  "opDelegateCall env cs f =
    (case stack f of
       gas0 # addr # inOffset # inSize # retOffset # retSize # s \<Rightarrow>
         bind_exec (mem_Get (big_Int64 inOffset) (big_Int64 inSize) (mem f)) (\<lambda>args.
           bind_exec (c_DelegateCall cs (ContractObj (contract f)) (BigToAddress addr) args (callGasTemp (evm f)) (evm f))
             (finish_call retOffset retSize s f))
     | _ \<Rightarrow> Inl GoPanic)"

definition opStaticCall :: "'s executionFunc" where
  "opStaticCall env cs f =
    (case stack f of
       gas0 # addr # inOffset # inSize # retOffset # retSize # s \<Rightarrow>
         bind_exec (mem_Get (big_Int64 inOffset) (big_Int64 inSize) (mem f)) (\<lambda>args.
           bind_exec (c_StaticCall cs (ContractObj (contract f)) (BigToAddress addr) args (callGasTemp (evm f)) (evm f))
             (finish_call retOffset retSize s f))
     | _ \<Rightarrow> Inl GoPanic)"

section \<open>Halting, logs, push, dup and swap\<close>

definition opReturn :: "'s executionFunc" where
  "opReturn env cs f =
    (case stack f of
       offset # sz # s \<Rightarrow>
         bind_exec (mem_GetPtr (big_Int64 offset) (big_Int64 sz) (mem f)) (\<lambda>ret. Inr (ret, None, f\<lparr> stack := s \<rparr>))
     | _ \<Rightarrow> Inl GoPanic)"

definition opRevert :: "'s executionFunc" where
  "opRevert env cs f =
    (case stack f of
       offset # sz # s \<Rightarrow>
         bind_exec (mem_GetPtr (big_Int64 offset) (big_Int64 sz) (mem f)) (\<lambda>ret. Inr (ret, None, f\<lparr> stack := s \<rparr>))
     | _ \<Rightarrow> Inl GoPanic)"

definition opStop :: "'s executionFunc" where
  "opStop env cs f = done_op f"

definition opSuicide :: "'s executionFunc" where
  "opSuicide env cs f =
    (case read_db (db_GetBalance (vm_db env) (self (contract f))) f of
       (balance, f1) \<Rightarrow>
         (case stack f1 of
            beneficiary # s \<Rightarrow>
              done_op (write_db (db_Suicide (vm_db env) (self (contract f)))
                (write_db (db_AddBalance (vm_db env) (BigToAddress beneficiary) balance) (f1\<lparr> stack := s \<rparr>)))
          | _ \<Rightarrow> Inl GoPanic))"

definition makeLog :: "nat \<Rightarrow> 's executionFunc" where
  "makeLog n env cs f =
    (case stack f of
       mStart # mSize # s \<Rightarrow>
         if length s < n then Inl GoPanic
         else bind_exec (mem_Get (big_Int64 mStart) (big_Int64 mSize) (mem f)) (\<lambda>d.
           done_op (write_db (db_AddLog (vm_db env)
             \<lparr> l_Address = self (contract f), Topics = map BigToHash (take n s), l_Data = d,
               l_BlockNumber = big_Uint64 (BlockNumber env), l_TxHash = 0, l_TxIndex = 0, l_BlockHash = 0,
               l_Index = 0, Removed = False \<rparr>) (f\<lparr> stack := drop n s \<rparr>)))
     | _ \<Rightarrow> Inl GoPanic)"

definition makePush :: "nat \<Rightarrow> 's executionFunc" where
  "makePush n env cs f =
    (let codeLen = int (length (Code (contract f)));
         startMin = (if sint (pc f + 1) < codeLen then sint (pc f + 1) else codeLen);
         endMin = (if startMin + int n < codeLen then startMin + int n else codeLen) in
     if startMin < 0 then Inl GoPanic
     else done_op (push (big_SetBytes (RightPadBytes
            (take (nat (endMin - startMin)) (drop (nat startMin) (Code (contract f)))) n))
          (f\<lparr> pc := pc f + word_of_nat n \<rparr>)))"

definition makeDup :: "nat \<Rightarrow> 's executionFunc" where
  "makeDup n env cs f =
    (if n \<le> length (stack f) then done_op (push (stack f ! (n - 1)) f) else Inl GoPanic)"

definition makeSwap :: "nat \<Rightarrow> 's executionFunc" where
  "makeSwap n env cs f =
    (if n < length (stack f) then done_op (f\<lparr> stack := (stack f)[0 := stack f ! n, n := stack f ! 0] \<rparr>)
     else Inl GoPanic)"

end
