(* ===== verification/Vm_Gas.thy ===== *)
theory Vm_Gas
  imports Vm_Instructions
begin

text \<open>
  The dynamic gas costs (\<open>core/vm/gas_table.go\<close>) and the memory an instruction needs
  (\<open>memory_table.go\<close>).  A gas function returns the cost or an error, and the frame, in which it may
  change the last memory fee, the gas set aside for a call and the refund counter.
\<close>

section \<open>Memory size (\<open>memory_table.go\<close>)\<close>

type_synonym memorySizeFunc = "bigint list \<Rightarrow> bigint exec"

definition peek :: "nat \<Rightarrow> bigint list \<Rightarrow> bigint exec" where
  "peek n st = (if n < length st then Inr (st ! n) else Inl GoPanic)"

definition mem_range :: "nat \<Rightarrow> nat \<Rightarrow> memorySizeFunc" where
  "mem_range i j st = bind_exec (peek i st) (\<lambda>off. bind_exec (peek j st) (\<lambda>l. Inr (calcMemSize off l)))"

definition memorySha3 :: memorySizeFunc where "memorySha3 = mem_range 0 1"

definition memoryCallDataCopy :: memorySizeFunc where "memoryCallDataCopy = mem_range 0 2"

definition memoryReturnDataCopy :: memorySizeFunc where "memoryReturnDataCopy = mem_range 0 2"

definition memoryCodeCopy :: memorySizeFunc where "memoryCodeCopy = mem_range 0 2"

definition memoryExtCodeCopy :: memorySizeFunc where "memoryExtCodeCopy = mem_range 1 3"

definition memoryMLoad :: memorySizeFunc where
  "memoryMLoad st = bind_exec (peek 0 st) (\<lambda>off. Inr (calcMemSize off 32))"

definition memoryMStore8 :: memorySizeFunc where
  "memoryMStore8 st = bind_exec (peek 0 st) (\<lambda>off. Inr (calcMemSize off 1))"

definition memoryMStore :: memorySizeFunc where
  "memoryMStore st = bind_exec (peek 0 st) (\<lambda>off. Inr (calcMemSize off 32))"

definition memoryCreate :: memorySizeFunc where "memoryCreate = mem_range 1 2"

definition memoryCreate2 :: memorySizeFunc where "memoryCreate2 = mem_range 1 2"

definition mem_max :: "memorySizeFunc \<Rightarrow> memorySizeFunc \<Rightarrow> memorySizeFunc" where
  "mem_max a b st = bind_exec (a st) (\<lambda>x. bind_exec (b st) (\<lambda>y. Inr (BigMax x y)))"

definition memoryCall :: memorySizeFunc where "memoryCall = mem_max (mem_range 5 6) (mem_range 3 4)"

definition memoryDelegateCall :: memorySizeFunc where
  "memoryDelegateCall = mem_max (mem_range 4 5) (mem_range 2 3)"

definition memoryStaticCall :: memorySizeFunc where
  "memoryStaticCall = mem_max (mem_range 4 5) (mem_range 2 3)"

definition memoryReturn :: memorySizeFunc where "memoryReturn = mem_range 0 1"

definition memoryRevert :: memorySizeFunc where "memoryRevert = mem_range 0 1"

definition memoryLog :: memorySizeFunc where "memoryLog = mem_range 0 1"

section \<open>Gas functions\<close>

type_synonym 's gasFunc = "'s Env \<Rightarrow> uint64 \<Rightarrow> 's Frame \<Rightarrow> ((vm_error + uint64) \<times> 's Frame) exec"

definition memoryGasCost :: "uint64 \<Rightarrow> Memory \<Rightarrow> (vm_error + uint64) \<times> Memory" where
  "memoryGasCost newMemSize0 m =
    (if newMemSize0 = 0 then (Inr 0, m)
     else if newMemSize0 > 0xffffffffe0 then (Inl errGasUintOverflow, m)
     else
       (let newMemSizeWords = toWordSize newMemSize0;
            newMemSize = newMemSizeWords * 32 in
        if unat newMemSize > mem_Len m then
          (let square = newMemSizeWords * newMemSizeWords;
               linCoef = newMemSizeWords * MemoryGas;
               quadCoef = square div QuadCoeffDiv;
               newTotalFee = linCoef + quadCoef in
           (Inr (newTotalFee - lastGasCost m), m\<lparr> lastGasCost := newTotalFee \<rparr>))
        else (Inr 0, m)))"

text \<open>\<open>SafeAdd\<close> and \<open>SafeMul\<close> with the error for an overflow.\<close>

definition add_gas :: "uint64 \<Rightarrow> uint64 \<Rightarrow> vm_error + uint64" where
  "add_gas x y = (case SafeAdd x y of (r, overflow) \<Rightarrow> if overflow then Inl errGasUintOverflow else Inr r)"

definition mul_gas :: "uint64 \<Rightarrow> uint64 \<Rightarrow> vm_error + uint64" where
  "mul_gas x y = (case SafeMul x y of (r, overflow) \<Rightarrow> if overflow then Inl errGasUintOverflow else Inr r)"

definition bind_gas :: "vm_error + 'a \<Rightarrow> ('a \<Rightarrow> vm_error + 'b) \<Rightarrow> vm_error + 'b" where
  "bind_gas m g = (case m of Inl e \<Rightarrow> Inl e | Inr x \<Rightarrow> g x)"

lemma bind_gas_simps [simp]: "bind_gas (Inl e) g = Inl e" "bind_gas (Inr x) g = g x"
  by (simp_all add: bind_gas_def)

text \<open>The cost of the words of a byte count on the stack.\<close>

definition word_gas :: "bigint \<Rightarrow> uint64 \<Rightarrow> vm_error + uint64" where
  "word_gas n price =
    (case bigUint64 n of (w, overflow) \<Rightarrow>
       if overflow then Inl errGasUintOverflow else mul_gas (toWordSize w) price)"

text \<open>The gas for the memory, to which a computation adds the rest.\<close>

definition with_memory_gas :: "(uint64 \<Rightarrow> vm_error + uint64) \<Rightarrow> uint64 \<Rightarrow> 's Frame \<Rightarrow> (vm_error + uint64) \<times> 's Frame" where
  "with_memory_gas g memorySize f =
    (case memoryGasCost memorySize (mem f) of
       (r, m) \<Rightarrow> (bind_gas r g, f\<lparr> mem := m \<rparr>))"

definition constGasFunc :: "uint64 \<Rightarrow> 's gasFunc" where
  "constGasFunc gas env memorySize f = Inr (Inr gas, f)"

definition gasCallDataCopy :: "'s gasFunc" where
  "gasCallDataCopy env memorySize f =
    bind_exec (Back 2 f) (\<lambda>n. Inr (with_memory_gas (\<lambda>gas.
      bind_gas (add_gas gas GasFastestStep) (\<lambda>gas. bind_gas (word_gas n CopyGas) (add_gas gas))) memorySize f))"

definition gasReturnDataCopy :: "'s gasFunc" where
  "gasReturnDataCopy env memorySize f =
    bind_exec (Back 2 f) (\<lambda>n. Inr (with_memory_gas (\<lambda>gas.
      bind_gas (add_gas gas GasFastestStep) (\<lambda>gas. bind_gas (word_gas n CopyGas) (add_gas gas))) memorySize f))"

text \<open>The refund counter, through the frame.\<close>

definition add_refund :: "'s Env \<Rightarrow> uint64 \<Rightarrow> 's Frame \<Rightarrow> 's Frame" where
  "add_refund env gas = write_db (db_AddRefund (vm_db env) gas)"

definition sub_refund :: "'s Env \<Rightarrow> uint64 \<Rightarrow> 's Frame \<Rightarrow> 's Frame exec" where
  "sub_refund env gas f =
    bind_exec (db_SubRefund (vm_db env) gas (StateDB (evm f))) (\<lambda>db. Inr (f\<lparr> evm := (evm f)\<lparr> StateDB := db \<rparr> \<rparr>))"

text \<open>The net gas metering of EIP 1283: the slot is changed from \<open>current\<close> to \<open>v\<close>.\<close>

definition net_sstore_refund :: "'s Env \<Rightarrow> hash \<Rightarrow> hash \<Rightarrow> hash \<Rightarrow> 's Frame \<Rightarrow> 's Frame exec" where
  "net_sstore_refund env original current v f =
    (if original \<noteq> 0 then
       (if current = 0 then sub_refund env NetSstoreClearRefund f
        else if v = 0 then Inr (add_refund env NetSstoreClearRefund f)
        else Inr f)
     else Inr f)"

definition net_sstore :: "'s Env \<Rightarrow> hash \<Rightarrow> hash \<Rightarrow> hash \<Rightarrow> 's Frame \<Rightarrow> ((vm_error + uint64) \<times> 's Frame) exec" where
  "net_sstore env key current v f =
    (if current = v then Inr (Inr NetSstoreNoopGas, f)
     else
       (case read_db (db_GetCommittedState (vm_db env) (self (contract f)) key) f of (original, f1) \<Rightarrow>
          if original = current then
            (if original = 0 then Inr (Inr NetSstoreInitGas, f1)
             else Inr (Inr NetSstoreCleanGas, if v = 0 then add_refund env NetSstoreClearRefund f1 else f1))
          else
            bind_exec (net_sstore_refund env original current v f1)
              (\<lambda>f2. Inr (Inr NetSstoreDirtyGas,
                 if original = v then
                   (if original = 0 then add_refund env NetSstoreResetClearRefund f2
                    else add_refund env NetSstoreResetRefund f2)
                 else f2))))"

definition gasSStore :: "'s gasFunc" where
  "gasSStore env memorySize f =
    bind_exec (Back 1 f) (\<lambda>y. bind_exec (Back 0 f) (\<lambda>x.
      case read_db (db_GetState (vm_db env) (self (contract f)) (BigToHash x)) f of (current, f1) \<Rightarrow>
        if r_IsPetersburg (chainRules env) \<or> \<not> r_IsConstantinople (chainRules env) then
          (if current = 0 \<and> y \<noteq> 0 then Inr (Inr SstoreSetGas, f1)
           else if current \<noteq> 0 \<and> y = 0 then Inr (Inr SstoreClearGas, add_refund env SstoreRefundGas f1)
           else Inr (Inr SstoreResetGas, f1))
        else net_sstore env (BigToHash x) current (BigToHash y) f1))"

definition makeGasLog :: "uint64 \<Rightarrow> 's gasFunc" where
  "makeGasLog n env memorySize f =
    bind_exec (Back 1 f) (\<lambda>sz.
      case bigUint64 sz of (requestedSize, overflow) \<Rightarrow>
        if overflow then Inr (Inl errGasUintOverflow, f)
        else Inr (with_memory_gas (\<lambda>gas.
          bind_gas (add_gas gas LogGas) (\<lambda>gas.
          bind_gas (add_gas gas (n * LogTopicGas)) (\<lambda>gas.
          bind_gas (mul_gas requestedSize LogDataGas) (add_gas gas)))) memorySize f))"

definition gasSha3 :: "'s gasFunc" where
  "gasSha3 env memorySize f =
    bind_exec (Back 1 f) (\<lambda>n. Inr (with_memory_gas (\<lambda>gas.
      bind_gas (add_gas gas Sha3Gas) (\<lambda>gas. bind_gas (word_gas n Sha3WordGas) (add_gas gas))) memorySize f))"

definition gasCodeCopy :: "'s gasFunc" where
  "gasCodeCopy env memorySize f =
    bind_exec (Back 2 f) (\<lambda>n. Inr (with_memory_gas (\<lambda>gas.
      bind_gas (add_gas gas GasFastestStep) (\<lambda>gas. bind_gas (word_gas n CopyGas) (add_gas gas))) memorySize f))"

definition gasExtCodeCopy :: "'s gasFunc" where
  "gasExtCodeCopy env memorySize f =
    bind_exec (Back 3 f) (\<lambda>n. Inr (with_memory_gas (\<lambda>gas.
      bind_gas (add_gas gas (ExtcodeCopy (gasTable env))) (\<lambda>gas. bind_gas (word_gas n CopyGas) (add_gas gas))) memorySize f))"

definition gasExtCodeHash :: "'s gasFunc" where
  "gasExtCodeHash env memorySize f = Inr (Inr (ExtcodeHash (gasTable env)), f)"

definition gasMLoad :: "'s gasFunc" where
  "gasMLoad env memorySize f = Inr (with_memory_gas (\<lambda>gas. add_gas gas GasFastestStep) memorySize f)"

definition gasMStore8 :: "'s gasFunc" where
  "gasMStore8 env memorySize f = Inr (with_memory_gas (\<lambda>gas. add_gas gas GasFastestStep) memorySize f)"

definition gasMStore :: "'s gasFunc" where
  "gasMStore env memorySize f = Inr (with_memory_gas (\<lambda>gas. add_gas gas GasFastestStep) memorySize f)"

definition gasCreate :: "'s gasFunc" where
  "gasCreate env memorySize f = Inr (with_memory_gas (\<lambda>gas. add_gas gas CreateGas) memorySize f)"

definition gasCreate2 :: "'s gasFunc" where
  "gasCreate2 env memorySize f =
    bind_exec (Back 2 f) (\<lambda>n. Inr (with_memory_gas (\<lambda>gas.
      bind_gas (add_gas gas Create2Gas) (\<lambda>gas. bind_gas (word_gas n Sha3WordGas) (add_gas gas))) memorySize f))"

definition gasBalance :: "'s gasFunc" where
  "gasBalance env memorySize f = Inr (Inr (Balance (gasTable env)), f)"

definition gasExtCodeSize :: "'s gasFunc" where
  "gasExtCodeSize env memorySize f = Inr (Inr (ExtcodeSize (gasTable env)), f)"

definition gasSLoad :: "'s gasFunc" where
  "gasSLoad env memorySize f = Inr (Inr (SLoad (gasTable env)), f)"

definition gasExp :: "'s gasFunc" where
  "gasExp env memorySize f =
    bind_exec (Back 1 f) (\<lambda>exponent.
      let expByteLen = word_of_nat ((BitLen exponent + 7) div 8) :: uint64 in
      Inr (add_gas (expByteLen * ExpByte (gasTable env)) ExpGas, f))"

text \<open>
  The end of the gas functions of the calls: the gas set aside for the call, by the rule of EIP 150, is
  remembered in \<open>callGasTemp\<close> and added to the cost.
\<close>

definition reserve_call_gas :: "'s Env \<Rightarrow> bigint \<Rightarrow> uint64 \<Rightarrow> 's Frame \<Rightarrow> (vm_error + uint64) \<times> 's Frame" where
  "reserve_call_gas env callCost gas f =
    (case callGas (gasTable env) (Gas (contract f)) gas callCost of
       Inl e \<Rightarrow> (Inl e, f\<lparr> evm := (evm f)\<lparr> callGasTemp := 0 \<rparr> \<rparr>)
     | Inr t \<Rightarrow> (add_gas gas t, f\<lparr> evm := (evm f)\<lparr> callGasTemp := t \<rparr> \<rparr>))"

definition memory_then_reserve :: "'s Env \<Rightarrow> bigint \<Rightarrow> uint64 \<Rightarrow> uint64 \<Rightarrow> 's Frame \<Rightarrow> (vm_error + uint64) \<times> 's Frame" where
  "memory_then_reserve env callCost base memorySize f =
    (case memoryGasCost memorySize (mem f) of
       (r, m) \<Rightarrow>
         (let f1 = f\<lparr> mem := m \<rparr> in
          case bind_gas r (add_gas base) of
            Inl e \<Rightarrow> (Inl e, f1)
          | Inr gas \<Rightarrow> reserve_call_gas env callCost gas f1))"

text \<open>Whether a call pays for a new account.\<close>

definition calls_new_account :: "'s Env \<Rightarrow> bool \<Rightarrow> address \<Rightarrow> 's Frame \<Rightarrow> bool \<times> 's Frame" where
  "calls_new_account env transfersValue address f =
    (if IsEIP158 (chainConfig env) (Some (BlockNumber env)) then
       (if transfersValue then read_db (db_Empty (vm_db env) address) f else (False, f))
     else (case read_db (db_Exist (vm_db env) address) f of (exist, f1) \<Rightarrow> (\<not> exist, f1)))"

definition gasCall :: "'s gasFunc" where
  "gasCall env memorySize f =
    bind_exec (Back 2 f) (\<lambda>v. bind_exec (Back 1 f) (\<lambda>a. bind_exec (Back 0 f) (\<lambda>callCost.
      case calls_new_account env (v \<noteq> 0) (BigToAddress a) f of (fresh, f1) \<Rightarrow>
        let gas1 = (if fresh then Calls (gasTable env) + CallNewAccountGas else Calls (gasTable env));
            gas2 = (if v \<noteq> 0 then gas1 + CallValueTransferGas else gas1)
        in Inr (memory_then_reserve env callCost gas2 memorySize f1))))"

definition gasCallCode :: "'s gasFunc" where
  "gasCallCode env memorySize f =
    bind_exec (Back 2 f) (\<lambda>v. bind_exec (Back 0 f) (\<lambda>callCost.
      let gas = (if v \<noteq> 0 then Calls (gasTable env) + CallValueTransferGas else Calls (gasTable env))
      in Inr (memory_then_reserve env callCost gas memorySize f)))"

definition gasReturn :: "'s gasFunc" where
  "gasReturn env memorySize f = Inr (with_memory_gas Inr memorySize f)"

definition gasRevert :: "'s gasFunc" where
  "gasRevert env memorySize f = Inr (with_memory_gas Inr memorySize f)"

text \<open>Whether a self-destruction pays for a new account.\<close>

definition suicide_new_account :: "'s Env \<Rightarrow> address \<Rightarrow> 's Frame \<Rightarrow> bool \<times> 's Frame" where
  "suicide_new_account env address f =
    (if IsEIP158 (chainConfig env) (Some (BlockNumber env)) then
       (case read_db (db_Empty (vm_db env) address) f of
          (True, f1) \<Rightarrow>
            (case read_db (db_GetBalance (vm_db env) (self (contract f))) f1 of (b, f2) \<Rightarrow> (b \<noteq> 0, f2))
        | (False, f1) \<Rightarrow> (False, f1))
     else (case read_db (db_Exist (vm_db env) address) f of (exist, f1) \<Rightarrow> (\<not> exist, f1)))"

definition gasSuicide :: "'s gasFunc" where
  "gasSuicide env memorySize f =
    bind_exec
      (if IsEIP150 (chainConfig env) (Some (BlockNumber env)) then
         bind_exec (Back 0 f) (\<lambda>a.
           case suicide_new_account env (BigToAddress a) f of (fresh, f1) \<Rightarrow>
             Inr (if fresh then Suicide (gasTable env) + CreateBySuicide (gasTable env) else Suicide (gasTable env), f1))
       else Inr (0, f))
      (\<lambda>(gas, f1).
         case read_db (db_HasSuicided (vm_db env) (self (contract f))) f1 of (already, f2) \<Rightarrow>
           Inr (Inr gas, if already then f2 else add_refund env SuicideRefundGas f2))"

definition gasDelegateCall :: "'s gasFunc" where
  "gasDelegateCall env memorySize f =
    bind_exec (Back 0 f) (\<lambda>callCost. Inr (memory_then_reserve env callCost (Calls (gasTable env)) memorySize f))"

definition gasStaticCall :: "'s gasFunc" where
  "gasStaticCall env memorySize f =
    bind_exec (Back 0 f) (\<lambda>callCost. Inr (memory_then_reserve env callCost (Calls (gasTable env)) memorySize f))"

definition gasPush :: "'s gasFunc" where
  "gasPush env memorySize f = Inr (Inr GasFastestStep, f)"

definition gasSwap :: "'s gasFunc" where
  "gasSwap env memorySize f = Inr (Inr GasFastestStep, f)"

definition gasDup :: "'s gasFunc" where
  "gasDup env memorySize f = Inr (Inr GasFastestStep, f)"

end
