(* ===== verification/Vm_Interpreter.thy ===== *)
theory Vm_Interpreter
  imports Vm_Gas Types
begin

text \<open>
  The jump table (\<open>core/vm/jump_table.go\<close>), the interpreter loop (\<open>interpreter.go\<close>) and the calls between
  contracts (\<open>evm.go\<close>, \<open>core/evm.go\<close>).  Tracing (\<open>cfg.Debug\<close>) is not represented.  The recursion of the
  loop and of the nested calls is bounded by fuel.
\<close>

section \<open>The jump table\<close>

record 's operation =
  execute :: "'s executionFunc"
  gasCost :: "'s gasFunc"
  validateStack :: "bigint list \<Rightarrow> vm_error option"
  memorySize :: "memorySizeFunc option"
  halts :: bool
  jumps :: bool
  writes :: bool
  valid :: bool
  reverts :: bool
  returns :: bool

definition op_entry :: "'s executionFunc \<Rightarrow> 's gasFunc \<Rightarrow> nat \<Rightarrow> nat \<Rightarrow> 's operation" where
  "op_entry ex gas pops pushes =
    \<lparr> execute = ex, gasCost = gas, validateStack = makeStackFunc pops pushes, memorySize = None,
      halts = False, jumps = False, writes = False, valid = True, reverts = False, returns = False \<rparr>"

text \<open>The zero value of the table entries that are not set.\<close>

definition no_operation :: "'s operation" where
  "no_operation =
    \<lparr> execute = (\<lambda>env cs f. Inl GoPanic), gasCost = (\<lambda>env m f. Inl GoPanic), validateStack = (\<lambda>_. None),
      memorySize = None, halts = False, jumps = False, writes = False, valid = False, reverts = False, returns = False \<rparr>"

definition push_entry :: "nat \<Rightarrow> OpCode \<times> 's operation" where
  "push_entry n = (PUSH1 + word_of_nat (n - 1), op_entry (makePush n) gasPush 0 1)"

definition dup_entry :: "nat \<Rightarrow> OpCode \<times> 's operation" where
  "dup_entry n = (DUP1 + word_of_nat (n - 1), (op_entry (makeDup n) gasDup 0 0)\<lparr> validateStack := makeDupStackFunc n \<rparr>)"

definition swap_entry :: "nat \<Rightarrow> OpCode \<times> 's operation" where
  "swap_entry n =
    (SWAP1 + word_of_nat (n - 1), (op_entry (makeSwap n) gasSwap 0 0)\<lparr> validateStack := makeSwapStackFunc (n + 1) \<rparr>)"

definition log_entry :: "nat \<Rightarrow> OpCode \<times> 's operation" where
  "log_entry n =
    (LOG0 + word_of_nat n,
     (op_entry (makeLog n) (makeGasLog (word_of_nat n)) (n + 2) 0)\<lparr> memorySize := Some memoryLog, writes := True \<rparr>)"

definition arithmetic_entries :: "(OpCode \<times> 's operation) list" where
  "arithmetic_entries =
    [(STOP, (op_entry opStop (constGasFunc 0) 0 0)\<lparr> halts := True \<rparr>),
     (ADD, op_entry opAdd (constGasFunc GasFastestStep) 2 1),
     (MUL, op_entry opMul (constGasFunc GasFastStep) 2 1),
     (SUB, op_entry opSub (constGasFunc GasFastestStep) 2 1),
     (DIV, op_entry opDiv (constGasFunc GasFastStep) 2 1),
     (SDIV, op_entry opSdiv (constGasFunc GasFastStep) 2 1),
     (MOD, op_entry opMod (constGasFunc GasFastStep) 2 1),
     (SMOD, op_entry opSmod (constGasFunc GasFastStep) 2 1),
     (ADDMOD, op_entry opAddmod (constGasFunc GasMidStep) 3 1),
     (MULMOD, op_entry opMulmod (constGasFunc GasMidStep) 3 1),
     (EXP, op_entry opExp gasExp 2 1),
     (SIGNEXTEND, op_entry opSignExtend (constGasFunc GasFastStep) 2 1),
     (LT, op_entry opLt (constGasFunc GasFastestStep) 2 1),
     (GT, op_entry opGt (constGasFunc GasFastestStep) 2 1),
     (SLT, op_entry opSlt (constGasFunc GasFastestStep) 2 1),
     (SGT, op_entry opSgt (constGasFunc GasFastestStep) 2 1),
     (EQ, op_entry opEq (constGasFunc GasFastestStep) 2 1),
     (ISZERO, op_entry opIszero (constGasFunc GasFastestStep) 1 1),
     (AND_OP, op_entry opAnd (constGasFunc GasFastestStep) 2 1),
     (XOR_OP, op_entry opXor (constGasFunc GasFastestStep) 2 1),
     (OR_OP, op_entry opOr (constGasFunc GasFastestStep) 2 1),
     (NOT_OP, op_entry opNot (constGasFunc GasFastestStep) 1 1),
     (BYTE, op_entry opByte (constGasFunc GasFastestStep) 2 1),
     (SHA3, (op_entry opSha3 gasSha3 2 1)\<lparr> memorySize := Some memorySha3 \<rparr>)]"

definition environment_entries :: "(OpCode \<times> 's operation) list" where
  "environment_entries =
    [(ADDRESS, op_entry opAddress (constGasFunc GasQuickStep) 0 1),
     (BALANCE, op_entry opBalance gasBalance 1 1),
     (ORIGIN, op_entry opOrigin (constGasFunc GasQuickStep) 0 1),
     (CALLER, op_entry opCaller (constGasFunc GasQuickStep) 0 1),
     (CALLVALUE, op_entry opCallValue (constGasFunc GasQuickStep) 0 1),
     (CALLDATALOAD, op_entry opCallDataLoad (constGasFunc GasFastestStep) 1 1),
     (CALLDATASIZE, op_entry opCallDataSize (constGasFunc GasQuickStep) 0 1),
     (CALLDATACOPY, (op_entry opCallDataCopy gasCallDataCopy 3 0)\<lparr> memorySize := Some memoryCallDataCopy \<rparr>),
     (CODESIZE, op_entry opCodeSize (constGasFunc GasQuickStep) 0 1),
     (CODECOPY, (op_entry opCodeCopy gasCodeCopy 3 0)\<lparr> memorySize := Some memoryCodeCopy \<rparr>),
     (GASPRICE, op_entry opGasprice (constGasFunc GasQuickStep) 0 1),
     (EXTCODESIZE, op_entry opExtCodeSize gasExtCodeSize 1 1),
     (EXTCODECOPY, (op_entry opExtCodeCopy gasExtCodeCopy 4 0)\<lparr> memorySize := Some memoryExtCodeCopy \<rparr>),
     (BLOCKHASH, op_entry opBlockhash (constGasFunc GasExtStep) 1 1),
     (COINBASE, op_entry opCoinbase (constGasFunc GasQuickStep) 0 1),
     (TIMESTAMP, op_entry opTimestamp (constGasFunc GasQuickStep) 0 1),
     (NUMBER, op_entry opNumber (constGasFunc GasQuickStep) 0 1),
     (DIFFICULTY, op_entry opDifficulty (constGasFunc GasQuickStep) 0 1),
     (GASLIMIT, op_entry opGasLimit (constGasFunc GasQuickStep) 0 1)]"

definition flow_entries :: "(OpCode \<times> 's operation) list" where
  "flow_entries =
    [(POP, op_entry opPop (constGasFunc GasQuickStep) 1 0),
     (MLOAD, (op_entry opMload gasMLoad 1 1)\<lparr> memorySize := Some memoryMLoad \<rparr>),
     (MSTORE, (op_entry opMstore gasMStore 2 0)\<lparr> memorySize := Some memoryMStore \<rparr>),
     (MSTORE8, (op_entry opMstore8 gasMStore8 2 0)\<lparr> memorySize := Some memoryMStore8 \<rparr>),
     (SLOAD, op_entry opSload gasSLoad 1 1),
     (SSTORE, (op_entry opSstore gasSStore 2 0)\<lparr> writes := True \<rparr>),
     (JUMP, (op_entry opJump (constGasFunc GasMidStep) 1 0)\<lparr> jumps := True \<rparr>),
     (JUMPI, (op_entry opJumpi (constGasFunc GasSlowStep) 2 0)\<lparr> jumps := True \<rparr>),
     (PC, op_entry opPc (constGasFunc GasQuickStep) 0 1),
     (MSIZE, op_entry opMsize (constGasFunc GasQuickStep) 0 1),
     (GAS, op_entry opGas (constGasFunc GasQuickStep) 0 1),
     (JUMPDEST, op_entry opJumpdest (constGasFunc JumpdestGas) 0 0)]"

definition call_entries :: "(OpCode \<times> 's operation) list" where
  "call_entries =
    [(CREATE, (op_entry opCreate gasCreate 3 1)\<lparr> memorySize := Some memoryCreate, writes := True, returns := True \<rparr>),
     (CALL, (op_entry opCall gasCall 7 1)\<lparr> memorySize := Some memoryCall, returns := True \<rparr>),
     (CALLCODE, (op_entry opCallCode gasCallCode 7 1)\<lparr> memorySize := Some memoryCall, returns := True \<rparr>),
     (RETURN, (op_entry opReturn gasReturn 2 0)\<lparr> memorySize := Some memoryReturn, halts := True \<rparr>),
     (SELFDESTRUCT, (op_entry opSuicide gasSuicide 1 0)\<lparr> halts := True, writes := True \<rparr>)]"

definition frontier_entries :: "(OpCode \<times> 's operation) list" where
  "frontier_entries =
    arithmetic_entries @ environment_entries @ flow_entries @
    map push_entry [1..<33] @ map dup_entry [1..<17] @ map swap_entry [1..<17] @ map log_entry [0..<5] @
    call_entries"

type_synonym 's JumpTable = "OpCode \<Rightarrow> 's operation"

definition newFrontierInstructionSet :: "'s JumpTable" where
  "newFrontierInstructionSet op =
    (case map_of frontier_entries op of Some operation \<Rightarrow> operation | None \<Rightarrow> no_operation)"

definition newHomesteadInstructionSet :: "'s JumpTable" where
  "newHomesteadInstructionSet = newFrontierInstructionSet(
     DELEGATECALL := (op_entry opDelegateCall gasDelegateCall 6 1)\<lparr> memorySize := Some memoryDelegateCall, returns := True \<rparr>)"

definition newByzantiumInstructionSet :: "'s JumpTable" where
  "newByzantiumInstructionSet = newHomesteadInstructionSet(
     STATICCALL := (op_entry opStaticCall gasStaticCall 6 1)\<lparr> memorySize := Some memoryStaticCall, returns := True \<rparr>,
     RETURNDATASIZE := op_entry opReturnDataSize (constGasFunc GasQuickStep) 0 1,
     RETURNDATACOPY := (op_entry opReturnDataCopy gasReturnDataCopy 3 0)\<lparr> memorySize := Some memoryReturnDataCopy \<rparr>,
     REVERT := (op_entry opRevert gasRevert 2 0)\<lparr> memorySize := Some memoryRevert, reverts := True, returns := True \<rparr>)"

definition newConstantinopleInstructionSet :: "'s JumpTable" where
  "newConstantinopleInstructionSet = newByzantiumInstructionSet(
     SHL := op_entry opSHL (constGasFunc GasFastestStep) 2 1,
     SHR := op_entry opSHR (constGasFunc GasFastestStep) 2 1,
     SAR := op_entry opSAR (constGasFunc GasFastestStep) 2 1,
     EXTCODEHASH := op_entry opExtCodeHash gasExtCodeHash 1 1,
     CREATE2 := (op_entry opCreate2 gasCreate2 4 1)\<lparr> memorySize := Some memoryCreate2, writes := True, returns := True \<rparr>)"

text \<open>The table \<open>NewEVMInterpreter\<close> selects when the configuration brings none.\<close>

definition NewEVMInterpreter_table :: "'s Env \<Rightarrow> 's JumpTable" where
  "NewEVMInterpreter_table env =
    (if IsConstantinople (chainConfig env) (Some (BlockNumber env)) then newConstantinopleInstructionSet
     else if IsByzantium (chainConfig env) (Some (BlockNumber env)) then newByzantiumInstructionSet
     else if IsHomestead (chainConfig env) (Some (BlockNumber env)) then newHomesteadInstructionSet
     else newFrontierInstructionSet)"

section \<open>The interpreter loop (\<open>interpreter.go\<close>)\<close>

definition enforceRestrictions :: "'s Env \<Rightarrow> OpCode \<Rightarrow> 's operation \<Rightarrow> 's Frame \<Rightarrow> vm_error option exec" where
  "enforceRestrictions env op operation f =
    (if r_IsByzantium (chainRules env) \<and> readOnly (evm f) then
       (if writes operation then Inr (Some errWriteProtection)
        else if op = CALL then
          bind_exec (Back 2 f) (\<lambda>v. Inr (if BitLen v > 0 then Some errWriteProtection else None))
        else Inr None)
     else Inr None)"

text \<open>The memory size an operation asks for, rounded up to words.\<close>

definition memory_request :: "'s operation \<Rightarrow> 's Frame \<Rightarrow> (vm_error + uint64) exec" where
  "memory_request operation f =
    (case memorySize operation of
       None \<Rightarrow> Inr (Inr 0)
     | Some g \<Rightarrow>
         bind_exec (g (stack f)) (\<lambda>sz.
           case bigUint64 sz of (memSize, overflow) \<Rightarrow>
             if overflow then Inr (Inl errGasUintOverflow)
             else Inr (mul_gas (toWordSize memSize) 32)))"

datatype 's step_result = Continue "'s Frame" | Halt bytes "vm_error option" "'s Frame"

text \<open>The end of an iteration: what the flags of the operation do with the result of \<open>execute\<close>.\<close>

definition after_execute :: "'s operation \<Rightarrow> bytes \<times> vm_error option \<times> 's Frame \<Rightarrow> 's step_result" where
  "after_execute operation r =
    (case r of (res, err, f) \<Rightarrow>
      let f1 = (if returns operation then f\<lparr> evm := (evm f)\<lparr> returnData := res \<rparr> \<rparr> else f) in
      case err of
        Some e \<Rightarrow> Halt [] (Some e) f1
      | None \<Rightarrow>
          if reverts operation then Halt res (Some errExecutionReverted) f1
          else if halts operation then Halt res None f1
          else if jumps operation then Continue f1
          else Continue (f1\<lparr> pc := pc f1 + 1 \<rparr>))"

text \<open>The gas is charged, the memory resized and the operation executed.\<close>

definition charge_and_execute :: "'s Env \<Rightarrow> 's Calls \<Rightarrow> 's operation \<Rightarrow> uint64 \<Rightarrow> 's Frame \<Rightarrow> 's step_result exec" where
  "charge_and_execute env cs operation memSize f =
    bind_exec (gasCost operation env memSize f) (\<lambda>(r, f1).
      case r of
        Inl e \<Rightarrow> Inr (Halt [] (Some ErrOutOfGas) f1)
      | Inr cost \<Rightarrow>
          (case UseGas cost (contract f1) of
             (False, c) \<Rightarrow> Inr (Halt [] (Some ErrOutOfGas) f1)
           | (True, c) \<Rightarrow>
               (let f2 = f1\<lparr> contract := c, mem := (if memSize > 0 then mem_Resize memSize (mem f1) else mem f1) \<rparr>
                in bind_exec (execute operation env cs f2) (\<lambda>r. Inr (after_execute operation r)))))"

definition step :: "'s Env \<Rightarrow> 's Calls \<Rightarrow> 's Frame \<Rightarrow> 's step_result exec" where
  "step env cs f =
    (let op = GetOp (contract f) (pc f); operation = NewEVMInterpreter_table env op in
     if \<not> valid operation then Inr (Halt [] (Some (errInvalidOpcode op)) f)
     else case validateStack operation (stack f) of
       Some e \<Rightarrow> Inr (Halt [] (Some e) f)
     | None \<Rightarrow>
         bind_exec (enforceRestrictions env op operation f) (\<lambda>err. case err of
           Some e \<Rightarrow> Inr (Halt [] (Some e) f)
         | None \<Rightarrow>
             bind_exec (memory_request operation f) (\<lambda>r. case r of
               Inl e \<Rightarrow> Inr (Halt [] (Some e) f)
             | Inr memSize \<Rightarrow> charge_and_execute env cs operation memSize f)))"

primrec run_loop :: "nat \<Rightarrow> 's Env \<Rightarrow> 's Calls \<Rightarrow> 's Frame \<Rightarrow> (bytes \<times> vm_error option \<times> 's Frame) exec" where
  "run_loop 0 env cs f = Inl FuelExhausted"
| "run_loop (Suc n) env cs f =
    (if evm_abort (evm f) then Inr ([], None, f)
     else bind_exec (step env cs f) (\<lambda>r. case r of
       Continue f1 \<Rightarrow> run_loop n env cs f1
     | Halt res err f1 \<Rightarrow> Inr (res, err, f1)))"

text \<open>
  \<open>Run\<close> with the nested calls \<open>cs\<close>; it returns the contract, whose gas the caller reads.  The deferred
  functions restore the depth and the read-only flag.
\<close>

definition Run :: "nat \<Rightarrow> 's Calls \<Rightarrow> 's Env \<Rightarrow> Contract \<Rightarrow> bytes \<Rightarrow> bool \<Rightarrow> 's EVM \<Rightarrow>
    (bytes \<times> vm_error option \<times> Contract \<times> 's EVM) exec" where
  "Run n cs env c input ro e0 =
    (let e = e0\<lparr> depth := depth e0 + 1, readOnly := (if ro then True else readOnly e0), returnData := [] \<rparr>;
         leave = (\<lambda>e1. e1\<lparr> depth := depth e1 - 1,
                          readOnly := (if ro \<and> \<not> readOnly e0 then False else readOnly e1) \<rparr>) in
     if Code c = [] then Inr ([], None, c, leave e)
     else bind_exec (run_loop n env cs
            \<lparr> pc = 0, stack = [], mem = NewMemory, contract = c\<lparr> Input := input \<rparr>, evm = e \<rparr>)
          (\<lambda>(ret, err, f). Inr (ret, err, contract f, leave (evm f))))"

section \<open>Calls (\<open>evm.go\<close>, \<open>core/evm.go\<close>)\<close>

definition CanTransfer :: "'s Env \<Rightarrow> address \<Rightarrow> bigint \<Rightarrow> 's \<Rightarrow> bool \<times> 's" where
  "CanTransfer env addr amount db = (case db_GetBalance (vm_db env) addr db of (b, db1) \<Rightarrow> (b \<ge> amount, db1))"

definition Transfer :: "'s Env \<Rightarrow> address \<Rightarrow> address \<Rightarrow> bigint \<Rightarrow> 's \<Rightarrow> 's" where
  "Transfer env sender recipient amount db =
    db_AddBalance (vm_db env) recipient amount (db_SubBalance (vm_db env) sender amount db)"

definition precompiles :: "'s Env \<Rightarrow> address \<Rightarrow> precompile option" where
  "precompiles env =
    (if IsByzantium (chainConfig env) (Some (BlockNumber env)) then PrecompiledContractsByzantium env
     else PrecompiledContractsHomestead env)"

definition RunPrecompiledContract :: "precompile \<Rightarrow> bytes \<Rightarrow> Contract \<Rightarrow> bytes \<times> vm_error option \<times> Contract" where
  "RunPrecompiledContract p input c =
    (case UseGas (RequiredGas p input) c of
       (True, c1) \<Rightarrow> (case p_Run p input of (ret, err) \<Rightarrow> (ret, err, c1))
     | (False, c1) \<Rightarrow> ([], Some ErrOutOfGas, c1))"

text \<open>\<open>run\<close>: a precompiled contract or the interpreter, which can run any code.\<close>

definition evm_run :: "nat \<Rightarrow> 's Calls \<Rightarrow> 's Env \<Rightarrow> Contract \<Rightarrow> bytes \<Rightarrow> bool \<Rightarrow> 's EVM \<Rightarrow>
    (bytes \<times> vm_error option \<times> Contract \<times> 's EVM) exec" where
  "evm_run n cs env c input ro e =
    (case (case CodeAddr c of None \<Rightarrow> None | Some a \<Rightarrow> precompiles env a) of
       Some p \<Rightarrow> (case RunPrecompiledContract p input c of (ret, err, c1) \<Rightarrow> Inr (ret, err, c1, e))
     | None \<Rightarrow> Run n cs env c input ro e)"

text \<open>The machine after an operation on its database.\<close>

definition on_db :: "('s \<Rightarrow> 's) \<Rightarrow> 's EVM \<Rightarrow> 's EVM" where
  "on_db g e = e\<lparr> StateDB := g (StateDB e) \<rparr>"

definition ask_db :: "('s \<Rightarrow> 'a \<times> 's) \<Rightarrow> 's EVM \<Rightarrow> 'a \<times> 's EVM" where
  "ask_db g e = (case g (StateDB e) of (x, db) \<Rightarrow> (x, e\<lparr> StateDB := db \<rparr>))"

definition revert_db :: "'s Env \<Rightarrow> int \<Rightarrow> 's EVM \<Rightarrow> 's EVM exec" where
  "revert_db env snapshot e =
    bind_exec (db_RevertToSnapshot (vm_db env) snapshot (StateDB e)) (\<lambda>db. Inr (e\<lparr> StateDB := db \<rparr>))"

text \<open>
  The end of the four calls: an error reverts the state, and consumes the gas unless the execution was
  reverted by the contract.
\<close>

definition leave_call :: "'s Env \<Rightarrow> int \<Rightarrow> bytes \<times> vm_error option \<times> Contract \<times> 's EVM \<Rightarrow>
    (bytes \<times> uint64 \<times> vm_error option \<times> 's EVM) exec" where
  "leave_call env snapshot r =
    (case r of (ret, err, c, e) \<Rightarrow>
      case err of
        None \<Rightarrow> Inr (ret, Gas c, None, e)
      | Some x \<Rightarrow>
          bind_exec (revert_db env snapshot e) (\<lambda>e1.
            Inr (ret, if x \<noteq> errExecutionReverted then Gas (snd (UseGas (Gas c) c)) else Gas c, Some x, e1)))"

text \<open>A contract with the code of an address, from the database.\<close>

definition load_code :: "'s Env \<Rightarrow> address \<Rightarrow> Contract \<Rightarrow> 's EVM \<Rightarrow> Contract \<times> 's EVM" where
  "load_code env addr c e =
    (case ask_db (db_GetCodeHash (vm_db env) addr) e of (hash, e1) \<Rightarrow>
       (case ask_db (db_GetCode (vm_db env) addr) e1 of (code, e2) \<Rightarrow> (SetCallCode addr hash code c, e2)))"

definition enter :: "ContractRef \<Rightarrow> 's EVM \<Rightarrow> 's EVM" where
  "enter caller e = e\<lparr> jumpdests := inherited_jumpdests caller (jumpdests e) \<rparr>"

definition Call :: "nat \<Rightarrow> 's Calls \<Rightarrow> 's Env \<Rightarrow> ContractRef \<Rightarrow> address \<Rightarrow> bytes \<Rightarrow> uint64 \<Rightarrow> bigint \<Rightarrow> 's EVM \<Rightarrow>
    (bytes \<times> uint64 \<times> vm_error option \<times> 's EVM) exec" where
  "Call n cs env caller addr input gas v e =
    (if NoRecursion env \<and> depth e > 0 then Inr ([], gas, None, e)
     else if depth e > unat CallCreateDepth then Inr ([], gas, Some ErrDepth, e)
     else
       (case ask_db (CanTransfer env (ref_Address caller) v) e of
          (False, e1) \<Rightarrow> Inr ([], gas, Some ErrInsufficientBalance, e1)
        | (True, e1) \<Rightarrow>
            (case ask_db (db_Snapshot (vm_db env)) e1 of (snapshot, e2) \<Rightarrow>
               (case ask_db (db_Exist (vm_db env) addr) e2 of (exist, e3) \<Rightarrow>
                  if \<not> exist \<and> precompiles env addr = None \<and> IsEIP158 (chainConfig env) (Some (BlockNumber env)) \<and> v = 0
                  then Inr ([], gas, None, e3)
                  else
                    (let e4 = (if exist then e3 else on_db (db_CreateAccount (vm_db env) addr) e3);
                         e5 = on_db (Transfer env (ref_Address caller) addr v) e4 in
                     case load_code env addr (NewContract caller addr (Some v) gas) (enter caller e5) of (c, e6) \<Rightarrow>
                       bind_exec (evm_run n cs env c input False e6) (leave_call env snapshot))))))"

definition CallCode :: "nat \<Rightarrow> 's Calls \<Rightarrow> 's Env \<Rightarrow> ContractRef \<Rightarrow> address \<Rightarrow> bytes \<Rightarrow> uint64 \<Rightarrow> bigint \<Rightarrow> 's EVM \<Rightarrow>
    (bytes \<times> uint64 \<times> vm_error option \<times> 's EVM) exec" where
  "CallCode n cs env caller addr input gas v e =
    (if NoRecursion env \<and> depth e > 0 then Inr ([], gas, None, e)
     else if depth e > unat CallCreateDepth then Inr ([], gas, Some ErrDepth, e)
     else
       (case ask_db (CanTransfer env (ref_Address caller) v) e of
          (False, e1) \<Rightarrow> Inr ([], gas, Some ErrInsufficientBalance, e1)
        | (True, e1) \<Rightarrow>
            (case ask_db (db_Snapshot (vm_db env)) e1 of (snapshot, e2) \<Rightarrow>
               (case load_code env addr (NewContract caller (ref_Address caller) (Some v) gas) (enter caller e2) of (c, e3) \<Rightarrow>
                  bind_exec (evm_run n cs env c input False e3) (leave_call env snapshot)))))"

definition DelegateCall :: "nat \<Rightarrow> 's Calls \<Rightarrow> 's Env \<Rightarrow> ContractRef \<Rightarrow> address \<Rightarrow> bytes \<Rightarrow> uint64 \<Rightarrow> 's EVM \<Rightarrow>
    (bytes \<times> uint64 \<times> vm_error option \<times> 's EVM) exec" where
  "DelegateCall n cs env caller addr input gas e =
    (if NoRecursion env \<and> depth e > 0 then Inr ([], gas, None, e)
     else if depth e > unat CallCreateDepth then Inr ([], gas, Some ErrDepth, e)
     else
       (case ask_db (db_Snapshot (vm_db env)) e of (snapshot, e1) \<Rightarrow>
          bind_exec (AsDelegate caller (NewContract caller (ref_Address caller) None gas)) (\<lambda>c0.
            case load_code env addr c0 (enter caller e1) of (c, e2) \<Rightarrow>
              bind_exec (evm_run n cs env c input False e2) (leave_call env snapshot))))"

definition StaticCall :: "nat \<Rightarrow> 's Calls \<Rightarrow> 's Env \<Rightarrow> ContractRef \<Rightarrow> address \<Rightarrow> bytes \<Rightarrow> uint64 \<Rightarrow> 's EVM \<Rightarrow>
    (bytes \<times> uint64 \<times> vm_error option \<times> 's EVM) exec" where
  "StaticCall n cs env caller addr input gas e =
    (if NoRecursion env \<and> depth e > 0 then Inr ([], gas, None, e)
     else if depth e > unat CallCreateDepth then Inr ([], gas, Some ErrDepth, e)
     else
       (case ask_db (db_Snapshot (vm_db env)) e of (snapshot, e1) \<Rightarrow>
          (case load_code env addr (NewContract caller addr (Some 0) gas) (enter caller e1) of (c, e2) \<Rightarrow>
             (let e3 = on_db (db_AddBalance (vm_db env) addr 0) e2 in
              bind_exec (evm_run n cs env c input True e3) (leave_call env snapshot)))))"

section \<open>Creation\<close>

definition CreateAddress :: "(bytes \<Rightarrow> hash) \<Rightarrow> address \<Rightarrow> uint64 \<Rightarrow> address" where
  "CreateAddress keccak b nonce =
    BytesToAddress (drop 12 (Hash_Bytes (keccak
      (case EncodeToBytes (VList [VAddress b, VUint nonce]) of Inl e \<Rightarrow> [] | Inr data \<Rightarrow> data))))"

definition CreateAddress2 :: "(bytes \<Rightarrow> hash) \<Rightarrow> address \<Rightarrow> hash \<Rightarrow> bytes \<Rightarrow> address" where
  "CreateAddress2 keccak b salt inithash =
    BytesToAddress (drop 12 (Hash_Bytes (keccak ([0xff] @ Address_Bytes b @ Hash_Bytes salt @ inithash))))"

text \<open>
  The end of \<open>create\<close>: the returned code is charged for and stored, or the state is reverted.
\<close>

definition store_code :: "'s Env \<Rightarrow> address \<Rightarrow> bytes \<times> vm_error option \<times> Contract \<times> 's EVM \<Rightarrow>
    vm_error option \<times> Contract \<times> 's EVM" where
  "store_code env address r =
    (case r of (ret, err, c, e) \<Rightarrow>
      if err = None \<and> \<not> (IsEIP158 (chainConfig env) (Some (BlockNumber env)) \<and> length ret > MaxCodeSize) then
        (case UseGas (word_of_nat (length ret) * CreateDataGas) c of
           (True, c1) \<Rightarrow> (None, c1, on_db (db_SetCode (vm_db env) address ret) e)
         | (False, c1) \<Rightarrow> (Some ErrCodeStoreOutOfGas, c1, e))
      else (err, c, e))"

definition leave_create :: "'s Env \<Rightarrow> int \<Rightarrow> address \<Rightarrow> bytes \<times> vm_error option \<times> Contract \<times> 's EVM \<Rightarrow>
    (bytes \<times> address \<times> uint64 \<times> vm_error option \<times> 's EVM) exec" where
  "leave_create env snapshot address r =
    (let ret = fst r;
         maxCodeSizeExceeded = (IsEIP158 (chainConfig env) (Some (BlockNumber env)) \<and> length ret > MaxCodeSize) in
     case store_code env address r of (err, c, e) \<Rightarrow>
       bind_exec
         (if maxCodeSizeExceeded \<or>
             (err \<noteq> None \<and> (IsHomestead (chainConfig env) (Some (BlockNumber env)) \<or> err \<noteq> Some ErrCodeStoreOutOfGas))
          then bind_exec (revert_db env snapshot e) (\<lambda>e1.
                 Inr (if err \<noteq> Some errExecutionReverted then snd (UseGas (Gas c) c) else c, e1))
          else Inr (c, e))
         (\<lambda>(c1, e1).
            let err1 = (if maxCodeSizeExceeded \<and> err = None then Some errMaxCodeSizeExceeded else err) in
            Inr (ret, address, Gas c1, err1, e1)))"

definition create :: "nat \<Rightarrow> 's Calls \<Rightarrow> 's Env \<Rightarrow> ContractRef \<Rightarrow> bytes \<Rightarrow> hash \<Rightarrow> uint64 \<Rightarrow> bigint \<Rightarrow> address \<Rightarrow> 's EVM \<Rightarrow>
    (bytes \<times> address \<times> uint64 \<times> vm_error option \<times> 's EVM) exec" where
  "create n cs env caller code hash gas v address e =
    (if depth e > unat CallCreateDepth then Inr ([], 0, gas, Some ErrDepth, e)
     else
       (case ask_db (CanTransfer env (ref_Address caller) v) e of
          (False, e1) \<Rightarrow> Inr ([], 0, gas, Some ErrInsufficientBalance, e1)
        | (True, e1) \<Rightarrow>
            (case ask_db (db_GetNonce (vm_db env) (ref_Address caller)) e1 of (nonce, e2) \<Rightarrow>
             let e3 = on_db (db_SetNonce (vm_db env) (ref_Address caller) (nonce + 1)) e2 in
             case ask_db (db_GetCodeHash (vm_db env) address) e3 of (contractHash, e4) \<Rightarrow>
             case ask_db (db_GetNonce (vm_db env) address) e4 of (nonce1, e5) \<Rightarrow>
               if nonce1 \<noteq> 0 \<or> (contractHash \<noteq> 0 \<and> contractHash \<noteq> vm_keccak env []) then
                 Inr ([], 0, 0, Some ErrContractAddressCollision, e5)
               else
                 (case ask_db (db_Snapshot (vm_db env)) e5 of (snapshot, e6) \<Rightarrow>
                  let e7 = on_db (db_CreateAccount (vm_db env) address) e6;
                      e8 = (if IsEIP158 (chainConfig env) (Some (BlockNumber env))
                            then on_db (db_SetNonce (vm_db env) address 1) e7 else e7);
                      e9 = on_db (Transfer env (ref_Address caller) address v) e8;
                      c = SetCodeOptionalHash address code hash (NewContract caller address (Some v) gas) in
                  if NoRecursion env \<and> depth e9 > 0 then Inr ([], address, gas, None, enter caller e9)
                  else bind_exec (evm_run n cs env c [] False (enter caller e9)) (leave_create env snapshot address)))))"

definition Create :: "nat \<Rightarrow> 's Calls \<Rightarrow> 's Env \<Rightarrow> ContractRef \<Rightarrow> bytes \<Rightarrow> uint64 \<Rightarrow> bigint \<Rightarrow> 's EVM \<Rightarrow>
    (bytes \<times> address \<times> uint64 \<times> vm_error option \<times> 's EVM) exec" where
  "Create n cs env caller code gas v e =
    (case ask_db (db_GetNonce (vm_db env) (ref_Address caller)) e of (nonce, e1) \<Rightarrow>
       create n cs env caller code 0 gas v (CreateAddress (vm_keccak env) (ref_Address caller) nonce) e1)"

definition Create2 :: "nat \<Rightarrow> 's Calls \<Rightarrow> 's Env \<Rightarrow> ContractRef \<Rightarrow> bytes \<Rightarrow> uint64 \<Rightarrow> bigint \<Rightarrow> bigint \<Rightarrow> 's EVM \<Rightarrow>
    (bytes \<times> address \<times> uint64 \<times> vm_error option \<times> 's EVM) exec" where
  "Create2 n cs env caller code gas endowment salt e =
    (let hash = vm_keccak env code in
     create n cs env caller code hash gas endowment
       (CreateAddress2 (vm_keccak env) (ref_Address caller) (BigToHash salt) (Hash_Bytes hash)) e)"

text \<open>The nested calls with a given fuel; each level uses the calls with less.\<close>

definition no_calls :: "'s Calls" where
  "no_calls =
    \<lparr> c_Call = (\<lambda>_ _ _ _ _ _. Inl FuelExhausted), c_CallCode = (\<lambda>_ _ _ _ _ _. Inl FuelExhausted),
      c_DelegateCall = (\<lambda>_ _ _ _ _. Inl FuelExhausted), c_StaticCall = (\<lambda>_ _ _ _ _. Inl FuelExhausted),
      c_Create = (\<lambda>_ _ _ _ _. Inl FuelExhausted), c_Create2 = (\<lambda>_ _ _ _ _ _. Inl FuelExhausted) \<rparr>"

primrec evm_calls :: "nat \<Rightarrow> 's Env \<Rightarrow> 's Calls" where
  "evm_calls 0 env = no_calls"
| "evm_calls (Suc n) env =
    \<lparr> c_Call = Call n (evm_calls n env) env, c_CallCode = CallCode n (evm_calls n env) env,
      c_DelegateCall = DelegateCall n (evm_calls n env) env, c_StaticCall = StaticCall n (evm_calls n env) env,
      c_Create = Create n (evm_calls n env) env, c_Create2 = Create2 n (evm_calls n env) env \<rparr>"

section \<open>The machine as a whole\<close>

text \<open>\<open>NewEVM\<close> on a database; the panic is the missing EWASM interpreter.\<close>

definition NewEVM :: "'s Env \<Rightarrow> 's \<Rightarrow> 's EVM exec" where
  "NewEVM env db =
    (if IsEWASM (chainConfig env) (Some (BlockNumber env)) then Inl GoPanic
     else Inr \<lparr> StateDB = db, depth = 0, evm_abort = False, callGasTemp = 0, readOnly = False,
                returnData = [], jumpdests = [] \<rparr>)"

definition evm_Reset :: "'s EVM \<Rightarrow> 's EVM" where
  "evm_Reset e = e\<lparr> depth := 0, evm_abort := False, callGasTemp := 0 \<rparr>"

definition Cancel :: "'s EVM \<Rightarrow> 's EVM" where
  "Cancel e = e\<lparr> evm_abort := True \<rparr>"

end
