(* ===== verification/Vm_Charges.thy ===== *)
theory Vm_Charges
  imports Vm_Interpreter
begin

text \<open>
  What the instructions do to the gas of the frame they run in.  An execution function other than those of
  the calls and the creations leaves it alone (\<open>keeps_gas\<close>); a gas function charges a positive amount
  (\<open>charges\<close>), and that of a call covers what the call hands on (\<open>charges_call\<close>).  None of them runs out of
  fuel, which is a matter of the nested calls only.
\<close>

section \<open>Bounds on the gas\<close>

abbreviation frame_gas :: "'s Frame \<Rightarrow> nat" where
  "frame_gas f \<equiv> unat (Gas (contract f))"

text \<open>What the nested calls are assumed to do: they return no more gas than they get.\<close>

definition call_gas :: "(bytes \<times> uint64 \<times> vm_error option \<times> 's EVM) exec \<Rightarrow> uint64 \<Rightarrow> bool" where
  "call_gas r gas \<longleftrightarrow> (\<forall>ret g err e. r = Inr (ret, g, err, e) \<longrightarrow> g \<le> gas)"

definition create_gas :: "(bytes \<times> address \<times> uint64 \<times> vm_error option \<times> 's EVM) exec \<Rightarrow> uint64 \<Rightarrow> bool" where
  "create_gas r gas \<longleftrightarrow> (\<forall>ret a g err e. r = Inr (ret, a, g, err, e) \<longrightarrow> g \<le> gas)"

definition calls_gas :: "'s Calls \<Rightarrow> bool" where
  "calls_gas cs \<longleftrightarrow>
    (\<forall>r a i g v e. call_gas (c_Call cs r a i g v e) g) \<and>
    (\<forall>r a i g v e. call_gas (c_CallCode cs r a i g v e) g) \<and>
    (\<forall>r a i g e. call_gas (c_DelegateCall cs r a i g e) g) \<and>
    (\<forall>r a i g e. call_gas (c_StaticCall cs r a i g e) g) \<and>
    (\<forall>r i g v e. create_gas (c_Create cs r i g v e) g) \<and>
    (\<forall>r i g v s e. create_gas (c_Create2 cs r i g v s e) g)"

text \<open>They return, rather than run out of fuel, when they get less gas than a bound.\<close>

definition calls_return :: "'s Calls \<Rightarrow> nat \<Rightarrow> bool" where
  "calls_return cs b \<longleftrightarrow>
    (\<forall>r a i g v e. unat g < b \<longrightarrow> c_Call cs r a i g v e \<noteq> Inl FuelExhausted) \<and>
    (\<forall>r a i g v e. unat g < b \<longrightarrow> c_CallCode cs r a i g v e \<noteq> Inl FuelExhausted) \<and>
    (\<forall>r a i g e. unat g < b \<longrightarrow> c_DelegateCall cs r a i g e \<noteq> Inl FuelExhausted) \<and>
    (\<forall>r a i g e. unat g < b \<longrightarrow> c_StaticCall cs r a i g e \<noteq> Inl FuelExhausted) \<and>
    (\<forall>r i g v e. unat g < b \<longrightarrow> c_Create cs r i g v e \<noteq> Inl FuelExhausted) \<and>
    (\<forall>r i g v s e. unat g < b \<longrightarrow> c_Create2 cs r i g v s e \<noteq> Inl FuelExhausted)"

text \<open>An execution function that leaves the gas alone and does not run out of fuel.\<close>

definition keeps_gas :: "'s op_result \<Rightarrow> 's Frame \<Rightarrow> bool" where
  "keeps_gas r f \<longleftrightarrow> r \<noteq> Inl FuelExhausted \<and> (\<forall>res err f'. r = Inr (res, err, f') \<longrightarrow> Gas (contract f') = Gas (contract f))"

definition charges :: "nat \<Rightarrow> ((vm_error + uint64) \<times> 's Frame) exec \<Rightarrow> 's Frame \<Rightarrow> bool" where
  "charges k r f \<longleftrightarrow> r \<noteq> Inl FuelExhausted \<and>
    (\<forall>x f'. r = Inr (x, f') \<longrightarrow> contract f' = contract f \<and> (\<forall>c. x = Inr c \<longrightarrow> k \<le> unat c))"

definition db_returns :: "'s Env \<Rightarrow> bool" where
  "db_returns env \<longleftrightarrow> (\<forall>g s. db_SubRefund (vm_db env) g s \<noteq> Inl FuelExhausted) \<and>
    (\<forall>i s. db_RevertToSnapshot (vm_db env) i s \<noteq> Inl FuelExhausted)"

text \<open>The cost of a call covers the gas set aside for it, and 9000 more if it transfers value.\<close>

definition charges_call :: "((vm_error + uint64) \<times> 's Frame) exec \<Rightarrow> 's Frame \<Rightarrow> nat \<Rightarrow> bool" where
  "charges_call r f k \<longleftrightarrow> r \<noteq> Inl FuelExhausted \<and>
    (\<forall>x f'. r = Inr (x, f') \<longrightarrow> contract f' = contract f \<and> stack f' = stack f \<and>
      (\<forall>c. x = Inr c \<longrightarrow> k + unat (callGasTemp (evm f')) < unat c))"

named_theorems keeps

lemma keeps_gas_panic [keeps]: "keeps_gas (Inl GoPanic) f" by (simp add: keeps_gas_def)
lemma keeps_gas_Inr [keeps]: "Gas (contract f') = Gas (contract f) \<Longrightarrow> keeps_gas (Inr (res, err, f')) f" by (simp add: keeps_gas_def)
lemma keeps_gas_done [keeps]: "Gas (contract f') = Gas (contract f) \<Longrightarrow> keeps_gas (done_op f') f" by (simp add: keeps_gas_def done_op_def)

lemma stack_op_keeps [keeps]: "keeps_gas (stack_op1 g1 f) f" "keeps_gas (stack_op2 g2 f) f" "keeps_gas (stack_op3 g3 f) f"
  by (auto split: list.split intro!: keeps)

lemma keeps_gas_bind [keeps]:
  "m \<noteq> Inl FuelExhausted \<Longrightarrow> (\<And>x. m = Inr x \<Longrightarrow> keeps_gas (g x) f) \<Longrightarrow> keeps_gas (bind_exec m g) f"
  by (cases m) (auto simp: keeps_gas_def)

lemma no_fuel [simp]:
  "mem_Get a b m \<noteq> Inl FuelExhausted" "mem_GetPtr a b m \<noteq> Inl FuelExhausted" "mem_Set o1 n d m \<noteq> Inl FuelExhausted"
  "mem_Set32 o1 v m \<noteq> Inl FuelExhausted" "Back i f \<noteq> Inl FuelExhausted" "peek i st \<noteq> Inl FuelExhausted"
  by (simp_all add: mem_Get_def mem_GetPtr_def mem_Set_def mem_Set32_def Back_def peek_def)

lemma set_mem_no_fuel [simp]: "set_mem o1 n d f \<noteq> Inl FuelExhausted"
  using no_fuel(3) [of "big_Uint64 o1" "big_Uint64 n" d "mem f"]
  by (cases "mem_Set (big_Uint64 o1) (big_Uint64 n) d (mem f)") (auto simp: set_mem_def)

lemma set_mem_contract: "set_mem o1 n d f = Inr f' \<Longrightarrow> contract f' = contract f"
  by (cases "mem_Set (big_Uint64 o1) (big_Uint64 n) d (mem f)") (auto simp: set_mem_def)

lemma read_db_contract: "read_db g f = (x, f') \<Longrightarrow> contract f' = contract f"
  by (auto simp: read_db_def split: prod.splits)

lemma write_db_contract [simp]: "contract (write_db g f) = contract f"
  by (simp add: write_db_def)

lemma push_contract [simp]: "contract (push v f) = contract f" by (simp add: push_def)


lemma codeBitmap_no_fuel [simp]: "codeBitmap code \<noteq> Inl FuelExhausted"
proof -
  have o: "or_at i b bits \<noteq> Inl FuelExhausted" for i b bits by (simp add: or_at_def)
  have m: "mark_bits n p bits \<noteq> Inl FuelExhausted" for n p bits
    by (induction n p bits rule: mark_bits.induct)
      (subst mark_bits.simps, auto simp: bits_set8_def bits_set_def o bind_exec_Inl)
  have "codeBitmap_loop c p bits \<noteq> Inl FuelExhausted" for c p bits
    by (induction c p bits rule: codeBitmap_loop.induct)
      (subst codeBitmap_loop.simps, auto simp: Let_def m bind_exec_Inl)
  then show ?thesis by (simp add: codeBitmap_def)
qed

lemma validJumpdest_gas:
  "validJumpdest pos c jd \<noteq> Inl FuelExhausted"
  "validJumpdest pos c jd = Inr (b, c', jd') \<Longrightarrow> Gas c' = Gas c"
proof -
  have s: "codeSegment p a \<noteq> Inl FuelExhausted" for p a by (simp add: codeSegment_def)
  show "validJumpdest pos c jd \<noteq> Inl FuelExhausted"
    by (auto simp: validJumpdest_def Let_def bind_exec_Inl s split: option.splits)
  show "validJumpdest pos c jd = Inr (b, c', jd') \<Longrightarrow> Gas c' = Gas c"
    by (auto simp: validJumpdest_def Let_def bind_exec_def split: option.splits if_splits sum.splits)
qed

lemma jump_to_keeps [keeps]: "keeps_gas (jump_to pos f) f"
  by (auto simp: jump_to_def validJumpdest_gas Let_def intro!: keeps split: prod.split dest: validJumpdest_gas(2))

lemma jump_ops_keep [keeps]: "keeps_gas (opJump env cs f) f" "keeps_gas (opJumpi env cs f) f"
proof -
  have "keeps_gas (jump_to pos (f\<lparr> stack := s \<rparr>)) f" for pos s
    using jump_to_keeps [of pos "f\<lparr> stack := s \<rparr>"] by (simp add: keeps_gas_def)
  then show "keeps_gas (opJump env cs f) f" "keeps_gas (opJumpi env cs f) f"
    by (auto simp: opJump_def opJumpi_def split: list.split intro!: keeps)
qed

lemma stack_ops_keep [keeps]:
  "keeps_gas (opAdd env cs f) f" "keeps_gas (opSub env cs f) f" "keeps_gas (opMul env cs f) f"
  "keeps_gas (opDiv env cs f) f" "keeps_gas (opSdiv env cs f) f" "keeps_gas (opMod env cs f) f"
  "keeps_gas (opSmod env cs f) f" "keeps_gas (opExp env cs f) f" "keeps_gas (opNot env cs f) f"
  "keeps_gas (opLt env cs f) f" "keeps_gas (opGt env cs f) f" "keeps_gas (opSlt env cs f) f"
  "keeps_gas (opSgt env cs f) f" "keeps_gas (opEq env cs f) f" "keeps_gas (opIszero env cs f) f"
  "keeps_gas (opAnd env cs f) f" "keeps_gas (opOr env cs f) f" "keeps_gas (opXor env cs f) f"
  "keeps_gas (opByte env cs f) f" "keeps_gas (opAddmod env cs f) f" "keeps_gas (opMulmod env cs f) f"
  "keeps_gas (opSHL env cs f) f" "keeps_gas (opSHR env cs f) f" "keeps_gas (opSAR env cs f) f"
  "keeps_gas (opCallDataLoad env cs f) f" "keeps_gas (opBlockhash env cs f) f"
  by (simp_all only: opAdd_def opSub_def opMul_def opDiv_def opSdiv_def opMod_def opSmod_def opExp_def opNot_def opLt_def opGt_def opSlt_def opSgt_def opEq_def opIszero_def opAnd_def opOr_def opXor_def opByte_def opAddmod_def opMulmod_def opSHL_def opSHR_def opSAR_def opCallDataLoad_def opBlockhash_def keeps)

lemma push_ops_keep [keeps]:
  "keeps_gas (opAddress env cs f) f" "keeps_gas (opOrigin env cs f) f" "keeps_gas (opCaller env cs f) f"
  "keeps_gas (opCallDataSize env cs f) f" "keeps_gas (opReturnDataSize env cs f) f"
  "keeps_gas (opCodeSize env cs f) f" "keeps_gas (opGasprice env cs f) f" "keeps_gas (opCoinbase env cs f) f"
  "keeps_gas (opTimestamp env cs f) f" "keeps_gas (opNumber env cs f) f" "keeps_gas (opDifficulty env cs f) f"
  "keeps_gas (opGasLimit env cs f) f" "keeps_gas (opPc env cs f) f" "keeps_gas (opMsize env cs f) f"
  "keeps_gas (opGas env cs f) f" "keeps_gas (opJumpdest env cs f) f" "keeps_gas (opStop env cs f) f"
  by (auto simp: opAddress_def opOrigin_def opCaller_def opCallDataSize_def opReturnDataSize_def opCodeSize_def opGasprice_def opCoinbase_def opTimestamp_def opNumber_def opDifficulty_def opGasLimit_def opPc_def opMsize_def opGas_def opJumpdest_def opStop_def intro!: keeps)

lemma opSignExtend_keeps [keeps]: "keeps_gas (opSignExtend env cs f) f"
  by (auto simp: opSignExtend_def Let_def split: list.split option.split prod.split bool.split intro!: keeps dest!: set_mem_contract read_db_contract)

lemma opSha3_keeps [keeps]: "keeps_gas (opSha3 env cs f) f"
  by (auto simp: opSha3_def Let_def split: list.split option.split prod.split bool.split intro!: keeps dest!: set_mem_contract read_db_contract)

lemma opBalance_keeps [keeps]: "keeps_gas (opBalance env cs f) f"
  by (auto simp: opBalance_def Let_def split: list.split option.split prod.split bool.split intro!: keeps dest!: set_mem_contract read_db_contract)

lemma opCallValue_keeps [keeps]: "keeps_gas (opCallValue env cs f) f"
  by (auto simp: opCallValue_def Let_def split: list.split option.split prod.split bool.split intro!: keeps dest!: set_mem_contract read_db_contract)

lemma opCallDataCopy_keeps [keeps]: "keeps_gas (opCallDataCopy env cs f) f"
  by (auto simp: opCallDataCopy_def Let_def split: list.split option.split prod.split bool.split intro!: keeps dest!: set_mem_contract read_db_contract)

lemma opReturnDataCopy_keeps [keeps]: "keeps_gas (opReturnDataCopy env cs f) f"
  by (auto simp: opReturnDataCopy_def Let_def split: list.split option.split prod.split bool.split intro!: keeps dest!: set_mem_contract read_db_contract)

lemma opExtCodeSize_keeps [keeps]: "keeps_gas (opExtCodeSize env cs f) f"
  by (auto simp: opExtCodeSize_def Let_def split: list.split option.split prod.split bool.split intro!: keeps dest!: set_mem_contract read_db_contract)

lemma opCodeCopy_keeps [keeps]: "keeps_gas (opCodeCopy env cs f) f"
  by (auto simp: opCodeCopy_def Let_def split: list.split option.split prod.split bool.split intro!: keeps dest!: set_mem_contract read_db_contract)

lemma opExtCodeCopy_keeps [keeps]: "keeps_gas (opExtCodeCopy env cs f) f"
  by (auto simp: opExtCodeCopy_def Let_def split: list.split option.split prod.split bool.split intro!: keeps dest!: set_mem_contract read_db_contract)

lemma opExtCodeHash_keeps [keeps]: "keeps_gas (opExtCodeHash env cs f) f"
  by (auto simp: opExtCodeHash_def Let_def split: list.split option.split prod.split bool.split intro!: keeps dest!: set_mem_contract read_db_contract)

lemma opPop_keeps [keeps]: "keeps_gas (opPop env cs f) f"
  by (auto simp: opPop_def Let_def split: list.split option.split prod.split bool.split intro!: keeps dest!: set_mem_contract read_db_contract)

lemma opMload_keeps [keeps]: "keeps_gas (opMload env cs f) f"
  by (auto simp: opMload_def Let_def split: list.split option.split prod.split bool.split intro!: keeps dest!: set_mem_contract read_db_contract)

lemma opMstore_keeps [keeps]: "keeps_gas (opMstore env cs f) f"
  by (auto simp: opMstore_def Let_def split: list.split option.split prod.split bool.split intro!: keeps dest!: set_mem_contract read_db_contract)

lemma opMstore8_keeps [keeps]: "keeps_gas (opMstore8 env cs f) f"
  by (auto simp: opMstore8_def Let_def split: list.split option.split prod.split bool.split intro!: keeps dest!: set_mem_contract read_db_contract)

lemma opSload_keeps [keeps]: "keeps_gas (opSload env cs f) f"
  by (auto simp: opSload_def Let_def split: list.split option.split prod.split bool.split intro!: keeps dest!: set_mem_contract read_db_contract)

lemma opSstore_keeps [keeps]: "keeps_gas (opSstore env cs f) f"
  by (auto simp: opSstore_def Let_def split: list.split option.split prod.split bool.split intro!: keeps dest!: set_mem_contract read_db_contract)

lemma opReturn_keeps [keeps]: "keeps_gas (opReturn env cs f) f"
  by (auto simp: opReturn_def Let_def split: list.split option.split prod.split bool.split intro!: keeps dest!: set_mem_contract read_db_contract)

lemma opRevert_keeps [keeps]: "keeps_gas (opRevert env cs f) f"
  by (auto simp: opRevert_def Let_def split: list.split option.split prod.split bool.split intro!: keeps dest!: set_mem_contract read_db_contract)

lemma opSuicide_keeps [keeps]: "keeps_gas (opSuicide env cs f) f"
  by (auto simp: opSuicide_def Let_def split: list.split option.split prod.split bool.split intro!: keeps dest!: set_mem_contract read_db_contract)

lemma make_keeps [keeps]: "keeps_gas (makeLog n env cs f) f" "keeps_gas (makePush n env cs f) f"
  "keeps_gas (makeDup n env cs f) f" "keeps_gas (makeSwap n env cs f) f"
  by (auto simp: makeLog_def makePush_def makeDup_def makeSwap_def Let_def split: list.split intro!: keeps)


subsection \<open>Gas functions\<close>

text \<open>A gas function that charges at least \<open>k\<close>, leaves the contract alone and does not run out of fuel.\<close>

lemma charges_bind:
  "m \<noteq> Inl FuelExhausted \<Longrightarrow> (\<And>x. m = Inr x \<Longrightarrow> charges k (g x) f) \<Longrightarrow> charges k (bind_exec m g) f"
  by (cases m) (auto simp: charges_def)

lemma charges_Inr:
  "contract f' = contract f \<Longrightarrow> (\<And>c. x = Inr c \<Longrightarrow> k \<le> unat c) \<Longrightarrow> charges k (Inr (x, f')) f"
  by (simp add: charges_def)

lemma add_gas_Inr: "add_gas x y = Inr r \<longleftrightarrow> unat x + unat y < 2 ^ 64 \<and> r = x + y"
  by (auto simp: add_gas_def SafeAdd_spec)

lemma unat_add_gas: "add_gas x y = Inr r \<Longrightarrow> unat r = unat x + unat y"
  by (simp add: add_gas_Inr unat_add_uint64)

lemma mul_gas_Inr: "mul_gas x y = Inr r \<Longrightarrow> unat r = unat x * unat y"
  using SafeMul_value [of x y] by (simp add: mul_gas_def split: prod.splits if_splits)

lemma bind_gas_Inr: "bind_gas m g = Inr r \<longleftrightarrow> (\<exists>x. m = Inr x \<and> g x = Inr r)"
  by (cases m) auto

lemma with_memory_gas_contract: "contract (snd (with_memory_gas g ms f)) = contract f"
  by (simp add: with_memory_gas_def split: prod.split)

lemma charges_with_memory_gas:
  assumes "\<And>x r. g x = Inr r \<Longrightarrow> k \<le> unat r"
  shows "charges k (Inr (with_memory_gas g ms f)) f"
  using assms by (auto simp: charges_def with_memory_gas_def bind_gas_Inr split: prod.splits)

lemma chain_gas: "bind_gas (add_gas x c) (\<lambda>y. bind_gas w (add_gas y)) = Inr r \<Longrightarrow> unat c \<le> unat r"
  by (auto simp: bind_gas_Inr dest!: unat_add_gas)

lemma chain_gas_log:
  "bind_gas (add_gas x c) (\<lambda>y. bind_gas (add_gas y d) (\<lambda>z. bind_gas w (add_gas z))) = Inr r \<Longrightarrow> unat c \<le> unat r"
  by (auto simp: bind_gas_Inr dest!: unat_add_gas)

lemma gasTable_values:
  "gasTable env \<in> {GasTableHomestead, GasTableEIP150, GasTableEIP158, GasTableConstantinople}"
  by (simp add: gasTable_def config_GasTable_def)

lemma gasTable_positive:
  "1 \<le> unat (Balance (gasTable env))" "1 \<le> unat (ExtcodeSize (gasTable env))" "1 \<le> unat (SLoad (gasTable env))"
  "1 \<le> unat (ExtcodeCopy (gasTable env))"
  using gasTable_values [of env]
  by (auto simp: GasTableHomestead_def GasTableEIP150_def GasTableEIP158_def GasTableConstantinople_def)

lemma Calls_values: "Calls (gasTable env) = 40 \<or> Calls (gasTable env) = 700"
  using gasTable_values [of env]
  by (auto simp: GasTableHomestead_def GasTableEIP150_def GasTableEIP158_def GasTableConstantinople_def)

lemma ExtcodeHash_positive:
  "IsConstantinople (chainConfig env) (Some (BlockNumber env)) \<Longrightarrow> 1 \<le> unat (ExtcodeHash (gasTable env))"
  by (simp add: gasTable_def config_GasTable_def GasTableConstantinople_def)

lemma const_charges: "k \<le> unat g \<Longrightarrow> charges k (constGasFunc g env ms f) f"
  by (simp add: charges_def constGasFunc_def)

lemma simple_charges:
  "charges 1 (gasBalance env ms f) f" "charges 1 (gasExtCodeSize env ms f) f" "charges 1 (gasSLoad env ms f) f"
  "charges 1 (gasPush env ms f) f" "charges 1 (gasSwap env ms f) f" "charges 1 (gasDup env ms f) f"
  "charges 1 (gasExp env ms f) f"
  using gasTable_positive [of env]
  by (auto simp: gasBalance_def gasExtCodeSize_def gasSLoad_def gasPush_def gasSwap_def gasDup_def gasExp_def
      GasFastestStep_def ExpGas_def Let_def intro!: charges_bind charges_Inr dest!: unat_add_gas)

lemma memory_charges:
  "charges 1 (gasCallDataCopy env ms f) f" "charges 1 (gasReturnDataCopy env ms f) f" "charges 1 (gasCodeCopy env ms f) f"
  "charges 1 (gasExtCodeCopy env ms f) f" "charges 1 (gasSha3 env ms f) f" "charges 1 (gasMLoad env ms f) f"
  "charges 1 (gasMStore env ms f) f" "charges 1 (gasMStore8 env ms f) f" "charges 1 (gasCreate env ms f) f"
  "charges 1 (gasCreate2 env ms f) f" "charges 0 (gasReturn env ms f) f" "charges 0 (gasRevert env ms f) f"
  using gasTable_positive [of env]
  by (auto simp: gasCallDataCopy_def gasReturnDataCopy_def gasCodeCopy_def gasExtCodeCopy_def gasSha3_def gasMLoad_def
      gasMStore_def gasMStore8_def gasCreate_def gasCreate2_def gasReturn_def gasRevert_def
      GasFastestStep_def protocol_params
      intro!: charges_bind charges_with_memory_gas dest!: chain_gas unat_add_gas)

lemma log_charges: "charges 1 (makeGasLog n env ms f) f"
  by (auto simp: makeGasLog_def LogGas_def split: prod.split intro!: charges_bind charges_with_memory_gas charges_Inr dest!: chain_gas_log)



lemma read_db_stack: "read_db g f = (x, f') \<Longrightarrow> contract f' = contract f \<and> stack f' = stack f \<and> mem f' = mem f"
  by (auto simp: read_db_def split: prod.splits)

lemma add_refund_contract [simp]: "contract (add_refund env g f) = contract f"
  by (simp add: add_refund_def)

lemma sub_refund_contract: "sub_refund env g f = Inr f' \<Longrightarrow> contract f' = contract f"
  by (auto simp: sub_refund_def bind_exec_def split: sum.splits)

lemma sub_refund_no_fuel: "db_returns env \<Longrightarrow> sub_refund env g f \<noteq> Inl FuelExhausted"
  by (auto simp: sub_refund_def db_returns_def bind_exec_Inl)

lemma net_sstore_charges: "db_returns env \<Longrightarrow> charges 1 (net_sstore env key current v f) f"
proof -
  assume d: "db_returns env"
  obtain original f1 where r: "read_db (db_GetCommittedState (vm_db env) (self (contract f)) key) f = (original, f1)" by fastforce
  have "net_sstore_refund env original current v f1 \<noteq> Inl FuelExhausted"
    using sub_refund_no_fuel [OF d] by (simp add: net_sstore_refund_def)
  moreover have "contract f2 = contract f" if "net_sstore_refund env original current v f1 = Inr f2" for f2
    using that read_db_contract [OF r] by (auto simp: net_sstore_refund_def split: if_splits dest: sub_refund_contract)
  ultimately show ?thesis using read_db_contract [OF r]
    by (auto simp: net_sstore_def r protocol_params intro!: charges_bind charges_Inr)
qed

lemma sstore_charges: "db_returns env \<Longrightarrow> charges 1 (gasSStore env ms f) f"
proof -
  assume d: "db_returns env"
  have "charges 1 (case read_db (db_GetState (vm_db env) (self (contract f)) (BigToHash x)) f of (current, f1) \<Rightarrow>
        if r_IsPetersburg (chainRules env) \<or> \<not> r_IsConstantinople (chainRules env) then
          (if current = 0 \<and> y \<noteq> 0 then Inr (Inr SstoreSetGas, f1)
           else if current \<noteq> 0 \<and> y = 0 then Inr (Inr SstoreClearGas, add_refund env SstoreRefundGas f1)
           else Inr (Inr SstoreResetGas, f1))
        else net_sstore env (BigToHash x) current (BigToHash y) f1) f" for x y
  proof -
    obtain current f1 where r: "read_db (db_GetState (vm_db env) (self (contract f)) (BigToHash x)) f = (current, f1)" by fastforce
    have "charges 1 (net_sstore env (BigToHash x) current (BigToHash y) f1) f"
      using net_sstore_charges [OF d] read_db_contract [OF r] by (fastforce simp: charges_def)
    then show ?thesis using read_db_contract [OF r] by (simp add: r charges_def protocol_params)
  qed
  then show ?thesis unfolding gasSStore_def by (intro charges_bind) simp_all
qed

lemma new_account_frame:
  "calls_new_account env t a f = (b, f') \<Longrightarrow> contract f' = contract f \<and> stack f' = stack f \<and> mem f' = mem f"
  "suicide_new_account env a f = (b, f') \<Longrightarrow> contract f' = contract f \<and> stack f' = stack f \<and> mem f' = mem f"
  by (auto simp: calls_new_account_def suicide_new_account_def split: prod.splits bool.splits if_splits dest!: read_db_stack)

lemma suicide_charges: "charges 0 (gasSuicide env ms f) f"
  unfolding gasSuicide_def
proof (rule charges_bind)
  let ?m = "if IsEIP150 (chainConfig env) (Some (BlockNumber env)) then
         bind_exec (Back 0 f) (\<lambda>a.
           case suicide_new_account env (BigToAddress a) f of (fresh, f1) \<Rightarrow>
             Inr (if fresh then Suicide (gasTable env) + CreateBySuicide (gasTable env) else Suicide (gasTable env), f1))
       else Inr (0, f)"
  show "?m \<noteq> Inl FuelExhausted" by (simp add: Back_def split: prod.split)
  fix x
  assume m: "?m = Inr x"
  obtain gas f1 where x: "x = (gas, f1)" by fastforce
  have "contract f1 = contract f" using m x new_account_frame(2) [of env _ f]
    by (auto simp: Back_def split: prod.splits if_splits)
  then show "charges 0 (case x of (gas, f1) \<Rightarrow>
      case read_db (db_HasSuicided (vm_db env) (self (contract f))) f1 of (already, f2) \<Rightarrow>
        Inr (Inr gas, if already then f2 else add_refund env SuicideRefundGas f2)) f"
    unfolding x by (auto simp: charges_def split: prod.split dest!: read_db_contract)
qed

lemma memory_then_reserve:
  "memory_then_reserve env cc base ms f = (r, f') \<Longrightarrow> contract f' = contract f \<and> stack f' = stack f \<and>
    (\<forall>cost. r = Inr cost \<longrightarrow> unat base + unat (callGasTemp (evm f')) \<le> unat cost)"
  by (auto simp: memory_then_reserve_def reserve_call_gas_def Let_def bind_gas_Inr
      split: prod.splits sum.splits dest!: unat_add_gas)

lemma Back_less:
  assumes "length (stack f) > 2"
  shows "Back 0 f = Inr (stack f ! 0)" "Back 1 f = Inr (stack f ! 1)" "Back (Suc 0) f = Inr (stack f ! 1)"
    "Back 2 f = Inr (stack f ! 2)"
  using assms by (auto simp: Back_def)

lemma gasCall_charges:
  "charges_call (gasCall env ms f) f (if length (stack f) > 2 \<and> stack f ! 2 \<noteq> 0 then 9000 else 0)"
proof (cases "length (stack f) > 2")
  case True
  obtain fresh f1 where n: "calls_new_account env (stack f ! 2 \<noteq> 0) (BigToAddress (stack f ! 1)) f = (fresh, f1)" by fastforce
  define base where "base = (if stack f ! 2 \<noteq> 0 then (if fresh then Calls (gasTable env) + CallNewAccountGas
      else Calls (gasTable env)) + CallValueTransferGas
    else if fresh then Calls (gasTable env) + CallNewAccountGas else Calls (gasTable env))"
  have g: "gasCall env ms f = Inr (memory_then_reserve env (stack f ! 0) base ms f1)"
    using n by (simp add: gasCall_def Back_less [OF True] base_def Let_def)
  have "(if stack f ! 2 \<noteq> 0 then 9000 else 0) < unat base"
    using Calls_values [of env] by (auto simp: base_def protocol_params)
  then show ?thesis using new_account_frame(1) [OF n] True unfolding g
    by (auto simp: charges_call_def dest!: memory_then_reserve)
next
  case False
  then show ?thesis by (simp add: gasCall_def Back_def charges_call_def)
qed

lemma gasCallCode_charges:
  "charges_call (gasCallCode env ms f) f (if length (stack f) > 2 \<and> stack f ! 2 \<noteq> 0 then 9000 else 0)"
proof (cases "length (stack f) > 2")
  case True
  define base where
    "base = (if stack f ! 2 \<noteq> 0 then Calls (gasTable env) + CallValueTransferGas else Calls (gasTable env))"
  have g: "gasCallCode env ms f = Inr (memory_then_reserve env (stack f ! 0) base ms f)"
    by (simp add: gasCallCode_def Back_less [OF True] base_def Let_def)
  have "(if stack f ! 2 \<noteq> 0 then 9000 else 0) < unat base"
    using Calls_values [of env] by (auto simp: base_def protocol_params)
  then show ?thesis using True unfolding g by (auto simp: charges_call_def dest!: memory_then_reserve)
next
  case False
  then show ?thesis by (simp add: gasCallCode_def Back_def charges_call_def)
qed

lemma gasDelegateCall_charges: "charges_call (gasDelegateCall env ms f) f 0" "charges_call (gasStaticCall env ms f) f 0"
  using Calls_values [of env]
  by (auto simp: charges_call_def gasDelegateCall_def gasStaticCall_def Back_def dest!: memory_then_reserve)

end
