(* ===== verification/Vm_Termination.thy ===== *)
theory Vm_Termination
  imports Vm_Charges
begin

text \<open>
  The execution of a message ends, and returns no more gas than it was given.  Every iteration of the
  interpreter loop that continues uses gas (\<open>step_gas\<close>), a nested call gets less gas than its frame has, so
  that fuel above the gas is enough for the loop and for the nesting (\<open>evm_returns\<close>, \<open>evm_calls_return\<close>).
\<close>

section \<open>Operations\<close>

text \<open>
  An operation of the table: every iteration that continues uses gas, no iteration ends with more gas, and
  an iteration returns if the nested calls do, which get less gas than the frame has.
\<close>

definition op_gas_ok :: "'s Env \<Rightarrow> 's Calls \<Rightarrow> 's operation \<Rightarrow> bool" where
  "op_gas_ok env cs opn \<longleftrightarrow> (\<forall>ms f.
    (calls_return cs (frame_gas f) \<longrightarrow> charge_and_execute env cs opn ms f \<noteq> Inl FuelExhausted) \<and>
    (calls_gas cs \<longrightarrow>
      (\<forall>f'. charge_and_execute env cs opn ms f = Inr (Continue f') \<longrightarrow> frame_gas f' < frame_gas f) \<and>
      (\<forall>res err f'. charge_and_execute env cs opn ms f = Inr (Halt res err f') \<longrightarrow> frame_gas f' \<le> frame_gas f)))"

text \<open>The same for the frame that \<open>execute\<close> starts from, where the operation has been charged.\<close>

definition exec_gas_ok :: "'s Env \<Rightarrow> 's Calls \<Rightarrow> 's operation \<Rightarrow> nat \<Rightarrow> 's Frame \<Rightarrow> bool" where
  "exec_gas_ok env cs opn g f \<longleftrightarrow>
    (calls_return cs g \<longrightarrow> execute opn env cs f \<noteq> Inl FuelExhausted) \<and>
    (calls_gas cs \<longrightarrow> (\<forall>res err f'. execute opn env cs f = Inr (res, err, f') \<longrightarrow>
       frame_gas f' \<le> g \<and> (\<not> halts opn \<and> \<not> reverts opn \<longrightarrow> frame_gas f' < g)))"

definition forwards :: "'s Calls \<Rightarrow> uint64 \<Rightarrow> 's Frame \<Rightarrow> 's op_result \<Rightarrow> bool" where
  "forwards cs cost f r \<longleftrightarrow> (\<exists>gas. unat gas < unat cost \<and> (r = Inl GoPanic \<or>
      (\<exists>nested ro rs s. r = bind_exec nested (finish_call ro rs s f) \<and>
        (calls_gas cs \<longrightarrow> call_gas nested gas) \<and>
        (\<forall>b. unat cost \<le> b \<longrightarrow> calls_return cs b \<longrightarrow> nested \<noteq> Inl FuelExhausted))))"

abbreviation value_fee :: "bigint list \<Rightarrow> nat" where
  "value_fee st \<equiv> (if length st > 2 \<and> st ! 2 \<noteq> 0 then 9000 else 0)"

text \<open>The entries that the later tables add or replace, besides \<open>EXTCODEHASH\<close>.\<close>

definition later_entries :: "(OpCode \<times> 's operation) list" where
  "later_entries =
    [(DELEGATECALL, (op_entry opDelegateCall gasDelegateCall 6 1)\<lparr> memorySize := Some memoryDelegateCall, returns := True \<rparr>),
     (STATICCALL, (op_entry opStaticCall gasStaticCall 6 1)\<lparr> memorySize := Some memoryStaticCall, returns := True \<rparr>),
     (RETURNDATASIZE, op_entry opReturnDataSize (constGasFunc GasQuickStep) 0 1),
     (RETURNDATACOPY, (op_entry opReturnDataCopy gasReturnDataCopy 3 0)\<lparr> memorySize := Some memoryReturnDataCopy \<rparr>),
     (REVERT, (op_entry opRevert gasRevert 2 0)\<lparr> memorySize := Some memoryRevert, reverts := True, returns := True \<rparr>),
     (SHL, op_entry opSHL (constGasFunc GasFastestStep) 2 1),
     (SHR, op_entry opSHR (constGasFunc GasFastestStep) 2 1),
     (SAR, op_entry opSAR (constGasFunc GasFastestStep) 2 1),
     (CREATE2, (op_entry opCreate2 gasCreate2 4 1)\<lparr> memorySize := Some memoryCreate2, writes := True, returns := True \<rparr>)]"

text \<open>A memory size function that returns.\<close>

definition mem_fun_ok :: "'s operation \<Rightarrow> bool" where
  "mem_fun_ok opn \<longleftrightarrow> (\<forall>g st. memorySize opn = Some g \<longrightarrow> g st \<noteq> Inl FuelExhausted)"

lemma UseGas_True: "UseGas c ct = (True, ct') \<Longrightarrow> unat (Gas ct') + unat c = unat (Gas ct) \<and> ct' = ct\<lparr> Gas := Gas ct - c \<rparr>"
  by (auto simp: UseGas_def unat_sub word_le_nat_alt not_less split: if_splits)

lemma after_execute_gas:
  "after_execute opn r = Continue f' \<Longrightarrow> \<not> halts opn \<and> \<not> reverts opn \<and> contract f' = contract (snd (snd r))"
  "after_execute opn r = Halt res err f' \<Longrightarrow> contract f' = contract (snd (snd r))"
  by (auto simp: after_execute_def Let_def split: prod.splits option.splits if_splits)

lemma op_gas_okI:
  assumes "\<And>ms f. gasCost opn env ms f \<noteq> Inl FuelExhausted"
    and "\<And>ms f x f1. gasCost opn env ms f = Inr (x, f1) \<Longrightarrow> contract f1 = contract f"
    and ex: "\<And>ms f cost f1 c. gasCost opn env ms f = Inr (Inr cost, f1) \<Longrightarrow> UseGas cost (contract f1) = (True, c) \<Longrightarrow>
      exec_gas_ok env cs opn (frame_gas f) (f1\<lparr> contract := c, mem := (if ms > 0 then mem_Resize ms (mem f1) else mem f1) \<rparr>)"
  shows "op_gas_ok env cs opn"
  unfolding op_gas_ok_def
proof (intro allI)
  fix ms :: uint64 and f :: "'a Frame"
  show "(calls_return cs (frame_gas f) \<longrightarrow> charge_and_execute env cs opn ms f \<noteq> Inl FuelExhausted) \<and>
    (calls_gas cs \<longrightarrow>
      (\<forall>f'. charge_and_execute env cs opn ms f = Inr (Continue f') \<longrightarrow> frame_gas f' < frame_gas f) \<and>
      (\<forall>res err f'. charge_and_execute env cs opn ms f = Inr (Halt res err f') \<longrightarrow> frame_gas f' \<le> frame_gas f))"
  proof (cases "gasCost opn env ms f")
    case (Inl a)
    then show ?thesis using assms(1) [of ms f] by (simp add: charge_and_execute_def)
  next
    case (Inr r)
    obtain x f1 where r: "r = (x, f1)" by fastforce
    have c1: "contract f1 = contract f" using assms(2) Inr r by simp
    show ?thesis
    proof (cases "\<exists>cost c. x = Inr cost \<and> UseGas cost (contract f1) = (True, c)")
      case False
      then show ?thesis using Inr r c1 by (auto simp: charge_and_execute_def split: sum.splits prod.splits bool.splits)
    next
      case True
      then obtain cost c where x: "x = Inr cost" "UseGas cost (contract f1) = (True, c)" by blast
      let ?f2 = "f1\<lparr> contract := c, mem := (if ms > 0 then mem_Resize ms (mem f1) else mem f1) \<rparr>"
      have e: "exec_gas_ok env cs opn (frame_gas f) ?f2" using ex Inr r x by simp
      have "charge_and_execute env cs opn ms f = bind_exec (execute opn env cs ?f2) (\<lambda>r. Inr (after_execute opn r))"
        using Inr r x by (simp add: charge_and_execute_def Let_def)
      then show ?thesis using e
        by (cases "execute opn env cs ?f2") (auto simp: exec_gas_ok_def dest: after_execute_gas)
    qed
  qed
qed

lemma plain_op_gas_ok:
  assumes "\<And>ms f. charges k (gasCost opn env ms f) f" and "\<And>f. keeps_gas (execute opn env cs f) f"
    and "1 \<le> k \<or> halts opn \<or> reverts opn"
  shows "op_gas_ok env cs opn"
proof (rule op_gas_okI)
  fix ms f cost f1 c
  assume g: "gasCost opn env ms f = Inr (Inr cost, f1)" "UseGas cost (contract f1) = (True, c)"
  let ?f2 = "f1\<lparr> contract := c, mem := (if ms > 0 then mem_Resize ms (mem f1) else mem f1) \<rparr>"
  have "contract f1 = contract f" "k \<le> unat cost" using assms(1) [of ms f] g(1) by (auto simp: charges_def)
  then have "unat (Gas c) + k \<le> frame_gas f" using conjunct1 [OF UseGas_True [OF g(2)]] by simp
  moreover have "keeps_gas (execute opn env cs ?f2) ?f2" by (rule assms(2))
  ultimately show "exec_gas_ok env cs opn (frame_gas f) ?f2"
    using assms(3) by (fastforce simp: exec_gas_ok_def keeps_gas_def)
qed (use assms(1) in \<open>auto simp: charges_def\<close>)



lemma returned_gas:
  fixes g :: uint64
  assumes "unat (Gas c) + unat cost = unat g" and "unat gas < unat cost" and "g' \<le> gas"
  shows "unat (Gas c + g') < unat g"
proof -
  have "unat g' \<le> unat gas" using assms(3) by (simp add: word_le_nat_alt)
  then have "unat (Gas c) + unat g' < unat g" using assms(1,2) by linarith
  then show ?thesis using unat_uint64_less [of g] by (simp add: unat_add_uint64)
qed

lemma finish_call_gas:
  "finish_call ro rs s f (ret, g', err, e) \<noteq> Inl FuelExhausted"
  "finish_call ro rs s f (ret, g', err, e) = Inr (res, err', f') \<Longrightarrow> Gas (contract f') = Gas (contract f) + g'"
  by (auto simp: finish_call_def Let_def resume_def bind_exec_Inl bind_exec_def
      split: if_splits sum.splits dest!: set_mem_contract)

text \<open>An instruction that forwards less gas to a nested call than it is charged.\<close>

lemma forward_gas_ok:
  fixes g :: uint64
  assumes "execute opn env cs f = Inl GoPanic \<or>
      (\<exists>nested. execute opn env cs f = bind_exec nested (finish_call ro rs s f) \<and>
        (calls_gas cs \<longrightarrow> call_gas nested gas) \<and> (calls_return cs (unat g) \<longrightarrow> nested \<noteq> Inl FuelExhausted))"
    and "unat (Gas (contract f)) + unat cost = unat g" and "unat gas < unat cost"
  shows "exec_gas_ok env cs opn (unat g) f"
  using assms(1)
proof (elim disjE exE conjE)
  fix nested
  assume e: "execute opn env cs f = bind_exec nested (finish_call ro rs s f)"
    and n: "calls_gas cs \<longrightarrow> call_gas nested gas" "calls_return cs (unat g) \<longrightarrow> nested \<noteq> Inl FuelExhausted"
  show ?thesis
  proof (cases nested)
    case (Inl a)
    then show ?thesis using e n by (simp add: exec_gas_ok_def)
  next
    case (Inr r)
    obtain ret g' err e' where r: "r = (ret, g', err, e')" by (metis surj_pair)
    have "unat (Gas (contract f) + g') < unat g" if "calls_gas cs"
      using returned_gas [OF assms(2,3)] n(1) that Inr r by (simp add: call_gas_def)
    then show ?thesis using e Inr r finish_call_gas [of ro rs s f ret g' err e'] by (auto simp: exec_gas_ok_def)
  qed
qed (simp add: exec_gas_ok_def)

lemma mem_Get_cases: "mem_Get a b m = Inl GoPanic \<or> (\<exists>d. mem_Get a b m = Inr d)"
  by (auto simp: mem_Get_def)

lemma stipend:
  assumes "K + unat t < unat (cost :: uint64)" and "v \<noteq> 0 \<Longrightarrow> K = 9000"
  shows "unat (if U256 v \<noteq> 0 then t + CallStipend else t) < unat cost"
proof (cases "U256 v = 0")
  case False
  then have "v \<noteq> 0" by (auto simp: U256_mod)
  then have "9000 + unat t < unat cost" using assms by simp
  moreover have "unat cost < 2 ^ 64" using unat_uint64_less [of cost] by simp
  ultimately have "unat t + unat CallStipend < 2 ^ 64" by (simp add: CallStipend_def)
  then have "unat (t + CallStipend) = unat t + 2300" by (simp add: unat_add_uint64 CallStipend_def)
  then show ?thesis using False \<open>9000 + unat t < unat cost\<close> by simp
qed (use assms in simp)

text \<open>The result of such an instruction that has been charged \<open>cost\<close>.\<close>

lemma forwards_gas_ok:
  fixes g :: uint64
  assumes "forwards cs cost f (execute opn env cs f)" and u: "unat (Gas (contract f)) + unat cost = unat g"
  shows "exec_gas_ok env cs opn (unat g) f"
proof -
  obtain gas where gas: "unat gas < unat cost" "execute opn env cs f = Inl GoPanic \<or>
      (\<exists>nested ro rs s. execute opn env cs f = bind_exec nested (finish_call ro rs s f) \<and>
        (calls_gas cs \<longrightarrow> call_gas nested gas) \<and>
        (\<forall>b. unat cost \<le> b \<longrightarrow> calls_return cs b \<longrightarrow> nested \<noteq> Inl FuelExhausted))"
    using assms(1) unfolding forwards_def by blast
  have "unat cost \<le> unat g" using u by simp
  then show ?thesis using gas(2) forward_gas_ok [OF _ u gas(1)] by blast
qed

lemma call_op_gas_ok:
  assumes ch: "\<And>ms f. charges_call (gasCost opn env ms f) f (K (stack f))"
    and fw: "\<And>f cost. K (stack f) + unat (callGasTemp (evm f)) < unat cost \<Longrightarrow> forwards cs cost f (execute opn env cs f)"
  shows "op_gas_ok env cs opn"
proof (rule op_gas_okI)
  fix ms f cost f1 c
  assume g: "gasCost opn env ms f = Inr (Inr cost, f1)" "UseGas cost (contract f1) = (True, c)"
  let ?f2 = "f1\<lparr> contract := c, mem := (if ms > 0 then mem_Resize ms (mem f1) else mem f1) \<rparr>"
  have c: "contract f1 = contract f" "stack f1 = stack f" "K (stack f) + unat (callGasTemp (evm f1)) < unat cost"
    using ch [of ms f] g(1) by (auto simp: charges_call_def)
  have "forwards cs cost ?f2 (execute opn env cs ?f2)" using c by (intro fw) simp
  moreover have "unat (Gas (contract ?f2)) + unat cost = frame_gas f"
    using conjunct1 [OF UseGas_True [OF g(2)]] c(1) by simp
  ultimately show "exec_gas_ok env cs opn (frame_gas f) ?f2" by (rule forwards_gas_ok)
qed (use ch in \<open>auto simp: charges_call_def\<close>)

lemma calls_returnD:
  assumes "calls_return cs b" and "unat g < b"
  shows "c_Call cs r a i g v e \<noteq> Inl FuelExhausted" "c_CallCode cs r a i g v e \<noteq> Inl FuelExhausted"
    "c_DelegateCall cs r a i g e \<noteq> Inl FuelExhausted" "c_StaticCall cs r a i g e \<noteq> Inl FuelExhausted"
    "c_Create cs r i g v e \<noteq> Inl FuelExhausted" "c_Create2 cs r i g v s e \<noteq> Inl FuelExhausted"
  using assms by (auto simp: calls_return_def)

lemma calls_gasD:
  assumes "calls_gas cs"
  shows "call_gas (c_Call cs r a i g v e) g" "call_gas (c_CallCode cs r a i g v e) g"
    "call_gas (c_DelegateCall cs r a i g e) g" "call_gas (c_StaticCall cs r a i g e) g"
    "create_gas (c_Create cs r i g v e) g" "create_gas (c_Create2 cs r i g v s e) g"
  using assms by (auto simp: calls_gas_def)

lemma forwards_panic: "0 < unat cost \<Longrightarrow> forwards cs cost f (Inl GoPanic)"
  by (auto simp: forwards_def intro!: exI [of _ 0])

lemma forwards_mem_Get:
  assumes "0 < unat cost" and "\<And>args. forwards cs cost f (h args)"
  shows "forwards cs cost f (bind_exec (mem_Get io iz m) h)"
  using mem_Get_cases [of io iz m] assms forwards_panic by auto

lemma forwards_call:
  assumes "unat gas < unat cost" "calls_gas cs \<Longrightarrow> call_gas nested gas"
    "\<And>b. calls_return cs b \<Longrightarrow> unat gas < b \<Longrightarrow> nested \<noteq> Inl FuelExhausted"
  shows "forwards cs cost f (bind_exec nested (finish_call ro rs s f))"
  unfolding forwards_def using assms by (intro exI [of _ gas] conjI disjI2 exI [of _ nested]) auto

lemma short_stack_panics:
  "length (stack f) < 7 \<Longrightarrow> opCall env cs f = Inl GoPanic" "length (stack f) < 7 \<Longrightarrow> opCallCode env cs f = Inl GoPanic"
  "length (stack f) < 6 \<Longrightarrow> opDelegateCall env cs f = Inl GoPanic" "length (stack f) < 6 \<Longrightarrow> opStaticCall env cs f = Inl GoPanic"
  by (auto simp: opCall_def opCallCode_def opDelegateCall_def opStaticCall_def split: list.splits)

lemma stack_six: "\<not> length st < 6 \<Longrightarrow> \<exists>g a b c d e s. st = g # a # b # c # d # e # s"
  by (auto simp: not_less Suc_le_length_iff numeral_eq_Suc)

lemma stack_seven: "\<not> length st < 7 \<Longrightarrow> \<exists>g a v b c d e s. st = g # a # v # b # c # d # e # s"
  by (auto simp: not_less Suc_le_length_iff numeral_eq_Suc)

lemma opCall_forwards:
  assumes "value_fee (stack f) + unat (callGasTemp (evm f)) < unat cost"
  shows "forwards cs cost f (opCall env cs f)" "forwards cs cost f (opCallCode env cs f)"
proof -
  have pos: "0 < unat cost" using assms by simp
  consider "length (stack f) < 7" | g a v io iz ro rz s where "stack f = g # a # v # io # iz # ro # rz # s"
    using stack_seven by blast
  then have "forwards cs cost f (opCall env cs f) \<and> forwards cs cost f (opCallCode env cs f)"
  proof cases
    case 2
    have lt: "unat (if U256 v \<noteq> 0 then callGasTemp (evm f) + CallStipend else callGasTemp (evm f)) < unat cost"
      by (rule stipend [OF assms]) (simp add: 2)
    have "forwards cs cost f (opCall env cs f)"
      by (simp only: opCall_def 2 list.case Let_def) (intro forwards_mem_Get [OF pos] forwards_call [OF lt] calls_gasD calls_returnD)
    moreover have "forwards cs cost f (opCallCode env cs f)"
      by (simp only: opCallCode_def 2 list.case Let_def) (intro forwards_mem_Get [OF pos] forwards_call [OF lt] calls_gasD calls_returnD)
    ultimately show ?thesis ..
  qed (simp add: short_stack_panics forwards_panic [OF pos])
  then show "forwards cs cost f (opCall env cs f)" "forwards cs cost f (opCallCode env cs f)" by simp_all
qed

lemma opDelegateCall_forwards:
  assumes "unat (callGasTemp (evm f)) < unat cost"
  shows "forwards cs cost f (opDelegateCall env cs f)" "forwards cs cost f (opStaticCall env cs f)"
proof -
  have pos: "0 < unat cost" using assms by simp
  consider "length (stack f) < 6" | g a io iz ro rz s where "stack f = g # a # io # iz # ro # rz # s"
    using stack_six by blast
  then have "forwards cs cost f (opDelegateCall env cs f) \<and> forwards cs cost f (opStaticCall env cs f)"
  proof cases
    case 2
    have "forwards cs cost f (opDelegateCall env cs f)"
      by (simp only: opDelegateCall_def 2 list.case) (intro forwards_mem_Get [OF pos] forwards_call [OF assms] calls_gasD calls_returnD)
    moreover have "forwards cs cost f (opStaticCall env cs f)"
      by (simp only: opStaticCall_def 2 list.case) (intro forwards_mem_Get [OF pos] forwards_call [OF assms] calls_gasD calls_returnD)
    ultimately show ?thesis ..
  qed (simp add: short_stack_panics forwards_panic [OF pos])
  then show "forwards cs cost f (opDelegateCall env cs f)" "forwards cs cost f (opStaticCall env cs f)" by simp_all
qed

subsubsection \<open>Creation\<close>

lemma create_gas_bound:
  fixes g :: uint64
  assumes "gas \<le> g" and "g' \<le> gas"
  shows "unat (g - gas + g') \<le> unat g"
proof -
  have "unat (g - gas) = unat g - unat gas" "unat gas \<le> unat g" "unat g' \<le> unat gas"
    using assms by (simp_all add: unat_sub word_le_nat_alt)
  then have "unat (g - gas) + unat g' \<le> unat g" by linarith
  then show ?thesis using unat_uint64_less [of g] by (simp add: unat_add_uint64)
qed

lemma gas_part: "(g :: uint64) - g div 64 \<le> g"
proof -
  have "g div 64 \<le> g" by (simp add: word_le_nat_alt unat_div)
  then show ?thesis by (simp add: word_le_nat_alt unat_sub)
qed

lemma created_gas:
  assumes "gas \<le> Gas (contract f)" "g' \<le> gas"
  shows "frame_gas (resume st g' e (f\<lparr> contract := snd (UseGas gas (contract f)) \<rparr>)) \<le> frame_gas f"
  using create_gas_bound [OF assms] assms(1) by (auto simp: resume_def UseGas_def)

text \<open>The creation instructions pass on at most the gas that is left after the charge.\<close>

lemma opCreate_fuel:
  assumes "calls_return cs b" "frame_gas f < b"
  shows "opCreate env cs f \<noteq> Inl FuelExhausted" "opCreate2 env cs f \<noteq> Inl FuelExhausted"
proof -
  let ?g = "Gas (contract f)"
  have lt: "unat (?g - ?g div 64) < b" using gas_part [of ?g] assms(2) by (simp add: word_le_nat_alt)
  show "opCreate env cs f \<noteq> Inl FuelExhausted"
    using calls_returnD(5) [OF assms(1) lt] calls_returnD(5) [OF assms(1,2)]
    by (simp add: opCreate_def Let_def bind_exec_Inl split: list.split prod.split)
  show "opCreate2 env cs f \<noteq> Inl FuelExhausted"
    using calls_returnD(6) [OF assms(1) lt]
    by (simp add: opCreate2_def Let_def bind_exec_Inl split: list.split prod.split)
qed

lemma opCreate_gas:
  assumes "calls_gas cs" "opCreate env cs f = Inr (res, err, f')"
  shows "frame_gas f' \<le> frame_gas f"
proof -
  let ?g = "Gas (contract f)"
  obtain v io iz s where st: "stack f = v # io # iz # s"
    using assms(2) by (auto simp: opCreate_def split: list.splits)
  define gas where "gas = (if IsEIP150 (chainConfig env) (Some (BlockNumber env)) then ?g - ?g div 64 else ?g)"
  have "gas \<le> ?g" by (simp add: gas_def gas_part)
  moreover obtain input ret a g' suberr e r where
    "c_Create cs (ContractObj (snd (UseGas gas (contract f)))) input gas v (evm f) = Inr (ret, a, g', suberr, e)"
    "f' = resume (r # s) g' e (f\<lparr> contract := snd (UseGas gas (contract f)) \<rparr>)"
    using assms(2) by (auto simp: opCreate_def st Let_def gas_def bind_exec_Inr)
  ultimately show ?thesis using calls_gasD(5) [OF assms(1)] created_gas by (metis create_gas_def)
qed

lemma opCreate2_gas:
  assumes "calls_gas cs" "opCreate2 env cs f = Inr (res, err, f')"
  shows "frame_gas f' \<le> frame_gas f"
proof -
  let ?g = "Gas (contract f)"
  obtain v io iz salt s where st: "stack f = v # io # iz # salt # s"
    using assms(2) by (auto simp: opCreate2_def split: list.splits)
  define gas where "gas = ?g - ?g div 64"
  have "gas \<le> ?g" by (simp add: gas_def gas_part)
  moreover obtain input ret a g' suberr e r where
    "c_Create2 cs (ContractObj (snd (UseGas gas (contract f)))) input gas v salt (evm f) = Inr (ret, a, g', suberr, e)"
    "f' = resume (r # s) g' e (f\<lparr> contract := snd (UseGas gas (contract f)) \<rparr>)"
    using assms(2) by (auto simp: opCreate2_def st Let_def gas_def bind_exec_Inr)
  ultimately show ?thesis using calls_gasD(6) [OF assms(1)] created_gas by (metis create_gas_def)
qed


lemma create_op_gas_ok:
  assumes "\<And>ms f. charges 1 (gasCost opn env ms f) f" and "execute opn = opCreate \<or> execute opn = opCreate2"
  shows "op_gas_ok env cs opn"
proof (rule op_gas_okI)
  fix ms f cost f1 c
  assume g: "gasCost opn env ms f = Inr (Inr cost, f1)" "UseGas cost (contract f1) = (True, c)"
  let ?f2 = "f1\<lparr> contract := c, mem := (if ms > 0 then mem_Resize ms (mem f1) else mem f1) \<rparr>"
  have "contract f1 = contract f" "1 \<le> unat cost" using assms(1) [of ms f] g(1) by (auto simp: charges_def)
  then have lt: "frame_gas ?f2 < frame_gas f" using conjunct1 [OF UseGas_True [OF g(2)]] by simp
  show "exec_gas_ok env cs opn (frame_gas f) ?f2"
    unfolding exec_gas_ok_def
  proof (intro conjI impI allI)
    show "execute opn env cs ?f2 \<noteq> Inl FuelExhausted" if "calls_return cs (frame_gas f)"
      using assms(2) opCreate_fuel [OF that lt] by auto
    fix res err f'
    assume "calls_gas cs" "execute opn env cs ?f2 = Inr (res, err, f')"
    then have "frame_gas f' \<le> frame_gas ?f2"
      using assms(2) opCreate_gas [of cs env ?f2 res err f'] opCreate2_gas [of cs env ?f2 res err f'] by auto
    then show "frame_gas f' \<le> frame_gas f" "frame_gas f' < frame_gas f" using lt by linarith+
  qed
qed (use assms(1) in \<open>auto simp: charges_def\<close>)

declare One_nat_def [simp del]

lemma charged_op:
  "(\<And>ms f. charges 1 (gasCost opn env ms f) f) \<Longrightarrow> (\<And>f. keeps_gas (execute opn env cs f) f) \<Longrightarrow> op_gas_ok env cs opn"
  by (rule plain_op_gas_ok [where k = 1]) simp_all

lemma halting_op:
  "(\<And>ms f. charges 0 (gasCost opn env ms f) f) \<Longrightarrow> (\<And>f. keeps_gas (execute opn env cs f) f) \<Longrightarrow> halts opn \<or> reverts opn \<Longrightarrow>
   op_gas_ok env cs opn"
  by (rule plain_op_gas_ok [where k = 0]) simp_all

lemma step_costs_positive: "1 \<le> unat GasQuickStep" "1 \<le> unat GasFastestStep" "1 \<le> unat GasFastStep" "1 \<le> unat GasMidStep"
  "1 \<le> unat GasSlowStep" "1 \<le> unat GasExtStep" "1 \<le> unat JumpdestGas"
  by (simp_all add: GasQuickStep_def GasFastestStep_def GasFastStep_def GasMidStep_def GasSlowStep_def GasExtStep_def JumpdestGas_def)

lemmas const_cost = step_costs_positive [THEN const_charges]
lemmas op_costs = const_cost simple_charges memory_charges log_charges sstore_charges suicide_charges

text \<open>A property of every valid entry of the selected table.\<close>

lemma table_entries:
  fixes env :: "'s Env"
  assumes "valid (NewEVMInterpreter_table env op)"
  shows "(op, NewEVMInterpreter_table env op) \<in> set frontier_entries \<union> set later_entries \<union>
    (if IsConstantinople (chainConfig env) (Some (BlockNumber env)) then {(EXTCODEHASH, op_entry opExtCodeHash gasExtCodeHash 1 1)} else {})"
proof -
  let ?later = "set later_entries :: (OpCode \<times> 's operation) set"
  have f: "(op, newFrontierInstructionSet op :: 's operation) \<in> set frontier_entries"
    if "valid (newFrontierInstructionSet op :: 's operation)"
    using that by (cases "map_of frontier_entries op :: 's operation option")
      (auto simp: newFrontierInstructionSet_def no_operation_def dest: map_of_SomeD)
  have h: "(op, newHomesteadInstructionSet op :: 's operation) \<in> set frontier_entries \<union> ?later"
    if "valid (newHomesteadInstructionSet op :: 's operation)"
    using that f by (simp add: newHomesteadInstructionSet_def later_entries_def split: if_splits)
  have b: "(op, newByzantiumInstructionSet op :: 's operation) \<in> set frontier_entries \<union> ?later"
    if "valid (newByzantiumInstructionSet op :: 's operation)"
    using that h by (simp add: newByzantiumInstructionSet_def later_entries_def split: if_splits)
  have c: "(op, newConstantinopleInstructionSet op :: 's operation) \<in> set frontier_entries \<union> ?later \<union> {(EXTCODEHASH, op_entry opExtCodeHash gasExtCodeHash 1 1)}"
    if "valid (newConstantinopleInstructionSet op :: 's operation)"
    using that b by (simp add: newConstantinopleInstructionSet_def later_entries_def split: if_splits)
  show ?thesis using f h b c assms by (auto simp: NewEVMInterpreter_table_def split: if_splits)
qed

lemma arithmetic_entries_gas: "list_all (\<lambda>(c, opn). op_gas_ok env cs opn) arithmetic_entries"
  unfolding arithmetic_entries_def list.pred_inject(2) prod.case
  by (intro conjI list.pred_inject(1); (rule charged_op, (simp add: op_entry_def op_costs; fail), simp add: op_entry_def keeps |
     rule halting_op, simp_all add: op_entry_def const_charges keeps))


lemma environment_entries_gas: "list_all (\<lambda>(c, opn). op_gas_ok env cs opn) environment_entries"
  unfolding environment_entries_def list.pred_inject(2) prod.case
  by (intro conjI list.pred_inject(1); rule charged_op; simp add: op_entry_def op_costs keeps)

lemma flow_entries_gas: "db_returns env \<Longrightarrow> list_all (\<lambda>(c, opn). op_gas_ok env cs opn) flow_entries"
  unfolding flow_entries_def list.pred_inject(2) prod.case
  by (intro conjI list.pred_inject(1); rule charged_op; simp add: op_entry_def op_costs keeps)

lemma call_op_ok:
  "op_gas_ok env cs ((op_entry opCall gasCall 7 1)\<lparr> memorySize := m, returns := True \<rparr>)"
  "op_gas_ok env cs ((op_entry opCallCode gasCallCode 7 1)\<lparr> memorySize := m, returns := True \<rparr>)"
  "op_gas_ok env cs ((op_entry opDelegateCall gasDelegateCall 6 1)\<lparr> memorySize := m, returns := True \<rparr>)"
  "op_gas_ok env cs ((op_entry opStaticCall gasStaticCall 6 1)\<lparr> memorySize := m, returns := True \<rparr>)"
proof -
  show "op_gas_ok env cs ((op_entry opCall gasCall 7 1)\<lparr> memorySize := m, returns := True \<rparr>)"
    by (rule call_op_gas_ok [where K = value_fee], unfold op_entry_def operation.simps, rule gasCall_charges, erule opCall_forwards)
  show "op_gas_ok env cs ((op_entry opCallCode gasCallCode 7 1)\<lparr> memorySize := m, returns := True \<rparr>)"
    by (rule call_op_gas_ok [where K = value_fee], unfold op_entry_def operation.simps, rule gasCallCode_charges, erule opCall_forwards)
  show "op_gas_ok env cs ((op_entry opDelegateCall gasDelegateCall 6 1)\<lparr> memorySize := m, returns := True \<rparr>)"
    "op_gas_ok env cs ((op_entry opStaticCall gasStaticCall 6 1)\<lparr> memorySize := m, returns := True \<rparr>)"
    by (rule call_op_gas_ok [where K = "\<lambda>_. 0"], simp_all add: op_entry_def gasDelegateCall_charges opDelegateCall_forwards)+
qed

lemma call_entries_gas: "list_all (\<lambda>(c, opn). op_gas_ok env cs opn) call_entries"
  unfolding call_entries_def list.pred_inject(2) prod.case
  by (intro conjI list.pred_inject(1); (rule call_op_ok | (rule halting_op, (simp add: op_entry_def op_costs keeps; fail)+) |
     (rule create_op_gas_ok, (simp add: op_entry_def op_costs; fail)+)))

lemma generated_entries_gas:
  "list_all (\<lambda>(c, opn). op_gas_ok env cs opn) (map push_entry ns)"
  "list_all (\<lambda>(c, opn). op_gas_ok env cs opn) (map dup_entry ns)"
  "list_all (\<lambda>(c, opn). op_gas_ok env cs opn) (map swap_entry ns)"
  "list_all (\<lambda>(c, opn). op_gas_ok env cs opn) (map log_entry ns)"
  by (auto simp: list_all_iff push_entry_def dup_entry_def swap_entry_def log_entry_def op_entry_def op_costs keeps intro!: charged_op)

lemma frontier_entries_gas:
  assumes "db_returns env" and "(c, opn) \<in> set frontier_entries"
  shows "op_gas_ok env cs opn"
proof -
  have "list_all (\<lambda>(c, opn). op_gas_ok env cs opn) frontier_entries"
    unfolding frontier_entries_def list_all_append
    by (intro conjI arithmetic_entries_gas environment_entries_gas flow_entries_gas [OF assms(1)] call_entries_gas generated_entries_gas)
  then show ?thesis using assms(2) unfolding list_all_iff by fast
qed

lemma later_entries_gas: "list_all (\<lambda>(c, opn). op_gas_ok env cs opn) later_entries"
  unfolding later_entries_def list.pred_inject(2) prod.case
  by (intro conjI list.pred_inject(1);
    (rule call_op_ok | (rule charged_op, (simp add: op_entry_def op_costs; fail), (simp add: op_entry_def keeps; fail)) |
     (rule halting_op, (simp add: op_entry_def op_costs; fail), (simp add: op_entry_def keeps; fail), simp add: op_entry_def) |
     (rule create_op_gas_ok, simp_all add: op_entry_def op_costs)))

lemma opExtCodeHash_gas:
  "IsConstantinople (chainConfig env) (Some (BlockNumber env)) \<Longrightarrow> op_gas_ok env cs (op_entry opExtCodeHash gasExtCodeHash 1 1)"
  using ExtcodeHash_positive [of env]
  by (intro charged_op) (simp_all add: op_entry_def keeps gasExtCodeHash_def charges_def)

lemma table_gas:
  assumes "db_returns env" and "valid (NewEVMInterpreter_table env op)"
  shows "op_gas_ok env cs (NewEVMInterpreter_table env op)"
  using table_entries [OF assms(2)] later_entries_gas [of env cs] frontier_entries_gas [OF assms(1)] opExtCodeHash_gas [of env cs]
  by (auto simp: list_all_iff split: if_splits)

subsection \<open>The loop\<close>

lemma memory_request_no_fuel:
  assumes "\<And>g st. memorySize opn = Some g \<Longrightarrow> g st \<noteq> Inl FuelExhausted"
  shows "memory_request opn f \<noteq> Inl FuelExhausted"
  using assms by (auto simp: memory_request_def bind_exec_Inl split: option.split prod.split)

lemma memory_functions_no_fuel [simp]:
  "mem_range i j st \<noteq> Inl FuelExhausted"
  "memorySha3 st \<noteq> Inl FuelExhausted" "memoryCallDataCopy st \<noteq> Inl FuelExhausted"
  "memoryReturnDataCopy st \<noteq> Inl FuelExhausted" "memoryCodeCopy st \<noteq> Inl FuelExhausted"
  "memoryExtCodeCopy st \<noteq> Inl FuelExhausted" "memoryMLoad st \<noteq> Inl FuelExhausted"
  "memoryMStore8 st \<noteq> Inl FuelExhausted" "memoryMStore st \<noteq> Inl FuelExhausted"
  "memoryCreate st \<noteq> Inl FuelExhausted" "memoryCreate2 st \<noteq> Inl FuelExhausted"
  "memoryCall st \<noteq> Inl FuelExhausted" "memoryDelegateCall st \<noteq> Inl FuelExhausted"
  "memoryStaticCall st \<noteq> Inl FuelExhausted" "memoryReturn st \<noteq> Inl FuelExhausted"
  "memoryRevert st \<noteq> Inl FuelExhausted" "memoryLog st \<noteq> Inl FuelExhausted"
  by (simp_all add: memorySha3_def memoryCallDataCopy_def memoryReturnDataCopy_def memoryCodeCopy_def memoryExtCodeCopy_def
      memoryMLoad_def memoryMStore8_def memoryMStore_def memoryCreate_def memoryCreate2_def memoryCall_def
      memoryDelegateCall_def memoryStaticCall_def memoryReturn_def memoryRevert_def memoryLog_def mem_max_def mem_range_def
      bind_exec_Inl)

lemma table_memory: "valid (NewEVMInterpreter_table env op) \<Longrightarrow> mem_fun_ok (NewEVMInterpreter_table env op)"
proof -
  assume "valid (NewEVMInterpreter_table env op)"
  from table_entries [OF this] have e: "(op, NewEVMInterpreter_table env op) \<in>
    set (frontier_entries @ later_entries @ [(EXTCODEHASH, op_entry opExtCodeHash gasExtCodeHash 1 1)])"
    by (auto split: if_splits)
  have "list_all (\<lambda>(c, opn). mem_fun_ok opn)
    (frontier_entries @ later_entries @ [(EXTCODEHASH, op_entry opExtCodeHash gasExtCodeHash 1 1)])"
    unfolding frontier_entries_def arithmetic_entries_def environment_entries_def flow_entries_def call_entries_def
      later_entries_def list_all_append list.pred_inject(2) prod.case
    by (intro conjI list.pred_inject(1))
      (simp_all add: mem_fun_ok_def op_entry_def list_all_iff push_entry_def dup_entry_def swap_entry_def log_entry_def)
  then show ?thesis using e unfolding list_all_iff by fast
qed

lemma op_gas_okD:
  assumes "op_gas_ok env cs opn"
  shows "calls_return cs (frame_gas f) \<Longrightarrow> charge_and_execute env cs opn ms f \<noteq> Inl FuelExhausted"
    "calls_gas cs \<Longrightarrow> charge_and_execute env cs opn ms f = Inr (Continue f') \<Longrightarrow> frame_gas f' < frame_gas f"
    "calls_gas cs \<Longrightarrow> charge_and_execute env cs opn ms f = Inr (Halt res err f') \<Longrightarrow> frame_gas f' \<le> frame_gas f"
  using assms unfolding op_gas_ok_def by blast+

lemma step_cases:
  assumes "step env cs f = Inr r"
  obtains e where "r = Halt [] (Some e) f"
  | opn ms where "opn = NewEVMInterpreter_table env (GetOp (contract f) (pc f))" "valid opn"
      "validateStack opn (stack f) = None" "enforceRestrictions env (GetOp (contract f) (pc f)) opn f = Inr None"
      "memory_request opn f = Inr (Inr ms)" "charge_and_execute env cs opn ms f = Inr r"
proof -
  let ?op = "GetOp (contract f) (pc f)"
  let ?o = "NewEVMInterpreter_table env ?op"
  show ?thesis
  proof (cases "valid ?o \<and> validateStack ?o (stack f) = None \<and> enforceRestrictions env ?op ?o f = Inr None")
    case False
    then show ?thesis using assms that(1)
      by (auto simp: step_def Let_def bind_exec_Inr split: if_splits option.splits)
  next
    case True
    then obtain x where x: "memory_request ?o f = Inr x"
      "(case x of Inl e \<Rightarrow> Inr (Halt [] (Some e) f) | Inr ms \<Rightarrow> charge_and_execute env cs ?o ms f) = Inr r"
      using assms by (auto simp: step_def Let_def bind_exec_Inr)
    show ?thesis using x True that by (cases x) auto
  qed
qed

lemma step_gas:
  assumes "db_returns env"
  shows "calls_return cs (frame_gas f) \<Longrightarrow> step env cs f \<noteq> Inl FuelExhausted"
    and "calls_gas cs \<Longrightarrow> step env cs f = Inr (Continue f') \<Longrightarrow> frame_gas f' < frame_gas f"
    and "calls_gas cs \<Longrightarrow> step env cs f = Inr (Halt res err f') \<Longrightarrow> frame_gas f' \<le> frame_gas f"
proof -
  let ?op = "GetOp (contract f) (pc f)"
  let ?o = "NewEVMInterpreter_table env ?op"
  have e: "enforceRestrictions env ?op ?o f \<noteq> Inl FuelExhausted" by (simp add: enforceRestrictions_def bind_exec_Inl)
  have g: "op_gas_ok env cs ?o" "mem_fun_ok ?o" if "valid ?o" using that table_gas [OF assms] table_memory by blast+
  show "calls_return cs (frame_gas f) \<Longrightarrow> step env cs f \<noteq> Inl FuelExhausted"
    using e g memory_request_no_fuel [of ?o f]
    by (auto simp: step_def Let_def bind_exec_Inl mem_fun_ok_def dest: op_gas_okD(1) split: option.splits sum.splits)
  show "frame_gas f' < frame_gas f" if "calls_gas cs" "step env cs f = Inr (Continue f')"
    using that(2) by (cases rule: step_cases) (use g(1) op_gas_okD(2) that(1) in auto)
  show "frame_gas f' \<le> frame_gas f" if "calls_gas cs" "step env cs f = Inr (Halt res err f')"
    using that(2) by (cases rule: step_cases) (use g(1) op_gas_okD(3) that(1) in auto)
qed

section \<open>The interpreter loop\<close>

lemma calls_return_mono: "calls_return cs b \<Longrightarrow> a \<le> b \<Longrightarrow> calls_return cs a"
  unfolding calls_return_def by (meson order_less_le_trans)

lemma run_loop_returns:
  assumes "db_returns env" "calls_gas cs"
  shows "frame_gas f < n \<Longrightarrow> calls_return cs (frame_gas f) \<Longrightarrow> run_loop n env cs f \<noteq> Inl FuelExhausted"
proof (induction n arbitrary: f)
  case (Suc n)
  show ?case
  proof (cases "step env cs f")
    case (Inl e)
    then show ?thesis using step_gas(1) [OF assms(1) Suc.prems(2)] by auto
  next
    case r: (Inr r)
    show ?thesis
    proof (cases r)
      case (Continue f1)
      then have "frame_gas f1 < frame_gas f" using step_gas(2) [OF assms] r by simp
      then have "run_loop n env cs f1 \<noteq> Inl FuelExhausted"
        using Suc.IH [of f1] Suc.prems calls_return_mono [of cs "frame_gas f" "frame_gas f1"] by simp
      then show ?thesis using r Continue by simp
    qed (use r in simp)
  qed
qed simp

lemma run_loop_gas:
  assumes "db_returns env" "calls_gas cs"
  shows "run_loop n env cs f = Inr (res, err, f') \<Longrightarrow> frame_gas f' \<le> frame_gas f"
proof (induction n arbitrary: f)
  case (Suc n)
  show ?case
  proof (cases "evm_abort (evm f)")
    case False
    then obtain r where r: "step env cs f = Inr r" using Suc.prems by (auto simp: bind_exec_Inr)
    show ?thesis
    proof (cases r)
      case (Continue f1)
      then have "frame_gas f1 < frame_gas f" using step_gas(2) [OF assms] r by simp
      moreover have "frame_gas f' \<le> frame_gas f1" using Suc False r Continue by simp
      ultimately show ?thesis by simp
    next
      case (Halt res1 err1 f1)
      then show ?thesis using step_gas(3) [OF assms] r Suc.prems False by simp
    qed
  qed (use Suc.prems in simp)
qed simp

section \<open>A frame of execution\<close>

lemma UseGas_le: "Gas (snd (UseGas g c)) \<le> Gas c"
  by (auto simp: UseGas_def not_less intro: word_sub_le)

lemma RunPrecompiledContract_gas: "RunPrecompiledContract p input c = (ret, err, c') \<Longrightarrow> Gas c' \<le> Gas c"
  using UseGas_le [of "RequiredGas p input" c]
  by (auto simp: RunPrecompiledContract_def split: prod.splits bool.splits)

lemma Run_gas:
  assumes "db_returns env" "calls_gas cs"
  shows "Run n cs env c input ro e = Inr (ret, err, c', e') \<Longrightarrow> Gas c' \<le> Gas c"
  using run_loop_gas [OF assms]
  by (fastforce simp: Run_def Let_def bind_exec_Inr word_le_nat_alt split: if_splits)

lemma Run_returns:
  assumes "db_returns env" "calls_gas cs" "calls_return cs (unat (Gas c))" "unat (Gas c) < n"
  shows "Run n cs env c input ro e \<noteq> Inl FuelExhausted"
proof -
  have "run_loop n env cs f \<noteq> Inl FuelExhausted" if "frame_gas f = unat (Gas c)" for f
    using run_loop_returns [OF assms(1,2)] assms(3,4) that by simp
  then show ?thesis by (auto simp: Run_def Let_def bind_exec_Inl)
qed

lemma evm_run_gas:
  assumes "db_returns env" "calls_gas cs" "evm_run n cs env c input ro e = Inr (ret, err, c', e')"
  shows "Gas c' \<le> Gas c"
  using assms(3) Run_gas [OF assms(1,2)] RunPrecompiledContract_gas
  by (fastforce simp: evm_run_def split: option.splits prod.splits)

lemma evm_run_returns:
  assumes "db_returns env" "calls_gas cs" "calls_return cs (unat (Gas c))" "unat (Gas c) < n"
  shows "evm_run n cs env c input ro e \<noteq> Inl FuelExhausted"
  using Run_returns [OF assms] by (auto simp: evm_run_def split: option.splits prod.splits)

section \<open>Calls and creations\<close>

text \<open>
  The four calls and the creation end in a bind of the execution with the code that leaves the frame.
\<close>

lemma revert_db_returns: "db_returns env \<Longrightarrow> revert_db env i e \<noteq> Inl FuelExhausted"
  by (auto simp: revert_db_def db_returns_def bind_exec_Inl)

lemma leave_call_gas: "leave_call env i (ret, err, c, e) = Inr (ret', g, err', e') \<Longrightarrow> g \<le> Gas c"
  using UseGas_le [of "Gas c" c] by (auto simp: leave_call_def bind_exec_Inr split: option.splits if_splits)

lemma leave_call_returns: "db_returns env \<Longrightarrow> leave_call env i r \<noteq> Inl FuelExhausted"
  using revert_db_returns by (auto simp: leave_call_def bind_exec_Inl split: option.splits prod.splits)

lemma store_code_gas: "store_code env a (ret, err, c, e) = (err', c', e') \<Longrightarrow> Gas c' \<le> Gas c"
  using UseGas_le [of "word_of_nat (length ret) * CreateDataGas" c]
  by (auto simp: store_code_def split: prod.splits bool.splits if_splits)

lemma leave_create_gas:
  assumes "leave_create env i a (ret, err, c, e) = Inr (ret', a', g, err', e')"
  shows "g \<le> Gas c"
proof -
  obtain err1 c1 e1 where s: "store_code env a (ret, err, c, e) = (err1, c1, e1)" by (metis prod_cases3)
  have "g \<le> Gas c1" using assms s UseGas_le [of "Gas c1" c1]
    by (auto simp: leave_create_def Let_def bind_exec_Inr split: if_splits)
  then show ?thesis using store_code_gas [OF s] by simp
qed

lemma leave_create_returns: "db_returns env \<Longrightarrow> leave_create env i a r \<noteq> Inl FuelExhausted"
  using revert_db_returns by (auto simp: leave_create_def Let_def bind_exec_Inl split: prod.splits)

lemma load_code_gas: "load_code env a c e = (c', e') \<Longrightarrow> Gas c' = Gas c"
  by (auto simp: load_code_def SetCallCode_def split: prod.splits)

lemma new_contract_gas [simp]:
  "Gas (NewContract caller a v g) = g" "Gas (SetCodeOptionalHash a code h c) = Gas c"
  by (simp_all add: NewContract_def SetCodeOptionalHash_def)

lemma AsDelegate_gas: "AsDelegate caller c = Inr c' \<Longrightarrow> Gas c' = Gas c"
  by (auto simp: AsDelegate_def bind_exec_Inr split: ContractRef.splits)

lemma AsDelegate_returns: "AsDelegate caller c \<noteq> Inl FuelExhausted"
  by (auto simp: AsDelegate_def bind_exec_Inl split: ContractRef.splits)

text \<open>What running a frame and leaving it gives, for the calls and for the creation.\<close>

lemma run_call:
  assumes "db_returns env" "calls_gas cs" "Gas c = gas"
  shows "call_gas (bind_exec (evm_run n cs env c input ro e) (leave_call env i)) gas"
    and "calls_return cs (unat gas) \<Longrightarrow> unat gas < n \<Longrightarrow>
      bind_exec (evm_run n cs env c input ro e) (leave_call env i) \<noteq> Inl FuelExhausted"
proof -
  show "call_gas (bind_exec (evm_run n cs env c input ro e) (leave_call env i)) gas"
    using evm_run_gas [OF assms(1,2)] leave_call_gas assms(3) by (fastforce simp: call_gas_def bind_exec_Inr)
  show "bind_exec (evm_run n cs env c input ro e) (leave_call env i) \<noteq> Inl FuelExhausted"
    if "calls_return cs (unat gas)" "unat gas < n"
    using evm_run_returns [OF assms(1,2)] leave_call_returns [OF assms(1)] assms(3) that by (auto simp: bind_exec_Inl)
qed

lemma run_create:
  assumes "db_returns env" "calls_gas cs" "Gas c = gas"
  shows "create_gas (bind_exec (evm_run n cs env c input ro e) (leave_create env i a)) gas"
    and "calls_return cs (unat gas) \<Longrightarrow> unat gas < n \<Longrightarrow>
      bind_exec (evm_run n cs env c input ro e) (leave_create env i a) \<noteq> Inl FuelExhausted"
proof -
  show "create_gas (bind_exec (evm_run n cs env c input ro e) (leave_create env i a)) gas"
    using evm_run_gas [OF assms(1,2)] leave_create_gas assms(3) by (fastforce simp: create_gas_def bind_exec_Inr)
  show "bind_exec (evm_run n cs env c input ro e) (leave_create env i a) \<noteq> Inl FuelExhausted"
    if "calls_return cs (unat gas)" "unat gas < n"
    using evm_run_returns [OF assms(1,2)] leave_create_returns [OF assms(1)] assms(3) that by (auto simp: bind_exec_Inl)
qed

lemma call_gas_simps [simp]:
  "call_gas (Inl x) gas" "call_gas (Inr (ret, g, err, e)) gas \<longleftrightarrow> g \<le> gas"
  "create_gas (Inl x) gas" "create_gas (Inr (ret, a, g, err, e1)) gas \<longleftrightarrow> g \<le> gas"
  by (auto simp: call_gas_def create_gas_def)

lemma evm_gas:
  assumes "db_returns env" "calls_gas cs"
  shows "call_gas (Call n cs env r a i g v e) g" "call_gas (CallCode n cs env r a i g v e) g"
    "call_gas (DelegateCall n cs env r a i g e) g" "call_gas (StaticCall n cs env r a i g e) g"
    "create_gas (Create n cs env r i g v e) g" "create_gas (Create2 n cs env r i g v s e) g"
proof -
  note rc = run_call(1) [OF assms] and lc = load_code_gas
  show "call_gas (Call n cs env r a i g v e) g" "call_gas (CallCode n cs env r a i g v e) g"
    "call_gas (StaticCall n cs env r a i g e) g"
    by (auto simp: Call_def CallCode_def StaticCall_def Let_def split: prod.split bool.split dest!: lc intro!: rc)
  have "call_gas (bind_exec (AsDelegate r (NewContract r (ref_Address r) None g)) (\<lambda>c0.
            case load_code env a c0 e' of (c, e2) \<Rightarrow>
              bind_exec (evm_run n cs env c i False e2) (leave_call env j))) g" for e' j
    by (cases "AsDelegate r (NewContract r (ref_Address r) None g)")
      (auto dest!: AsDelegate_gas lc split: prod.split intro!: rc)
  then show "call_gas (DelegateCall n cs env r a i g e) g" by (auto simp: DelegateCall_def split: prod.split)
  have "create_gas (create n cs env r i h g v adr e') g" for h adr e'
    by (auto simp: create_def Let_def split: prod.split bool.split intro!: run_create(1) [OF assms])
  then show "create_gas (Create n cs env r i g v e) g" "create_gas (Create2 n cs env r i g v s e) g"
    by (auto simp: Create_def Create2_def Let_def split: prod.split)
qed

lemma evm_returns:
  assumes "db_returns env" "calls_gas cs" "calls_return cs (unat g)" "unat g < n"
  shows "Call n cs env r a i g v e \<noteq> Inl FuelExhausted" "CallCode n cs env r a i g v e \<noteq> Inl FuelExhausted"
    "DelegateCall n cs env r a i g e \<noteq> Inl FuelExhausted" "StaticCall n cs env r a i g e \<noteq> Inl FuelExhausted"
    "Create n cs env r i g v e \<noteq> Inl FuelExhausted" "Create2 n cs env r i g v s e \<noteq> Inl FuelExhausted"
proof -
  note rc = run_call(2) [OF assms(1,2) _ assms(3,4), THEN notE] and lc = load_code_gas
  show "Call n cs env r a i g v e \<noteq> Inl FuelExhausted" "CallCode n cs env r a i g v e \<noteq> Inl FuelExhausted"
    "StaticCall n cs env r a i g e \<noteq> Inl FuelExhausted"
    by (auto simp: Call_def CallCode_def StaticCall_def Let_def split: prod.splits bool.splits if_splits dest!: lc elim!: rc [rotated])
  have "bind_exec (AsDelegate r (NewContract r (ref_Address r) None g)) (\<lambda>c0.
            case load_code env a c0 e' of (c, e2) \<Rightarrow>
              bind_exec (evm_run n cs env c i False e2) (leave_call env j)) \<noteq> Inl FuelExhausted" for e' j
    using AsDelegate_returns [of r "NewContract r (ref_Address r) None g"]
    by (cases "AsDelegate r (NewContract r (ref_Address r) None g)")
      (auto dest!: AsDelegate_gas lc split: prod.splits elim!: rc [rotated])
  then show "DelegateCall n cs env r a i g e \<noteq> Inl FuelExhausted" by (auto simp: DelegateCall_def split: prod.splits)
  have "create n cs env r i h g v adr e' \<noteq> Inl FuelExhausted" for h adr e'
    using run_create(2) [OF assms(1,2) _ assms(3,4)]
    by (auto simp: create_def Let_def split: prod.splits bool.splits if_splits)
  then show "Create n cs env r i g v e \<noteq> Inl FuelExhausted" "Create2 n cs env r i g v s e \<noteq> Inl FuelExhausted"
    by (auto simp: Create_def Create2_def Let_def split: prod.splits)
qed

lemma evm_calls_gas: "db_returns env \<Longrightarrow> calls_gas (evm_calls n env)"
proof (induction n)
  case 0
  then show ?case by (simp add: calls_gas_def no_calls_def)
next
  case (Suc n)
  then show ?case using evm_gas [OF Suc.prems Suc.IH] by (simp add: calls_gas_def)
qed

lemma evm_calls_return: "db_returns env \<Longrightarrow> calls_return (evm_calls n env) (n - 1)"
proof (induction n)
  case 0
  then show ?case by (simp add: calls_return_def)
next
  case (Suc n)
  have "calls_return (evm_calls n env) (unat g)" if "unat g < n" for g :: uint64
    using calls_return_mono [OF Suc.IH [OF Suc.prems]] that by simp
  then show ?case using evm_returns [OF Suc.prems evm_calls_gas [OF Suc.prems]] by (simp add: calls_return_def)
qed

lemma enough_fuel:
  assumes "db_returns env" "unat g < n"
  shows "calls_return (evm_calls n env) (unat g)"
  using calls_return_mono [OF evm_calls_return [OF assms(1)], of "unat g" n] assms(2) by simp

end
