(* ===== verification/Vm_Theorems.thy ===== *)
theory Vm_Theorems
  imports Vm_Termination
begin

text \<open>
  The main properties of the virtual machine, with a small environment on which they are evaluated.
\<close>

section \<open>Execution ends\<close>

text \<open>C2. A message call and a contract creation return for every code, input and state: fuel above the gas, for the
  interpreter loop and for the nested calls, is enough, if the database operations that may panic do so and return.  The
  gas that is left is at most the gas that was given.\<close>

theorem evm_terminates_within_gas:
  assumes "db_returns env" and "unat gas < n"
  shows "Call n (evm_calls n env) env caller addr input gas v e \<noteq> Inl FuelExhausted \<and>
    Create n (evm_calls n env) env caller input gas v e \<noteq> Inl FuelExhausted \<and>
    call_gas (Call n (evm_calls n env) env caller addr input gas v e) gas \<and>
    create_gas (Create n (evm_calls n env) env caller input gas v e) gas"
proof (intro conjI)
  note calls = evm_calls_gas [OF assms(1), of n]
  show "Call n (evm_calls n env) env caller addr input gas v e \<noteq> Inl FuelExhausted"
    by (rule evm_returns(1) [OF assms(1) calls enough_fuel [OF assms] assms(2)])
  show "Create n (evm_calls n env) env caller input gas v e \<noteq> Inl FuelExhausted"
    by (rule evm_returns(5) [OF assms(1) calls enough_fuel [OF assms] assms(2)])
  show "call_gas (Call n (evm_calls n env) env caller addr input gas v e) gas" by (rule evm_gas(1) [OF assms(1) calls])
  show "create_gas (Create n (evm_calls n env) env caller input gas v e) gas" by (rule evm_gas(5) [OF assms(1) calls])
qed

text \<open>A database with nothing but balances, in which every account has the code of an endless loop, and an environment with it.\<close>

definition balance_db :: "(address \<Rightarrow> bigint) StateDB_ops" where
  "balance_db =
    \<lparr> db_CreateAccount = (\<lambda>a s. s), db_SubBalance = (\<lambda>a x s. s(a := s a - x)), db_AddBalance = (\<lambda>a x s. s(a := s a + x)),
      db_GetBalance = (\<lambda>a s. (s a, s)), db_GetNonce = (\<lambda>a s. (0, s)), db_SetNonce = (\<lambda>a n s. s),
      db_GetCodeHash = (\<lambda>a s. (0, s)), db_GetCode = (\<lambda>a s. ([0x5B, 0x60, 0x00, 0x56], s)), db_SetCode = (\<lambda>a c s. s), db_GetCodeSize = (\<lambda>a s. (4, s)),
      db_AddRefund = (\<lambda>g s. s), db_SubRefund = (\<lambda>g s. Inr s), db_GetCommittedState = (\<lambda>a k s. (0, s)),
      db_GetState = (\<lambda>a k s. (0, s)), db_SetState = (\<lambda>a k v s. s), db_Suicide = (\<lambda>a s. s), db_HasSuicided = (\<lambda>a s. (False, s)),
      db_Exist = (\<lambda>a s. (True, s)), db_Empty = (\<lambda>a s. (False, s)), db_RevertToSnapshot = (\<lambda>i s. Inr s), db_Snapshot = (\<lambda>s. (0, s)),
      db_AddLog = (\<lambda>l s. s), db_AddPreimage = (\<lambda>h b s. s) \<rparr>"

definition loop_config :: ChainConfig where
  "loop_config = \<lparr> ChainId = Some 1, HomesteadBlock = Some 0, EIP150Block = Some 0, EIP150Hash = 0, EIP155Block = Some 0,
    EIP158Block = Some 0, ByzantiumBlock = Some 0, ConstantinopleBlock = Some 0, PetersburgBlock = Some 0, DarvazaBlock = None,
    DarvazaDefaultGas = None, EWASMBlock = None, Clique_config = None \<rparr>"

definition loop_env :: "(address \<Rightarrow> bigint) Env" where
  "loop_env = \<lparr> vm_db = balance_db, GetHash = (\<lambda>_. 0), Origin = 1, GasPrice = 1, e_Coinbase = 0, GasLimit = 1000000,
    BlockNumber = 10, e_Time = 1000, e_Difficulty = 1, chainConfig = loop_config, NoRecursion = False,
    EnablePreimageRecording = False, vm_keccak = (\<lambda>_. 0), PrecompiledContractsHomestead = (\<lambda>_. None),
    PrecompiledContractsByzantium = (\<lambda>_. None) \<rparr>"

definition loop_evm :: "(address \<Rightarrow> bigint) EVM" where
  "loop_evm = \<lparr> StateDB = (\<lambda>_. 0), depth = 0, evm_abort = False, callGasTemp = 0, readOnly = False, returnData = [], jumpdests = [] \<rparr>"

theorem evm_terminates_within_gas_witness:
  "db_returns loop_env \<and> Call 1001 (evm_calls 1001 loop_env) loop_env (AccountRef 1) 2 [] 1000 0 loop_evm \<noteq> Inl FuelExhausted"
proof -
  have "db_returns loop_env" by (simp add: db_returns_def loop_env_def balance_db_def)
  then show ?thesis
    using evm_terminates_within_gas [of loop_env 1000 1001 "AccountRef 1" 2 "[]" 0 loop_evm] by simp
qed

end
