(* ===== verification/Trie_Encoding.thy ===== *)
theory Trie_Encoding
  imports Common
begin

unbundle bit_operations_syntax

text \<open>
  The key encodings of the Merkle Patricia trie (\<open>trie/encoding.go\<close>): key bytes, hex nibbles with an
  optional terminator, and the compact form of the stored nodes.
\<close>

section \<open>Definitions\<close>

definition hasTerm :: "bytes \<Rightarrow> bool" where
  "hasTerm s \<longleftrightarrow> length s > 0 \<and> s ! (length s - 1) = 16"

text \<open>\<open>decodeNibbles\<close> writes to the given slice; it panics on an odd number of nibbles or a short slice.\<close>

fun decodeNibbles :: "bytes \<Rightarrow> bytes \<Rightarrow> bytes exec" where
  "decodeNibbles [] bs = Inr bs"
| "decodeNibbles (h # l # nibbles) (b # bs) =
    bind_exec (decodeNibbles nibbles bs) (\<lambda>r. Inr ((push_bit 4 h OR l) # r))"
| "decodeNibbles _ _ = Inl GoPanic"

definition keybytesToHex :: "bytes \<Rightarrow> bytes" where
  "keybytesToHex str = concat (map (\<lambda>b. [b div 16, b mod 16]) str) @ [16]"

definition hexToKeybytes :: "bytes \<Rightarrow> bytes exec" where
  "hexToKeybytes hex0 =
    (let hex = (if hasTerm hex0 then take (length hex0 - 1) hex0 else hex0) in
     if odd (length hex) then Inl GoPanic
     else decodeNibbles hex (replicate (length hex div 2) 0))"

definition hexToCompact :: "bytes \<Rightarrow> bytes exec" where
  "hexToCompact hex0 =
    (let terminator = (if hasTerm hex0 then 1 else 0);
         hex = (if hasTerm hex0 then take (length hex0 - 1) hex0 else hex0);
         flag = push_bit 5 terminator;
         buf = replicate (length hex div 2) 0 in
     if odd (length hex)
     then bind_exec (decodeNibbles (drop 1 hex) buf) (\<lambda>r. Inr ((flag OR push_bit 4 1 OR hex ! 0) # r))
     else bind_exec (decodeNibbles hex buf) (\<lambda>r. Inr (flag # r)))"

text \<open>\<open>base[chop:]\<close> panics if the slice is shorter than \<open>chop\<close>, which is so for the empty string.\<close>

definition compactToHex :: "bytes \<Rightarrow> bytes exec" where
  "compactToHex compact =
    (let base0 = keybytesToHex compact;
         base = (if base0 ! 0 < 2 then take (length base0 - 1) base0 else base0);
         chop = 2 - unat (base ! 0 AND 1) in
     if chop > length base then Inl GoPanic else Inr (drop chop base))"

fun prefixLen :: "bytes \<Rightarrow> bytes \<Rightarrow> nat" where
  "prefixLen (x # a) (y # b) = (if x \<noteq> y then 0 else Suc (prefixLen a b))"
| "prefixLen _ _ = 0"

text \<open>Keys in hex form: nibbles, and nibbles followed by the terminator.\<close>

definition nibbles :: "bytes \<Rightarrow> bool" where
  "nibbles k \<longleftrightarrow> (\<forall>x \<in> set k. x < 16)"

definition hexkey :: "bytes \<Rightarrow> bool" where
  "hexkey k \<longleftrightarrow> (\<exists>p. k = p @ [16] \<and> nibbles p)"

text \<open>The path that a compact key stands for: the odd nibble, the nibbles after the flags, the terminator.\<close>

definition compact_path :: "bytes \<Rightarrow> bytes" where
  "compact_path k =
    (if odd (hd k div 16) then [hd k mod 16] else []) @ concat (map (\<lambda>b. [b div 16, b mod 16]) (tl k)) @
    (if 2 \<le> hd k div 16 then [16] else [])"

section \<open>Keys in hex form\<close>

lemma nibbles_simps [simp]:
  "nibbles []" "nibbles (x # k) \<longleftrightarrow> x < 16 \<and> nibbles k" "nibbles (k @ l) \<longleftrightarrow> nibbles k \<and> nibbles l"
  by (auto simp: nibbles_def)

lemma hasTerm_simps [simp]: "\<not> hasTerm []" "hasTerm (k @ [x]) \<longleftrightarrow> x = 16"
  by (auto simp: hasTerm_def)

lemma nibbles_not_term: "nibbles k \<Longrightarrow> \<not> hasTerm k"
  by (cases k rule: rev_cases) auto

lemma hexkey_Cons: "hexkey (x # k) \<longleftrightarrow> (if k = [] then x = 16 else x < 16 \<and> hexkey k)"
  by (cases k rule: rev_cases) (auto simp: hexkey_def Cons_eq_append_conv)

lemma hexkey_not_Nil [simp]: "\<not> hexkey []"
  by (simp add: hexkey_def)

lemma hexkey_append: "hexkey (p @ k) \<longleftrightarrow> (if k = [] then hexkey p else nibbles p \<and> hexkey k)"
  by (induction p) (auto simp: hexkey_Cons)

lemma hexkey_le: "hexkey k \<Longrightarrow> x \<in> set k \<Longrightarrow> x \<le> 16"
  by (fastforce simp: hexkey_def nibbles_def)

lemma nibble_bits: "b div 16 = drop_bit 4 b" "b mod 16 = take_bit 4 b" for b :: byte
  by (simp_all add: drop_bit_eq_div take_bit_eq_mod)

lemma nibble_join: "push_bit 4 (b div 16) OR (b mod 16) = b" for b :: byte
  unfolding nibble_bits
  by (rule bit_word_eqI) (auto simp: bit_or_iff bit_push_bit_iff bit_drop_bit_eq bit_take_bit_iff)

lemma keybytesToHex_Cons: "keybytesToHex (b # str) = (b div 16) # (b mod 16) # keybytesToHex str"
  by (simp add: keybytesToHex_def)

lemma nibble_less: "b div 16 < 16" "b mod 16 < 16" for b :: byte
proof -
  show "b div 16 < 16" using unat_byte_less [of b] by (simp add: word_less_nat_alt unat_div)
  show "b mod 16 < 16" by (simp add: word_mod_less_divisor)
qed

lemma hexkey_keybytesToHex: "hexkey (keybytesToHex str)"
  by (induction str) (auto simp: keybytesToHex_Cons hexkey_Cons nibble_less, simp_all add: keybytesToHex_def hexkey_Cons)

lemma length_keybytesToHex: "length (keybytesToHex str) = 2 * length str + 1"
  by (induction str) (simp_all add: keybytesToHex_Cons, simp add: keybytesToHex_def)

lemma keybytesToHex_inj: "keybytesToHex a = keybytesToHex b \<Longrightarrow> a = b"
proof (induction a arbitrary: b)
  case Nil
  then show ?case by (cases b) (auto simp: keybytesToHex_Cons, simp_all add: keybytesToHex_def)
next
  case (Cons x a)
  then obtain y b' where b: "b = y # b'" by (cases b) (auto simp: keybytesToHex_Cons, simp_all add: keybytesToHex_def)
  have e: "x div 16 = y div 16" "x mod 16 = y mod 16" "keybytesToHex a = keybytesToHex b'"
    using Cons.prems by (simp_all add: b keybytesToHex_Cons)
  have "x = y" using e(1,2) nibble_join by metis
  then show ?case using Cons.IH e(3) by (simp add: b)
qed

lemma prefixLen_split:
  "take (prefixLen a b) a = take (prefixLen a b) b" "prefixLen a b \<le> length a" "prefixLen a b \<le> length b"
  "prefixLen a b < length a \<Longrightarrow> prefixLen a b < length b \<Longrightarrow> a ! prefixLen a b \<noteq> b ! prefixLen a b"
  by (induction a b rule: prefixLen.induct) auto

section \<open>Round trips\<close>

lemma decodeNibbles_keybytes:
  "decodeNibbles (concat (map (\<lambda>b. [b div 16, b mod 16]) str)) (replicate (length str) 0) = Inr str"
  by (induction str) (simp_all add: nibble_join)

lemma keybytesToHex_term:
  "hasTerm (keybytesToHex str)"
  "take (length (keybytesToHex str) - 1) (keybytesToHex str) = concat (map (\<lambda>b. [b div 16, b mod 16]) str)"
  "length (concat (map (\<lambda>b. [b div 16, b mod 16]) str)) = 2 * length str"
proof -
  show "length (concat (map (\<lambda>b. [b div 16, b mod 16]) str)) = 2 * length str" by (induction str) auto
qed (simp_all add: keybytesToHex_def)

lemma hexToKeybytes_keybytesToHex: "hexToKeybytes (keybytesToHex str) = Inr str"
  unfolding hexToKeybytes_def Let_def by (simp only: keybytesToHex_term if_True) (simp add: decodeNibbles_keybytes)

text \<open>Two nibbles in one byte and back.\<close>

lemma nibble_bit_less: "bit h n \<Longrightarrow> h < 16 \<Longrightarrow> n < 4" for h :: byte
proof -
  assume "bit h n" "h < 16"
  then have "take_bit 4 h = h" by (simp add: take_bit_eq_mod mod_word_less)
  then show ?thesis using \<open>bit h n\<close> by (metis bit_take_bit_iff)
qed

lemma nibble_unjoin:
  fixes h l :: byte
  assumes "h < 16" "l < 16"
  shows "(push_bit 4 h OR l) div 16 = h" "(push_bit 4 h OR l) mod 16 = l"
  unfolding nibble_bits using assms
  by (auto intro!: bit_word_eqI simp: bit_or_iff bit_push_bit_iff bit_drop_bit_eq bit_take_bit_iff
      dest: nibble_bit_less)

lemma decodeNibbles_nibbles:
  "nibbles k \<Longrightarrow> even (length k) \<Longrightarrow>
    \<exists>r. decodeNibbles k (replicate (length k div 2) 0) = Inr r \<and> keybytesToHex r = k @ [16]"
proof (induction k rule: induct_list012)
  case (3 h l k)
  then obtain r where "decodeNibbles k (replicate (length k div 2) 0) = Inr r" "keybytesToHex r = k @ [16]" by auto
  with 3 show ?case by (auto simp: keybytesToHex_Cons nibble_unjoin)
qed (auto simp: keybytesToHex_def)

lemma compact_flag:
  assumes "x < 16"
  shows "push_bit 5 (if t then 1 else 0) OR push_bit 4 1 OR x = push_bit 4 (if t then 3 else 1) OR (x :: byte)"
proof -
  have "push_bit 5 (if t then 1 else 0) OR push_bit 4 1 = (push_bit 4 (if t then 3 else 1) :: byte)"
    by (simp add: push_bit_eq_mult)
  then show ?thesis by (simp only: or.assoc [symmetric])
qed

lemma compact_roundtrip_aux:
  assumes "nibbles p" and h: "h = (if t then p @ [16] else p)"
  shows "\<exists>c. hexToCompact h = Inr c \<and> compactToHex c = Inr h"
proof -
  have ht: "hasTerm h = t" and cut: "(if t then take (length h - 1) h else h) = p"
    using assms nibbles_not_term by auto
  note hd = hexToCompact_def Let_def ht cut
  show ?thesis
  proof (cases "even (length p)")
    case True
    obtain r where r: "decodeNibbles p (replicate (length p div 2) 0) = Inr r" "keybytesToHex r = p @ [16]"
      using decodeNibbles_nibbles [OF assms(1) True] by blast
    have c: "hexToCompact h = Inr ((if t then 32 else 0) # r)"
      unfolding hd using True by (simp add: r push_bit_eq_mult)
    have "compactToHex ((if t then 32 else 0) # r) = Inr h"
      by (simp add: compactToHex_def Let_def keybytesToHex_Cons r h)
    with c show ?thesis by blast
  next
    case False
    then obtain x q where p: "p = x # q" by (cases p) auto
    have q: "nibbles q" "even (length q)" "x < 16" "length p div 2 = length q div 2" using assms False by (auto simp: p)
    obtain r where r: "decodeNibbles q (replicate (length q div 2) 0) = Inr r" "keybytesToHex r = q @ [16]"
      using decodeNibbles_nibbles [OF q(1,2)] by blast
    define b where "b = (push_bit 4 (if t then 3 else 1) OR x :: byte)"
    have b: "b div 16 = (if t then 3 else 1)" "b mod 16 = x" using q(3) by (simp_all add: b_def nibble_unjoin)
    have c: "hexToCompact h = Inr (b # r)"
      unfolding hd using False q r compact_flag [OF q(3), of t] by (simp add: p b_def)
    have "compactToHex (b # r) = Inr h" by (simp add: compactToHex_def Let_def keybytesToHex_Cons r b p h)
    with c show ?thesis by blast
  qed
qed

lemma compact_roundtrip:
  assumes "nibbles h \<or> hexkey h"
  obtains c where "hexToCompact h = Inr c" "compactToHex c = Inr h"
  using assms compact_roundtrip_aux [of h h False] compact_roundtrip_aux [of _ h True] unfolding hexkey_def by metis

lemma compactToHex_empty: "compactToHex [] = Inl GoPanic"
  by (simp add: compactToHex_def keybytesToHex_def)

lemma compactToHex_path: "k \<noteq> [] \<Longrightarrow> compactToHex k = Inr (compact_path k)"
proof -
  assume "k \<noteq> []"
  then obtain b r where k: "k = b # r" by (cases k) auto
  have "unat (x AND 1) = (if odd x then 1 else 0)" for x :: byte by (simp add: and_one_eq mod_2_eq_odd)
  then show ?thesis unfolding k compactToHex_def keybytesToHex_def
    by (auto simp: Let_def compact_path_def nth_append not_less linorder_not_le)
qed

lemma hasTerm_compact_path: "hasTerm (compact_path k) \<longleftrightarrow> 2 \<le> hd k div 16"
proof (cases "2 \<le> hd k div 16")
  case False
  have "nibbles (compact_path k)" using False by (auto simp: compact_path_def nibbles_def nibble_less)
  then show ?thesis using False nibbles_not_term by blast
qed (simp add: compact_path_def hasTerm_def nth_append)

end
