(* ===== verification/Trie_Node.thy ===== *)
theory Trie_Node
  imports Trie_Encoding Rlp
begin

text \<open>
  The nodes of the Merkle Patricia trie and their stored form (\<open>trie/node.go\<close>).
\<close>

section \<open>Nodes\<close>

type_synonym uint16 = "16 word"

record nodeFlag =
  nf_hash :: "bytes option"
  nf_gen :: uint16
  nf_dirty :: bool

datatype node =
    NilNode
  | FullNode "node list" nodeFlag
  | ShortNode bytes node nodeFlag
  | HashNode bytes
  | ValueNode bytes

fun node_cache :: "node \<Rightarrow> bytes option \<times> bool" where
  "node_cache (FullNode cs fl) = (nf_hash fl, nf_dirty fl)"
| "node_cache (ShortNode k c fl) = (nf_hash fl, nf_dirty fl)"
| "node_cache _ = (None, True)"

fun canUnload :: "node \<Rightarrow> uint16 \<Rightarrow> uint16 \<Rightarrow> bool" where
  "canUnload (FullNode cs fl) cachegen cachelimit \<longleftrightarrow> \<not> nf_dirty fl \<and> cachegen - nf_gen fl \<ge> cachelimit"
| "canUnload (ShortNode k c fl) cachegen cachelimit \<longleftrightarrow> \<not> nf_dirty fl \<and> cachegen - nf_gen fl \<ge> cachelimit"
| "canUnload _ cachegen cachelimit \<longleftrightarrow> False"

text \<open>
  What \<open>rlp.Encode\<close> writes for a node: the exported fields of a short node, where a nil interface is an
  empty list, and the children of a full node with an empty string for a missing one.
\<close>

fun node_value :: "node \<Rightarrow> rlp_value" where
  "node_value NilNode = VBytes []"
| "node_value (FullNode cs fl) = VList (map node_value cs)"
| "node_value (ShortNode k c fl) = VList [VBytes k, if c = NilNode then VList [] else node_value c]"
| "node_value (HashNode h) = VBytes h"
| "node_value (ValueNode v) = VBytes v"

section \<open>Decoding\<close>

datatype path_step = InShort | InFull | InVal | InIndex nat

datatype node_error =
    EmptyNode
  | BadNode rlp_error
  | BadCount nat
  | BadString rlp_error
  | BadValue rlp_error
  | OversizedEmbedded nat
  | BadRefSize nat
  | decodeError node_error "path_step list"

fun wrapError :: "node_error \<Rightarrow> path_step \<Rightarrow> node_error" where
  "wrapError (decodeError e st) ctx = decodeError e (st @ [ctx])"
| "wrapError e ctx = decodeError e [ctx]"

text \<open>The panic of the splitting functions, which their model reports as an error value.\<close>

definition rlp_exec :: "rlp_error + 'a \<Rightarrow> (rlp_error + 'a) exec" where
  "rlp_exec r = (if r = Inl PanicSliceBounds then Inl GoPanic else Inr r)"

definition hashLen :: nat where
  "hashLen = 32"

text \<open>
  \<open>decodeRef\<close>, \<open>decodeShort\<close> and \<open>decodeFull\<close> take the decoder of embedded nodes as an argument; \<open>decode_within\<close>
  bounds the nesting, and an encoding cannot be nested deeper than it is long.
\<close>

type_synonym decoder = "bytes \<Rightarrow> (node_error + node) exec"

definition decodeRef :: "decoder \<Rightarrow> bytes \<Rightarrow> (node_error + (node \<times> bytes)) exec" where
  "decodeRef dec buf =
    bind_exec (rlp_exec (Split buf)) (\<lambda>r. case r of
      Inl e \<Rightarrow> Inr (Inl (BadString e))
    | Inr (kind, val, rest) \<Rightarrow>
        if kind = List_kind then
          (let sz = length buf - length rest in
           if sz > hashLen then Inr (Inl (OversizedEmbedded sz))
           else bind_exec (dec buf) (\<lambda>n. Inr (map_sum id (\<lambda>n. (n, rest)) n)))
        else if kind = String_kind \<and> length val = 0 then Inr (Inr (NilNode, rest))
        else if kind = String_kind \<and> length val = 32 then Inr (Inr (HashNode val, rest))
        else Inr (Inl (BadRefSize (length val))))"

definition decodeShort :: "decoder \<Rightarrow> bytes option \<Rightarrow> bytes \<Rightarrow> uint16 \<Rightarrow> (node_error + node) exec" where
  "decodeShort dec hash elems cachegen =
    bind_exec (rlp_exec (SplitString elems)) (\<lambda>r. case r of
      Inl e \<Rightarrow> Inr (Inl (BadString e))
    | Inr (kbuf, rest) \<Rightarrow>
        (let flag = \<lparr> nf_hash = hash, nf_gen = cachegen, nf_dirty = False \<rparr> in
         bind_exec (compactToHex kbuf) (\<lambda>key.
           if hasTerm key then
             bind_exec (rlp_exec (SplitString rest)) (\<lambda>r. case r of
               Inl e \<Rightarrow> Inr (Inl (BadValue e))
             | Inr (val, _) \<Rightarrow> Inr (Inr (ShortNode key (ValueNode val) flag)))
           else
             bind_exec (decodeRef dec rest) (\<lambda>r. case r of
               Inl e \<Rightarrow> Inr (Inl (wrapError e InVal))
             | Inr (n, _) \<Rightarrow> Inr (Inr (ShortNode key n flag))))))"

text \<open>The children from the \<open>i\<close>-th on, and the bytes after them.\<close>

function decodeFull_loop :: "decoder \<Rightarrow> nat \<Rightarrow> bytes \<Rightarrow> (node_error + (node list \<times> bytes)) exec" where
  "decodeFull_loop dec i elems =
    (if i < 16 then
       bind_exec (decodeRef dec elems) (\<lambda>r. case r of
         Inl e \<Rightarrow> Inr (Inl (wrapError e (InIndex i)))
       | Inr (cld, rest) \<Rightarrow>
           bind_exec (decodeFull_loop dec (i + 1) rest) (\<lambda>r. Inr (map_sum id (\<lambda>(cs, rest). (cld # cs, rest)) r)))
     else Inr (Inr ([], elems)))"
  by pat_completeness auto

termination by (relation "measure (\<lambda>(dec, i, elems). 16 - i)") auto

declare decodeFull_loop.simps [simp del]

definition decodeFull :: "decoder \<Rightarrow> bytes option \<Rightarrow> bytes \<Rightarrow> uint16 \<Rightarrow> (node_error + node) exec" where
  "decodeFull dec hash elems0 cachegen =
    bind_exec (decodeFull_loop dec 0 elems0) (\<lambda>r. case r of
      Inl e \<Rightarrow> Inr (Inl e)
    | Inr (cs, elems) \<Rightarrow>
        bind_exec (rlp_exec (SplitString elems)) (\<lambda>r. case r of
          Inl e \<Rightarrow> Inr (Inl (BadString e))
        | Inr (val, _) \<Rightarrow>
            Inr (Inr (FullNode (cs @ [if length val > 0 then ValueNode val else NilNode])
              \<lparr> nf_hash = hash, nf_gen = cachegen, nf_dirty = False \<rparr>))))"

primrec decode_within :: "nat \<Rightarrow> bytes option \<Rightarrow> uint16 \<Rightarrow> decoder" where
  "decode_within 0 hash cachegen buf = Inl FuelExhausted"
| "decode_within (Suc n) hash cachegen buf =
    (if length buf = 0 then Inr (Inl EmptyNode)
     else bind_exec (rlp_exec (SplitList buf)) (\<lambda>r. case r of
       Inl e \<Rightarrow> Inr (Inl (BadNode e))
     | Inr (elems, _) \<Rightarrow>
         (case CountValues elems of
            None \<Rightarrow> Inl FuelExhausted
          | Some count \<Rightarrow>
              bind_exec (rlp_exec count) (\<lambda>count.
                let c = (case count of Inl e \<Rightarrow> 0 | Inr c \<Rightarrow> c) in
                if c = 2 then
                  bind_exec (decodeShort (decode_within n None cachegen) hash elems cachegen)
                    (\<lambda>r. Inr (map_sum (\<lambda>e. wrapError e InShort) id r))
                else if c = 17 then
                  bind_exec (decodeFull (decode_within n None cachegen) hash elems cachegen)
                    (\<lambda>r. Inr (map_sum (\<lambda>e. wrapError e InFull) id r))
                else Inr (Inl (BadCount c))))))"

definition decodeNode :: "bytes option \<Rightarrow> bytes \<Rightarrow> uint16 \<Rightarrow> (node_error + node) exec" where
  "decodeNode hash buf cachegen = decode_within (Suc (length buf)) hash cachegen buf"

definition mustDecodeNode :: "bytes option \<Rightarrow> bytes \<Rightarrow> uint16 \<Rightarrow> node exec" where
  "mustDecodeNode hash buf cachegen =
    bind_exec (decodeNode hash buf cachegen) (\<lambda>r. case r of Inl e \<Rightarrow> Inl GoPanic | Inr n \<Rightarrow> Inr n)"

end
