(* ===== verification/Trie_Core.thy ===== *)
theory Trie_Core
  imports Trie_Node
begin

text \<open>
  The in-memory trie (\<open>trie/trie.go\<close>): lookup, insertion and deletion, which load missing nodes from the
  node database on demand.
\<close>

section \<open>Definitions\<close>

text \<open>
  \<open>node_db\<close> is \<open>Database.node\<close>: the node with a hash, tagged with a cache generation.  A recursive call
  shortens the key or replaces a hash by the node it stands for; \<open>trie_fuel\<close> bounds the calls.
\<close>

type_synonym node_db = "hash \<Rightarrow> uint16 \<Rightarrow> node option"

datatype trie_error = MissingNodeError hash bytes

record Trie =
  root :: node
  cachegen :: uint16
  cachelimit :: uint16

definition newFlag :: "uint16 \<Rightarrow> nodeFlag" where
  "newFlag g = \<lparr> nf_hash = None, nf_gen = g, nf_dirty = True \<rparr>"

definition resolveHash :: "node_db \<Rightarrow> uint16 \<Rightarrow> bytes \<Rightarrow> bytes \<Rightarrow> trie_error + node" where
  "resolveHash db g n prefix =
    (let hash = BytesToHash n in
     case db hash g of Some node \<Rightarrow> Inr node | None \<Rightarrow> Inl (MissingNodeError hash prefix))"

fun resolve :: "node_db \<Rightarrow> uint16 \<Rightarrow> node \<Rightarrow> bytes \<Rightarrow> trie_error + node" where
  "resolve db g (HashNode h) prefix = resolveHash db g h prefix"
| "resolve db g n prefix = Inr n"

text \<open>\<open>New\<close> on a root hash; \<open>emptyRoot\<close> is the hash of the encoding of the empty trie.\<close>

definition emptyRoot :: hash where
  "emptyRoot = 0x56e81f171bcc55a6ff8345e692c0f86e5b48e01b996cadc001622fb5e363b421"

definition trie_New :: "node_db \<Rightarrow> hash \<Rightarrow> trie_error + Trie" where
  "trie_New db r =
    (if r \<noteq> 0 \<and> r \<noteq> emptyRoot then
       (case resolveHash db 0 (Hash_Bytes r) [] of
          Inl e \<Rightarrow> Inl e
        | Inr rootnode \<Rightarrow> Inr \<lparr> root = rootnode, cachegen = 0, cachelimit = 0 \<rparr>)
     else Inr \<lparr> root = NilNode, cachegen = 0, cachelimit = 0 \<rparr>)"

text \<open>The children of a full node are an array; an index out of its range panics.\<close>

definition child :: "node list \<Rightarrow> byte \<Rightarrow> node exec" where
  "child cs i = (if unat i < length cs then Inr (cs ! unat i) else Inl GoPanic)"

definition set_child :: "byte \<Rightarrow> node \<Rightarrow> node list \<Rightarrow> node list exec" where
  "set_child i c cs = (if unat i < length cs then Inr (cs[unat i := c]) else Inl GoPanic)"

primrec tryGet :: "nat \<Rightarrow> node_db \<Rightarrow> uint16 \<Rightarrow> node \<Rightarrow> bytes \<Rightarrow> nat \<Rightarrow> (bytes \<times> node \<times> bool \<times> trie_error option) exec" where
  "tryGet 0 db g origNode key pos = Inl FuelExhausted"
| "tryGet (Suc fuel) db g origNode key pos =
    (case origNode of
       NilNode \<Rightarrow> Inr ([], NilNode, False, None)
     | ValueNode v \<Rightarrow> Inr (v, origNode, False, None)
     | ShortNode k c fl \<Rightarrow>
         if length key < pos + length k \<or> k \<noteq> take (length k) (drop pos key) then Inr ([], origNode, False, None)
         else bind_exec (tryGet fuel db g c key (pos + length k)) (\<lambda>(v, newnode, didResolve, err).
           Inr (v, if err = None \<and> didResolve then ShortNode k newnode (fl\<lparr> nf_gen := g \<rparr>) else origNode, didResolve, err))
     | FullNode cs fl \<Rightarrow>
         if pos \<ge> length key then Inl GoPanic
         else bind_exec (child cs (key ! pos)) (\<lambda>c.
           bind_exec (tryGet fuel db g c key (pos + 1)) (\<lambda>(v, newnode, didResolve, err).
             Inr (v, if err = None \<and> didResolve then FullNode (cs[unat (key ! pos) := newnode]) (fl\<lparr> nf_gen := g \<rparr>) else origNode,
               didResolve, err)))
     | HashNode h \<Rightarrow>
         (case resolveHash db g h (take pos key) of
            Inl e \<Rightarrow> Inr ([], origNode, True, Some e)
          | Inr c \<Rightarrow>
              bind_exec (tryGet fuel db g c key pos) (\<lambda>(v, newnode, _, err). Inr (v, newnode, True, err))))"

text \<open>The result of an insertion or a deletion: whether the node changed, the node, and the error.\<close>

type_synonym change = "(bool \<times> node \<times> trie_error option) exec"

text \<open>The change of a node with a changed child.\<close>

definition changed :: "node \<Rightarrow> (node \<Rightarrow> node exec) \<Rightarrow> change \<Rightarrow> change" where
  "changed n mk r =
    bind_exec r (\<lambda>(dirty, nn, err).
      if \<not> dirty \<or> err \<noteq> None then Inr (False, n, err)
      else bind_exec (mk nn) (\<lambda>n1. Inr (True, n1, None)))"

definition empty_children :: "node list" where
  "empty_children = replicate 17 NilNode"

primrec trie_insert :: "nat \<Rightarrow> node_db \<Rightarrow> uint16 \<Rightarrow> node \<Rightarrow> bytes \<Rightarrow> bytes \<Rightarrow> node \<Rightarrow> change" where
  "trie_insert 0 db g n prefix key v = Inl FuelExhausted"
| "trie_insert (Suc fuel) db g n prefix key v =
    (if length key = 0 then
       (case n of
          ValueNode old \<Rightarrow> (case v of ValueNode new \<Rightarrow> Inr (old \<noteq> new, v, None) | _ \<Rightarrow> Inl GoPanic)
        | _ \<Rightarrow> Inr (True, v, None))
     else case n of
       ShortNode k c fl \<Rightarrow>
         (let matchlen = prefixLen key k in
          if matchlen = length k then
            changed n (\<lambda>nn. Inr (ShortNode k nn (newFlag g)))
              (trie_insert fuel db g c (prefix @ take matchlen key) (drop matchlen key) v)
          else if matchlen \<ge> length key then Inl GoPanic
          else
            bind_exec (trie_insert fuel db g NilNode (prefix @ take (matchlen + 1) k) (drop (matchlen + 1) k) c) (\<lambda>(_, c1, err).
            bind_exec (set_child (k ! matchlen) c1 empty_children) (\<lambda>cs1.
              if err \<noteq> None then Inr (False, NilNode, err)
              else
                bind_exec (trie_insert fuel db g NilNode (prefix @ take (matchlen + 1) key) (drop (matchlen + 1) key) v) (\<lambda>(_, c2, err).
                bind_exec (set_child (key ! matchlen) c2 cs1) (\<lambda>cs2.
                  if err \<noteq> None then Inr (False, NilNode, err)
                  else
                    let branch = FullNode cs2 (newFlag g) in
                    if matchlen = 0 then Inr (True, branch, None)
                    else Inr (True, ShortNode (take matchlen key) branch (newFlag g), None))))))
     | FullNode cs fl \<Rightarrow>
         bind_exec (child cs (key ! 0)) (\<lambda>c.
           changed n (\<lambda>nn. bind_exec (set_child (key ! 0) nn cs) (\<lambda>cs1. Inr (FullNode cs1 (newFlag g))))
             (trie_insert fuel db g c (prefix @ [key ! 0]) (drop 1 key) v))
     | NilNode \<Rightarrow> Inr (True, ShortNode key v (newFlag g), None)
     | HashNode h \<Rightarrow>
         (case resolveHash db g h prefix of
            Inl e \<Rightarrow> Inr (False, NilNode, Some e)
          | Inr rn \<Rightarrow> changed rn Inr (trie_insert fuel db g rn prefix key v))
     | ValueNode w \<Rightarrow> Inl GoPanic)"

text \<open>The loop of \<open>delete\<close> that looks for the only child left: its index, -1 for none and -2 for several.\<close>

fun only_child :: "nat \<Rightarrow> int \<Rightarrow> node list \<Rightarrow> int" where
  "only_child i pos [] = pos"
| "only_child i pos (c # cs) =
    (if c \<noteq> NilNode then (if pos = -1 then only_child (i + 1) (int i) cs else -2)
     else only_child (i + 1) pos cs)"

text \<open>A full node with a deleted child is reduced to a short node if a single child is left.\<close>

definition reduce_full :: "node_db \<Rightarrow> uint16 \<Rightarrow> bytes \<Rightarrow> node list \<Rightarrow> change" where
  "reduce_full db g prefix cs =
    (let pos = only_child 0 (-1) cs in
     if pos \<ge> 0 then
       (let c = cs ! nat pos;
            single = Inr (True, ShortNode [word_of_int pos] c (newFlag g), None) in
        if pos \<noteq> 16 then
          (case resolve db g c prefix of
             Inl e \<Rightarrow> Inr (False, NilNode, Some e)
           | Inr cnode \<Rightarrow>
               (case cnode of
                  ShortNode k v fl \<Rightarrow> Inr (True, ShortNode (word_of_int pos # k) v (newFlag g), None)
                | _ \<Rightarrow> single))
        else single)
     else Inr (True, FullNode cs (newFlag g), None))"

definition merge_short :: "uint16 \<Rightarrow> bytes \<Rightarrow> node \<Rightarrow> node" where
  "merge_short g k c =
    (case c of
       ShortNode k1 v fl \<Rightarrow> ShortNode (k @ k1) v (newFlag g)
     | _ \<Rightarrow> ShortNode k c (newFlag g))"

primrec trie_delete :: "nat \<Rightarrow> node_db \<Rightarrow> uint16 \<Rightarrow> node \<Rightarrow> bytes \<Rightarrow> bytes \<Rightarrow> change" where
  "trie_delete 0 db g n prefix key = Inl FuelExhausted"
| "trie_delete (Suc fuel) db g n prefix key =
    (case n of
       ShortNode k c fl \<Rightarrow>
         (let matchlen = prefixLen key k in
          if matchlen < length k then Inr (False, n, None)
          else if matchlen = length key then Inr (True, NilNode, None)
          else changed n (\<lambda>c1. Inr (merge_short g k c1))
            (trie_delete fuel db g c (prefix @ take (length k) key) (drop (length k) key)))
     | FullNode cs fl \<Rightarrow>
         if length key = 0 then Inl GoPanic
         else bind_exec (child cs (key ! 0)) (\<lambda>c.
           bind_exec (trie_delete fuel db g c (prefix @ [key ! 0]) (drop 1 key)) (\<lambda>(dirty, nn, err).
             if \<not> dirty \<or> err \<noteq> None then Inr (False, n, err)
             else bind_exec (set_child (key ! 0) nn cs) (reduce_full db g prefix)))
     | ValueNode v \<Rightarrow> Inr (True, NilNode, None)
     | NilNode \<Rightarrow> Inr (False, NilNode, None)
     | HashNode h \<Rightarrow>
         (case resolveHash db g h prefix of
            Inl e \<Rightarrow> Inr (False, NilNode, Some e)
          | Inr rn \<Rightarrow> changed rn Inr (trie_delete fuel db g rn prefix key)))"

definition trie_fuel :: "bytes \<Rightarrow> nat" where
  "trie_fuel k = 2 * length k + 3"

definition TryGet :: "node_db \<Rightarrow> bytes \<Rightarrow> Trie \<Rightarrow> (bytes \<times> trie_error option \<times> Trie) exec" where
  "TryGet db key0 t =
    (let key = keybytesToHex key0 in
     bind_exec (tryGet (trie_fuel key) db (cachegen t) (root t) key 0) (\<lambda>(v, newroot, didResolve, err).
       Inr (v, err, if err = None \<and> didResolve then t\<lparr> root := newroot \<rparr> else t)))"

definition set_root :: "change \<Rightarrow> Trie \<Rightarrow> (trie_error option \<times> Trie) exec" where
  "set_root r t =
    bind_exec r (\<lambda>(_, n, err). Inr (err, if err \<noteq> None then t else t\<lparr> root := n \<rparr>))"

definition TryDelete :: "node_db \<Rightarrow> bytes \<Rightarrow> Trie \<Rightarrow> (trie_error option \<times> Trie) exec" where
  "TryDelete db key t =
    (let k = keybytesToHex key in
     set_root (trie_delete (trie_fuel k) db (cachegen t) (root t) [] k) t)"

definition TryUpdate :: "node_db \<Rightarrow> bytes \<Rightarrow> bytes \<Rightarrow> Trie \<Rightarrow> (trie_error option \<times> Trie) exec" where
  "TryUpdate db key v t =
    (let k = keybytesToHex key in
     if length v \<noteq> 0
     then set_root (trie_insert (trie_fuel k) db (cachegen t) (root t) [] k (ValueNode v)) t
     else set_root (trie_delete (trie_fuel k) db (cachegen t) (root t) [] k) t)"

end
