(* ===== verification/Trie_Spec.thy ===== *)
theory Trie_Spec
  imports Trie_Core
begin

text \<open>
  What a trie means: the abstract tries \<open>mpt\<close> without hashes and cache flags, the mapping from keys to
  values they stand for (\<open>mget\<close>), the minimal form the code keeps them in (\<open>canon\<close>), their encoding
  (\<open>node_enc\<close>) and the relation \<open>trie_of\<close> between the nodes in memory and in the database and an abstract trie.  A trie in minimal form is
  determined by its content (\<open>canon_unique\<close>).
\<close>

declare One_nat_def [simp del]

section \<open>The abstract trie\<close>

datatype mpt = MNil | MVal bytes | MExt bytes mpt | MBranch "mpt list"

fun mget :: "mpt \<Rightarrow> bytes \<Rightarrow> bytes option" where
  "mget MNil k = None"
| "mget (MVal v) k = (if k = [] then Some v else None)"
| "mget (MExt p t) k = (if take (length p) k = p then mget t (drop (length p) k) else None)"
| "mget (MBranch ts) k = (case k of [] \<Rightarrow> None | i # k \<Rightarrow> if unat i < length ts then mget (ts ! unat i) k else None)"

fun is_branch :: "mpt \<Rightarrow> bool" where
  "is_branch (MBranch ts) \<longleftrightarrow> True"
| "is_branch _ \<longleftrightarrow> False"

fun is_value :: "mpt \<Rightarrow> bool" where
  "is_value (MVal v) \<longleftrightarrow> v \<noteq> []"
| "is_value _ \<longleftrightarrow> False"

text \<open>The minimal form: a short node ends in a value or leads to a full node, a full node has two children at least.\<close>

function canon :: "mpt \<Rightarrow> bool" where
  "canon MNil \<longleftrightarrow> False"
| "canon (MVal v) \<longleftrightarrow> False"
| "canon (MExt p t) \<longleftrightarrow> hexkey p \<and> is_value t \<or> p \<noteq> [] \<and> nibbles p \<and> is_branch t \<and> canon t"
| "canon (MBranch ts) \<longleftrightarrow> length ts = 17 \<and> (\<forall>t \<in> set (take 16 ts). t = MNil \<or> canon t) \<and>
     (ts ! 16 = MNil \<or> is_value (ts ! 16)) \<and> 2 \<le> length (filter (\<lambda>t. t \<noteq> MNil) ts)"
  by pat_completeness auto
termination
  by (relation "measure size") (auto dest!: in_set_takeD simp: less_Suc_eq_le size_list_estimation')

abbreviation mpt_ok :: "mpt \<Rightarrow> bool" where
  "mpt_ok t \<equiv> t = MNil \<or> canon t"

text \<open>A subtrie whose keys end in \<open>k\<close>: after the terminator there is at most a value.\<close>

definition sub_ok :: "bytes \<Rightarrow> mpt \<Rightarrow> bool" where
  "sub_ok k t \<longleftrightarrow> (if k = [] then t = MNil \<or> is_value t else hexkey k \<and> mpt_ok t)"

text \<open>
  The encoding of a node with the hash function \<open>K\<close>: a child is embedded if its encoding is shorter than a hash, and
  replaced by the hash of its encoding otherwise.
\<close>

definition compact_key :: "bytes \<Rightarrow> bytes" where
  "compact_key k = (case hexToCompact k of Inl e \<Rightarrow> [] | Inr c \<Rightarrow> c)"

definition child_item :: "(bytes \<Rightarrow> hash) \<Rightarrow> mpt \<Rightarrow> rlp_item \<Rightarrow> rlp_item" where
  "child_item K t i =
    (if t = MNil \<or> (\<exists>v. t = MVal v) \<or> length (enc i) < 32 then i else Str (Hash_Bytes (K (enc i))))"

fun node_item :: "(bytes \<Rightarrow> hash) \<Rightarrow> mpt \<Rightarrow> rlp_item" where
  "node_item K MNil = Str []"
| "node_item K (MVal v) = Str v"
| "node_item K (MExt k t) = Lst [Str (compact_key k), child_item K t (node_item K t)]"
| "node_item K (MBranch ts) = Lst (map (\<lambda>t. child_item K t (node_item K t)) ts)"

definition node_enc :: "(bytes \<Rightarrow> hash) \<Rightarrow> mpt \<Rightarrow> bytes" where
  "node_enc K t = enc (node_item K t)"

text \<open>
  A hash kept in memory is that of the trie it stands for; a child has one only if its encoding is not embedded,
  the root node may have one in any case.
\<close>

definition hash_ok :: "(bytes \<Rightarrow> hash) \<Rightarrow> bool \<Rightarrow> bytes \<Rightarrow> mpt \<Rightarrow> bool" where
  "hash_ok K is_root h t \<longleftrightarrow> h = Hash_Bytes (K (node_enc K t)) \<and> (is_root \<or> 32 \<le> length (node_enc K t))"

text \<open>
  The node that is loaded from the stored encoding of a trie: children shorter than a hash are embedded.
\<close>

definition is_node :: "mpt \<Rightarrow> bool" where
  "is_node t \<longleftrightarrow> t \<noteq> MNil \<and> (\<forall>v. t \<noteq> MVal v)"

definition hashed_child :: "(bytes \<Rightarrow> hash) \<Rightarrow> mpt \<Rightarrow> bool" where
  "hashed_child K t \<longleftrightarrow> is_node t \<and> 32 \<le> length (node_enc K t)"

fun load_node :: "(bytes \<Rightarrow> hash) \<Rightarrow> uint16 \<Rightarrow> bytes option \<Rightarrow> mpt \<Rightarrow> node" where
  "load_node K g h MNil = NilNode"
| "load_node K g h (MVal v) = ValueNode v"
| "load_node K g h (MExt k t) =
    ShortNode k (if hashed_child K t then HashNode (Hash_Bytes (K (node_enc K t))) else load_node K g None t)
      \<lparr> nf_hash = h, nf_gen = g, nf_dirty = False \<rparr>"
| "load_node K g h (MBranch ts) =
    FullNode (map (\<lambda>t. if hashed_child K t then HashNode (Hash_Bytes (K (node_enc K t))) else load_node K g None t) ts)
      \<lparr> nf_hash = h, nf_gen = g, nf_dirty = False \<rparr>"

text \<open>A trie is stored if the database has the nodes of it that are not embedded, the root node in any case.\<close>

definition has_entry :: "(bytes \<Rightarrow> hash) \<Rightarrow> node_db \<Rightarrow> mpt \<Rightarrow> bool" where
  "has_entry K db t \<longleftrightarrow>
    (\<forall>g. db (K (node_enc K t)) g = Some (load_node K g (Some (Hash_Bytes (K (node_enc K t)))) t))"

fun below_stored :: "(bytes \<Rightarrow> hash) \<Rightarrow> node_db \<Rightarrow> mpt \<Rightarrow> bool" where
  "below_stored K db (MExt k t) \<longleftrightarrow> (hashed_child K t \<longrightarrow> has_entry K db t) \<and> below_stored K db t"
| "below_stored K db (MBranch ts) \<longleftrightarrow> (\<forall>t \<in> set ts. (hashed_child K t \<longrightarrow> has_entry K db t) \<and> below_stored K db t)"
| "below_stored K db _ \<longleftrightarrow> True"

definition stored :: "(bytes \<Rightarrow> hash) \<Rightarrow> node_db \<Rightarrow> mpt \<Rightarrow> bool" where
  "stored K db t \<longleftrightarrow> has_entry K db t \<and> below_stored K db t"

definition flag_ok :: "(bytes \<Rightarrow> hash) \<Rightarrow> node_db \<Rightarrow> bool \<Rightarrow> nodeFlag \<Rightarrow> mpt \<Rightarrow> bool" where
  "flag_ok K db is_root fl t \<longleftrightarrow>
    (case nf_hash fl of
       None \<Rightarrow> nf_dirty fl \<or> \<not> is_root \<and> length (node_enc K t) < 32
     | Some h \<Rightarrow> hash_ok K is_root h t \<and> (nf_dirty fl \<or> stored K db t))"

text \<open>A node and the abstract trie it stands for.\<close>

fun is_hash :: "node \<Rightarrow> bool" where
  "is_hash (HashNode h) \<longleftrightarrow> True"
| "is_hash _ \<longleftrightarrow> False"

inductive trie_of :: "(bytes \<Rightarrow> hash) \<Rightarrow> node_db \<Rightarrow> bool \<Rightarrow> node \<Rightarrow> mpt \<Rightarrow> bool" for K db where
  trie_nil: "trie_of K db r NilNode MNil"
| trie_value: "trie_of K db r (ValueNode v) (MVal v)"
| trie_short: "trie_of K db False c t \<Longrightarrow> flag_ok K db r fl (MExt k t) \<Longrightarrow> trie_of K db r (ShortNode k c fl) (MExt k t)"
| trie_full: "list_all2 (trie_of K db False) cs ts \<Longrightarrow> flag_ok K db r fl (MBranch ts) \<Longrightarrow>
    trie_of K db r (FullNode cs fl) (MBranch ts)"
| trie_hash: "canon t \<Longrightarrow> hash_ok K r h t \<Longrightarrow> stored K db t \<Longrightarrow> trie_of K db r (HashNode h) t"

inductive_cases trie_of_MNilE: "trie_of K db r n MNil"
inductive_cases trie_of_MValE: "trie_of K db r n (MVal v)"
inductive_cases trie_of_HashE: "trie_of K db r (HashNode h) t"

lemma flag_ok_simps [simp]:
  "flag_ok K db r (newFlag g) t" "flag_ok K db r (fl\<lparr> nf_gen := g \<rparr>) t \<longleftrightarrow> flag_ok K db r fl t"
  by (simp_all add: flag_ok_def newFlag_def split: option.split)

lemma trie_of_simps [simp]:
  "trie_of K db r NilNode t \<longleftrightarrow> t = MNil"
  "trie_of K db r (ValueNode v) t \<longleftrightarrow> t = MVal v"
  "trie_of K db r (ShortNode k c fl) t \<longleftrightarrow> (\<exists>u. t = MExt k u \<and> trie_of K db False c u \<and> flag_ok K db r fl t)"
  "trie_of K db r (FullNode cs fl) t \<longleftrightarrow> (\<exists>ts. t = MBranch ts \<and> list_all2 (trie_of K db False) cs ts \<and> flag_ok K db r fl t)"
  by (auto intro: trie_of.intros elim: trie_of.cases)

lemma trie_of_MNil: "trie_of K db r n MNil \<longleftrightarrow> n = NilNode"
  by (auto elim: trie_of_MNilE)

lemma trie_of_MVal: "trie_of K db r n (MVal v) \<longleftrightarrow> n = ValueNode v"
  by (auto elim: trie_of_MValE)

lemma trie_of_HashNode: "trie_of K db r (HashNode h) t \<longleftrightarrow> canon t \<and> hash_ok K r h t \<and> stored K db t"
  by (auto intro: trie_hash elim: trie_of_HashE)

section \<open>Canonical tries\<close>

lemma canon_value: "is_value t \<Longrightarrow> \<not> canon t"
  by (cases t) auto

lemma is_value_mget: "is_value t \<Longrightarrow> mget t k = Some v \<Longrightarrow> k = [] \<and> v \<noteq> []"
  by (cases t) (auto split: if_splits)

lemma canon_branch_child:
  assumes "canon (MBranch ts)" "i < 17"
  shows "length ts = 17" "ts ! i = MNil \<or> (if i = 16 then is_value (ts ! i) else canon (ts ! i))"
proof -
  show "length ts = 17" using assms by simp
  then have "i \<noteq> 16 \<Longrightarrow> ts ! i \<in> set (take 16 ts)" using assms(2) by (auto simp: in_set_conv_nth intro!: exI [of _ i])
  then show "ts ! i = MNil \<or> (if i = 16 then is_value (ts ! i) else canon (ts ! i))" using assms by auto
qed

lemma canon_branchI:
  assumes "length ts = 17" "\<And>i. i < 16 \<Longrightarrow> mpt_ok (ts ! i)" "ts ! 16 = MNil \<or> is_value (ts ! 16)"
    "i < 17" "j < 17" "i \<noteq> j" "ts ! i \<noteq> MNil" "ts ! j \<noteq> MNil"
  shows "canon (MBranch ts)"
proof -
  have "card {i, j} \<le> card {k. k < length ts \<and> ts ! k \<noteq> MNil}" by (rule card_mono) (use assms in auto)
  then have "2 \<le> length (filter (\<lambda>t. t \<noteq> MNil) ts)" using assms(6) by (simp add: length_filter_conv_card)
  moreover have "\<forall>t \<in> set (take 16 ts). mpt_ok t" using assms(1,2) by (fastforce simp: in_set_conv_nth)
  ultimately show ?thesis using assms(1,3) by simp
qed

lemma canon_branch_two:
  assumes "canon (MBranch ts)"
  obtains i j where "i < j" "j < 17" "ts ! i \<noteq> MNil" "ts ! j \<noteq> MNil"
proof -
  let ?S = "{k. k < length ts \<and> ts ! k \<noteq> MNil}"
  have c: "2 \<le> card ?S" using assms by (auto simp: length_filter_conv_card)
  then obtain i where i: "i \<in> ?S" by (metis card.empty ex_in_conv not_numeral_le_zero)
  have "\<exists>j \<in> ?S. j \<noteq> i"
  proof (rule ccontr)
    assume "\<not> ?thesis"
    then have "?S \<subseteq> {i}" by auto
    then have "card ?S \<le> 1" using card_mono [of "{i}" ?S] by simp
    with c show False by simp
  qed
  then obtain j where "j \<in> ?S" "j \<noteq> i" by blast
  then show ?thesis using i assms that [of i j] that [of j i] by (cases "i < j") auto
qed

lemma canon_children:
  "canon (MExt p t) \<Longrightarrow> is_value t \<or> canon t"
  "canon (MBranch ts) \<Longrightarrow> t \<in> set ts \<Longrightarrow> t = MNil \<or> is_value t \<or> canon t"
proof -
  assume c: "canon (MBranch ts)" and "t \<in> set ts"
  then obtain i where "i < 17" "t = ts ! i" by (auto simp: in_set_conv_nth)
  then show "t = MNil \<or> is_value t \<or> canon t" using canon_branch_child(2) [OF c, of i] by (auto split: if_splits)
qed auto

lemma canon_is_node: "canon t \<Longrightarrow> is_node t"
  by (auto simp: is_node_def)

text \<open>A loaded node stands for the trie it was stored for.\<close>

lemma load_node_ok:
  assumes "t = MNil \<or> is_value t \<or> canon t" "below_stored K db t"
    "case h of None \<Rightarrow> \<not> r \<and> \<not> hashed_child K t | Some b \<Rightarrow> hash_ok K r b t \<and> stored K db t"
  shows "trie_of K db r (load_node K g h t) t"
  using assms
proof (induction t arbitrary: h r rule: mpt.induct)
  case (MExt k t)
  have ch: "trie_of K db False (if hashed_child K t then HashNode (Hash_Bytes (K (node_enc K t))) else load_node K g None t) t"
  proof (cases "hashed_child K t")
    case True
    then show ?thesis using canon_children(1) [of k t] MExt.prems
      by (cases t) (auto simp: trie_of_HashNode hash_ok_def hashed_child_def stored_def is_node_def)
  next
    case False
    then show ?thesis using MExt.IH [where h = None and r = False] canon_children(1) [of k t] MExt.prems by auto
  qed
  show ?case using ch MExt.prems(3) by (auto simp: flag_ok_def hashed_child_def is_node_def split: option.splits)
next
  case (MBranch ts)
  have "trie_of K db False (if hashed_child K t then HashNode (Hash_Bytes (K (node_enc K t))) else load_node K g None t) t"
    if t: "t \<in> set ts" for t
  proof (cases "hashed_child K t")
    case True
    then show ?thesis using canon_children(2) [of ts t] MBranch.prems t
      by (cases t) (auto simp: trie_of_HashNode hash_ok_def hashed_child_def stored_def is_node_def)
  next
    case False
    then show ?thesis using MBranch.IH [OF t, where h = None and r = False] canon_children(2) [of ts t] MBranch.prems t by auto
  qed
  then show ?case using MBranch.prems(3)
    by (auto simp: flag_ok_def hashed_child_def is_node_def list_all2_map1 list.rel_refl_strong split: option.splits)
qed auto

lemma trie_of_hash:
  assumes "trie_of K db r (HashNode h) t"
  obtains n where "resolveHash db g h prefix = Inr n" "\<not> is_hash n" "trie_of K db r n t" "canon t" "hash_ok K r h t"
proof -
  have t: "canon t" "hash_ok K r h t" "stored K db t" using assms by (auto simp: trie_of_HashNode)
  let ?n = "load_node K g (Some h) t"
  have h: "h = Hash_Bytes (K (node_enc K t))" using t(2) by (simp add: hash_ok_def)
  have "db (BytesToHash h) g = Some ?n" using t(3) h by (auto simp: stored_def has_entry_def BytesToHash_Bytes)
  then have "resolveHash db g h prefix = Inr ?n" by (simp add: resolveHash_def Let_def)
  moreover have "\<not> is_hash ?n" by (cases t) auto
  moreover have "trie_of K db r ?n t" by (rule load_node_ok) (use t in \<open>auto simp: stored_def\<close>)
  ultimately show ?thesis using that t(1,2) by blast
qed

lemma mget_MExt: "mget (MExt p t) k = Some v \<longleftrightarrow> (\<exists>k'. k = p @ k' \<and> mget t k' = Some v)"
  by (auto simp: append_eq_conv_conj) (metis append_take_drop_id)

lemma mget_MExt_append [simp]: "mget (MExt p t) (p @ k) = mget t k"
  by simp

lemma mget_canon_key: "canon t \<Longrightarrow> mget t k = Some v \<Longrightarrow> hexkey k \<and> v \<noteq> []"
proof (induction t k arbitrary: v rule: mget.induct)
  case (3 p t k)
  obtain k' where k: "k = p @ k'" and g: "mget t k' = Some v" using "3.prems"(2) unfolding mget_MExt by blast
  show ?case
  proof (cases "hexkey p \<and> is_value t")
    case True
    then show ?thesis using is_value_mget [OF _ g] k by auto
  next
    case False
    then have t: "canon t" "nibbles p" using "3.prems"(1) by auto
    then have "hexkey k'" "v \<noteq> []" using "3.IH" g k by auto
    then show ?thesis using k t(2) by (auto simp: hexkey_append)
  qed
next
  case (4 ts k)
  then obtain i k' where k: "k = i # k'" "unat i < length ts" "mget (ts ! unat i) k' = Some v"
    by (auto split: list.splits if_splits)
  have i: "unat i < 17" using 4 k by simp
  show ?case
  proof (cases "unat i = 16")
    case True
    then have "is_value (ts ! unat i)" using canon_branch_child(2) [OF "4.prems"(1) i] k(3) by auto
    moreover have "i = 16" using True by (simp add: word_unat_eq_iff)
    ultimately show ?thesis using is_value_mget [OF _ k(3)] by (simp add: k(1) hexkey_Cons)
  next
    case False
    then have "canon (ts ! unat i)" using canon_branch_child(2) [OF "4.prems"(1) i] k(3) by auto
    moreover have "i < 16" using False i by (simp add: word_less_nat_alt)
    ultimately show ?thesis using "4.IH" [OF k(1,2)] k(3) by (auto simp: k(1) hexkey_Cons)
  qed
qed auto

lemma value_has_key: "is_value t \<Longrightarrow> \<exists>v. mget t [] = Some v"
  by (cases t) auto

lemma canon_has_key: "canon t \<Longrightarrow> \<exists>k v. mget t k = Some v"
proof (induction t rule: canon.induct)
  case (3 p t)
  then obtain k v where "mget t k = Some v" using value_has_key [of t] by auto
  then show ?case by (metis mget_MExt_append)
next
  case (4 ts)
  then obtain i j where ij: "i < j" "j < 17" "ts ! i \<noteq> MNil" by (metis canon_branch_two)
  then have l: "length ts = 17" "i < 16" using "4.prems" by auto
  then have c: "ts ! i \<in> set (take 16 ts)" by (auto simp: in_set_conv_nth intro!: exI [of _ i])
  then have "canon (ts ! i)" using "4.prems" ij by auto
  then obtain k v where "mget (ts ! i) k = Some v" using "4.IH" c by blast
  then have "mget (MBranch ts) (word_of_nat i # k) = Some v" using l by (simp add: unat_of_nat)
  then show ?case by blast
qed auto


lemma canon_branch_keys:
  assumes "canon (MBranch ts)"
  obtains i k v j l w where "mget (MBranch ts) (i # k) = Some v" "mget (MBranch ts) (j # l) = Some w" "i \<noteq> j"
proof -
  have key: "\<exists>k v. mget (MBranch ts) (word_of_nat m # k) = Some v" if m: "m < 17" "ts ! m \<noteq> MNil" for m
  proof -
    have l: "length ts = 17" "if m = 16 then is_value (ts ! m) else canon (ts ! m)"
      using canon_branch_child [OF assms m(1)] m(2) by auto
    have "\<exists>k v. mget (ts ! m) k = Some v"
      using l(2) canon_has_key value_has_key by (metis (full_types))
    then show ?thesis using l(1) m(1) by (simp add: unat_of_nat)
  qed
  obtain i j where ij: "i < j" "j < 17" "ts ! i \<noteq> MNil" "ts ! j \<noteq> MNil" using canon_branch_two [OF assms] by blast
  obtain k v l w where "mget (MBranch ts) (word_of_nat i # k) = Some v" "mget (MBranch ts) (word_of_nat j # l) = Some w"
    using key [of i] key [of j] ij by auto
  moreover have "word_of_nat i \<noteq> (word_of_nat j :: byte)" using ij by (simp add: word_unat_eq_iff unat_of_nat)
  ultimately show ?thesis using that by blast
qed

text \<open>The prefix of a short node is the longest common prefix of the keys, so two tries with the same content are equal.\<close>

lemma canon_MExt_prefix:
  assumes "canon (MExt p t)" and "\<And>k v. mget (MExt p t) k = Some v \<Longrightarrow> take (length q) k = q" and "take (length p) q = p"
  shows "q = p"
proof (rule ccontr)
  assume "q \<noteq> p"
  with assms(3) obtain x q' where q: "q = p @ x # q'" by (metis append_take_drop_id append_Nil2 neq_Nil_conv)
  show False
  proof (cases "is_value t")
    case True
    then obtain w where "t = MVal w" by (cases t) auto
    then have "mget (MExt p t) p = Some w" by simp
    from assms(2) [OF this] show False by (simp add: q)
  next
    case False
    then obtain ts where ts: "t = MBranch ts" "canon t" using assms(1) by (cases t) auto
    then obtain i k v j l w where k: "mget t (i # k) = Some v" "mget t (j # l) = Some w" "i \<noteq> j"
      using canon_branch_keys by metis
    have "mget (MExt p t) (p @ i # k) = Some v" "mget (MExt p t) (p @ j # l) = Some w" using k by simp_all
    then have "take (length q) (p @ i # k) = q" "take (length q) (p @ j # l) = q" using assms(2) by blast+
    then show False using k(3) by (simp add: q)
  qed
qed

lemma mget_MExt_keys: "mget (MExt p t) k = Some v \<Longrightarrow> take (length p) k = p"
  by (auto split: if_splits)

lemma MExt_not_MBranch:
  assumes "canon (MExt p t)" "canon (MBranch ts)"
  shows "mget (MExt p t) \<noteq> mget (MBranch ts)"
proof
  assume e: "mget (MExt p t) = mget (MBranch ts)"
  obtain i k v j l w where k: "mget (MBranch ts) (i # k) = Some v" "mget (MBranch ts) (j # l) = Some w" "i \<noteq> j"
    using canon_branch_keys [OF assms(2)] by metis
  obtain x q where p: "p = x # q" using assms(1) by (cases p) auto
  have "take (length p) (i # k) = p" "take (length p) (j # l) = p"
    using mget_MExt_keys k(1,2) unfolding e [symmetric] by blast+
  then show False using k(3) by (simp add: p)
qed

lemma value_unique: "is_value t \<Longrightarrow> is_value u \<Longrightarrow> mget t = mget u \<Longrightarrow> t = u"
  by (cases t; cases u) (auto dest: fun_cong [of _ _ "[]"])

lemma value_not_canon: "is_value t \<Longrightarrow> canon u \<Longrightarrow> mget t \<noteq> mget u"
proof
  assume "is_value t" "canon u" "mget t = mget u"
  then have "\<exists>w. mget u [] = Some w" by (cases t) (auto dest!: fun_cong [of _ _ "[]"], metis)
  then show False using mget_canon_key [OF \<open>canon u\<close>] hexkey_not_Nil by blast
qed

lemma some_not_MNil: "is_value t \<or> canon t \<Longrightarrow> mget t \<noteq> mget MNil"
proof
  assume t: "is_value t \<or> canon t" and "mget t = mget MNil"
  then have "mget t k = None" for k by (metis mget.simps(1))
  then show False using t canon_has_key value_has_key by (metis option.distinct(1))
qed

lemma canon_MExt_unique:
  assumes "canon (MExt p t)" "canon (MExt q s)" and e: "mget (MExt p t) = mget (MExt q s)"
  shows "p = q" "mget t = mget s"
proof -
  obtain k v where k: "mget (MExt p t) k = Some v" using canon_has_key [OF assms(1)] by blast
  then have k': "mget (MExt q s) k = Some v" unfolding e .
  note kp = mget_MExt_keys [OF k] mget_MExt_keys [OF k']
  have "take (length p) q = p \<or> take (length q) p = q"
    using kp by (metis min.absorb1 nat_le_linear take_take)
  then show pq: "p = q"
  proof
    assume t: "take (length p) q = p"
    have "take (length q) k = q" if "mget (MExt p t) k = Some v" for k v
      using mget_MExt_keys that unfolding e by blast
    from canon_MExt_prefix [OF assms(1) this t] show ?thesis by simp
  next
    assume t: "take (length q) p = q"
    have "take (length p) k = p" if "mget (MExt q s) k = Some v" for k v
      using mget_MExt_keys that unfolding e [symmetric] by blast
    from canon_MExt_prefix [OF assms(2) this t] show ?thesis .
  qed
  show "mget t = mget s"
  proof
    fix k
    have "mget (MExt p t) (p @ k) = mget (MExt q s) (p @ k)" unfolding e ..
    then show "mget t k = mget s k" unfolding pq mget_MExt_append .
  qed
qed

lemma canon_MBranch_children:
  assumes "canon (MBranch ts)" "canon (MBranch us)" "mget (MBranch ts) = mget (MBranch us)" "i < 17"
  shows "mget (ts ! i) = mget (us ! i)"
proof
  fix k
  have "mget (MBranch ts) (word_of_nat i # k) = mget (MBranch us) (word_of_nat i # k)" unfolding assms(3) ..
  then show "mget (ts ! i) k = mget (us ! i) k" using assms(1,2,4) by (simp add: unat_of_nat)
qed

theorem canon_unique: "canon t \<Longrightarrow> canon u \<Longrightarrow> mget t = mget u \<Longrightarrow> t = u"
proof (induction t arbitrary: u rule: canon.induct)
  case (3 p t)
  obtain q s where u: "u = MExt q s"
  proof (cases u)
    case (MBranch us)
    then show ?thesis using MExt_not_MBranch [OF "3.prems"(1), of us] "3.prems"(2,3) by blast
  qed (use "3.prems"(2) in auto)
  note pq = canon_MExt_unique [OF "3.prems"(1) "3.prems"(2,3) [unfolded u]]
  show ?case
  proof (cases "is_value t")
    case True
    then have "is_value s" using "3.prems"(2) value_not_canon [of t s] pq by (auto simp: u)
    then show ?thesis using value_unique True pq by (simp add: u)
  next
    case False
    then have t: "canon t" "is_branch t" "nibbles p" using "3.prems"(1) by auto
    then have "canon s" using "3.prems"(2) value_not_canon [of s t] pq by (auto simp: u)
    then show ?thesis using "3.IH" t pq by (simp add: u)
  qed
next
  case (4 ts)
  obtain us where u: "u = MBranch us"
  proof (cases u)
    case (MExt q s)
    then show ?thesis using MExt_not_MBranch [of q s ts] "4.prems" by metis
  qed (use "4.prems"(2) in auto)
  have l: "length ts = 17" "length us = 17" using "4.prems"(1,2) by (auto simp: u)
  have "ts ! i = us ! i" if i: "i < 17" for i
  proof -
    have m: "mget (ts ! i) = mget (us ! i)" using canon_MBranch_children "4.prems" i unfolding u by blast
    have c: "ts ! i = MNil \<or> (if i = 16 then is_value (ts ! i) else canon (ts ! i))"
      "us ! i = MNil \<or> (if i = 16 then is_value (us ! i) else canon (us ! i))"
      using canon_branch_child(2) "4.prems"(1,2) i unfolding u by blast+
    have "i \<noteq> 16 \<Longrightarrow> ts ! i \<in> set (take 16 ts)" using i l by (auto simp: in_set_conv_nth intro!: exI [of _ i])
    then have ih: "canon (ts ! i) \<Longrightarrow> canon (us ! i) \<Longrightarrow> i \<noteq> 16 \<Longrightarrow> ts ! i = us ! i" using "4.IH" m by blast
    have nil: "ts ! i = MNil \<longleftrightarrow> us ! i = MNil" using c m some_not_MNil by metis
    show ?thesis
    proof (cases "ts ! i = MNil")
      case False
      then show ?thesis using c nil ih value_unique m by (cases "i = 16") auto
    qed (use nil in simp)
  qed
  then have "ts = us" using l by (intro nth_equalityI) auto
  then show ?case by (simp add: u)
qed auto

end
