(* ===== verification/Trie_Map.thy ===== *)
theory Trie_Map
  imports Trie_Spec
begin

text \<open>
  The trie operations implement a finite map.  \<open>tryGet_ok\<close>, \<open>insert_ok\<close> and \<open>delete_ok\<close> show that lookup,
  insertion and deletion on a trie in minimal form neither fail nor run out of fuel, keep the minimal form and
  the cached hashes right, and act on the content as on a map; \<open>trie_rep\<close> relates a trie and the map it stands for.
\<close>


lemma prefixLen_append: "prefixLen (p @ k) p = length p"
  by (induction p) auto

section \<open>Lookup\<close>

lemma unat_byte_eq: "unat x = unat y \<longleftrightarrow> x = y" for x y :: byte
  by (rule word_unat_eq_iff [symmetric])

definition get_ok :: "(bytes \<Rightarrow> hash) \<Rightarrow> node_db \<Rightarrow> bool \<Rightarrow> mpt \<Rightarrow> bytes \<Rightarrow> (bytes \<times> node \<times> bool \<times> trie_error option) exec \<Rightarrow> bool" where
  "get_ok K db tp t k r \<longleftrightarrow> (\<exists>n' did. r = Inr (case mget t k of None \<Rightarrow> [] | Some v \<Rightarrow> v, n', did, None) \<and> trie_of K db tp n' t)"

text \<open>A subtrie below a prefix of a key.\<close>

lemma sub_ok_child:
  assumes "canon (MBranch ts)" "hexkey (x # k)"
  shows "unat x < 17" "length ts = 17" "sub_ok k (ts ! unat x)"
proof -
  show x: "unat x < 17" using hexkey_le [OF assms(2), of x] by (simp add: word_le_nat_alt)
  show "length ts = 17" using assms(1) by simp
  have "unat x = 16 \<longleftrightarrow> x = 16" by (simp add: word_unat_eq_iff)
  then show "sub_ok k (ts ! unat x)"
    using canon_branch_child(2) [OF assms(1) x] assms(2) by (auto simp: sub_ok_def hexkey_Cons split: if_splits)
qed

lemma sub_ok_ext:
  assumes "canon (MExt p t)" "hexkey (p @ k)"
  shows "sub_ok k t"
proof (cases "hexkey p \<and> is_value t")
  case True
  have "k = []"
  proof (rule ccontr)
    assume "k \<noteq> []"
    then have "nibbles p" using assms(2) by (simp add: hexkey_append)
    then show False using True nibbles_not_term by (auto simp: hexkey_def)
  qed
  then show ?thesis using True by (simp add: sub_ok_def)
next
  case False
  then have "nibbles p" "canon t" using assms(1) by auto
  then have "k \<noteq> []" using assms(2) nibbles_not_term by (auto simp: hexkey_append hexkey_def)
  then show ?thesis using assms(2) \<open>canon t\<close> by (simp add: sub_ok_def hexkey_append)
qed

lemma canon_ext_not_Nil: "canon (MExt p t) \<Longrightarrow> p \<noteq> []"
  by auto

lemma get_ok_set:
  assumes "list_all2 (trie_of K db False) cs ts" "unat x < length ts" "trie_of K db False n' (ts ! unat x)"
  shows "list_all2 (trie_of K db False) (cs[unat x := n']) ts"
  using assms by (simp add: list_all2_conv_all_nth nth_list_update)

lemma tryGet_step:
  assumes "\<not> is_hash n" "trie_of K db tp n t" "sub_ok (drop pos key) t" "pos \<le> length key"
    and IH: "\<And>n t q. trie_of K db False n t \<Longrightarrow> sub_ok (drop q key) t \<Longrightarrow> q \<le> length key \<Longrightarrow> pos < q \<Longrightarrow>
      get_ok K db False t (drop q key) (tryGet fuel db g n key q)"
  shows "get_ok K db tp t (drop pos key) (tryGet (Suc fuel) db g n key pos)"
proof (cases n)
  case NilNode
  then show ?thesis using assms(2) by (auto simp: get_ok_def)
next
  case (ValueNode v)
  then have "drop pos key = []" using assms(2,3) by (auto simp: sub_ok_def split: if_splits)
  then show ?thesis using ValueNode assms(2) by (auto simp: get_ok_def)
next
  case (ShortNode k c fl)
  then obtain u where t: "t = MExt k u" and c: "trie_of K db False c u" and fl: "flag_ok K db tp fl (MExt k u)" using assms(2) by auto
  then have ct: "canon t" "hexkey (drop pos key)" using assms(3) by (auto simp: sub_ok_def split: if_splits)
  show ?thesis
  proof (cases "length key < pos + length k \<or> k \<noteq> take (length k) (drop pos key)")
    case True
    then have "mget t (drop pos key) = None" using assms(4) by (auto simp: t)
    then show ?thesis using True ShortNode assms(2) by (auto simp: get_ok_def)
  next
    case False
    then have k: "drop pos key = k @ drop (pos + length k) key"
      by (metis append_take_drop_id drop_drop add.commute)
    have "sub_ok (drop (pos + length k) key) u" using sub_ok_ext [of k u] ct k t by metis
    moreover have "pos < pos + length k" using ct(1) t canon_ext_not_Nil by auto
    ultimately have "get_ok K db False u (drop (pos + length k) key) (tryGet fuel db g c key (pos + length k))"
      using IH [OF c] False by simp
    then obtain n' did where r: "tryGet fuel db g c key (pos + length k) =
        Inr (case mget u (drop (pos + length k) key) of None \<Rightarrow> [] | Some v \<Rightarrow> v, n', did, None)" "trie_of K db False n' u"
      unfolding get_ok_def by blast
    have "mget t (drop pos key) = mget u (drop (pos + length k) key)" unfolding t k by (rule mget_MExt_append)
    then show ?thesis using r False ShortNode c fl by (auto simp: get_ok_def t)
  qed
next
  case (FullNode cs fl)
  then obtain ts where t: "t = MBranch ts" and cs: "list_all2 (trie_of K db False) cs ts" and fl: "flag_ok K db tp fl (MBranch ts)"
    using assms(2) by auto
  then have ct: "canon t" "hexkey (drop pos key)" using assms(3) by (auto simp: sub_ok_def split: if_splits)
  then have pos: "pos < length key" using hexkey_not_Nil by (metis drop_all not_le)
  let ?x = "key ! pos"
  have k: "drop pos key = ?x # drop (pos + 1) key" using pos by (simp add: Cons_nth_drop_Suc One_nat_def)
  note s = sub_ok_child [OF ct(1) [unfolded t] ct(2) [unfolded k]]
  have l: "length cs = 17" using cs s(2) by (simp add: list_all2_lengthD)
  have "trie_of K db False (cs ! unat ?x) (ts ! unat ?x)" using cs s l by (simp add: list_all2_nthD)
  then have "get_ok K db False (ts ! unat ?x) (drop (pos + 1) key) (tryGet fuel db g (cs ! unat ?x) key (pos + 1))"
    using IH s(3) pos by simp
  then obtain n' did where r: "tryGet fuel db g (cs ! unat ?x) key (pos + 1) =
      Inr (case mget (ts ! unat ?x) (drop (pos + 1) key) of None \<Rightarrow> [] | Some v \<Rightarrow> v, n', did, None)"
    "trie_of K db False n' (ts ! unat ?x)"
    unfolding get_ok_def by blast
  have "mget t (drop pos key) = mget (ts ! unat ?x) (drop (pos + 1) key)" using s(1,2) by (simp add: t k)
  then show ?thesis using r FullNode pos s l cs fl get_ok_set [OF cs _ r(2)] by (auto simp: get_ok_def t child_def)
qed (use assms(1) in simp)

lemma tryGet_ok:
  assumes "trie_of K db tp n t" "sub_ok (drop pos key) t" "pos \<le> length key" "2 * (length key - pos) + 2 \<le> fuel"
  shows "get_ok K db tp t (drop pos key) (tryGet fuel db g n key pos)"
  using assms
proof (induction "length key - pos" arbitrary: n t pos fuel tp rule: less_induct)
  case less
  have step: "get_ok K db tp t (drop pos key) (tryGet f db g n key pos)"
    if "\<not> is_hash n" "trie_of K db tp n t" "2 * (length key - pos) + 1 \<le> f" for n f
  proof -
    obtain f' where f: "f = Suc f'" using \<open>2 * (length key - pos) + 1 \<le> f\<close> by (cases f) auto
    show ?thesis unfolding f
    proof (rule tryGet_step [OF that(1,2) less.prems(2,3)])
      fix n u q
      assume "trie_of K db False n u" "sub_ok (drop q key) u" "q \<le> length key" "pos < q"
      moreover have "2 * (length key - q) + 2 \<le> f'" using \<open>pos < q\<close> \<open>q \<le> length key\<close> that(3) f by linarith
      ultimately show "get_ok K db False u (drop q key) (tryGet f' db g n key q)" using less.hyps [of q False n u f'] by simp
    qed
  qed
  show ?case
  proof (cases "is_hash n")
    case False
    then show ?thesis using step less.prems by simp
  next
    case True
    then obtain h where n: "n = HashNode h" by (cases n) auto
    obtain m where m: "resolveHash db g h (take pos key) = Inr m" "\<not> is_hash m" "trie_of K db tp m t"
      using trie_of_hash less.prems(1) n by metis
    obtain f where f: "fuel = Suc f" using less.prems(4) by (cases fuel) auto
    have "get_ok K db tp t (drop pos key) (tryGet f db g m key pos)" using step [OF m(2,3)] less.prems(4) f by simp
    then show ?thesis using m(1) by (auto simp: get_ok_def n f)
  qed
qed

section \<open>Insertion\<close>

text \<open>
  The outcome of an insertion of \<open>v\<close> under \<open>k\<close>: no error, a trie in minimal form whose content is updated;
  a node reported as unchanged stands for the same trie, and a full node does not become a short one.
\<close>

definition put_ok :: "(bytes \<Rightarrow> hash) \<Rightarrow> node_db \<Rightarrow> bool \<Rightarrow> mpt \<Rightarrow> bytes \<Rightarrow> bytes \<Rightarrow> change \<Rightarrow> bool" where
  "put_ok K db tp t k v r \<longleftrightarrow> (\<exists>dirty n' t'. r = Inr (dirty, n', None) \<and> trie_of K db tp n' t' \<and>
    sub_ok k t' \<and> t' \<noteq> MNil \<and> mget t' = (mget t)(k \<mapsto> v) \<and> (\<not> dirty \<longrightarrow> t' = t) \<and> (is_branch t \<longrightarrow> is_branch t'))"

lemma put_okI:
  assumes "r = Inr (dirty, n', None)" "trie_of K db tp n' t'" "sub_ok k t'" "t' \<noteq> MNil" "mget t' = (mget t)(k \<mapsto> v)"
    "\<not> dirty \<Longrightarrow> t' = t" "is_branch t \<Longrightarrow> is_branch t'"
  shows "put_ok K db tp t k v r"
  using assms unfolding put_ok_def by blast

lemma put_okE:
  assumes "put_ok K db tp t k v r"
  obtains dirty n' t' where "r = Inr (dirty, n', None)" "trie_of K db tp n' t'" "sub_ok k t'" "t' \<noteq> MNil"
    "mget t' = (mget t)(k \<mapsto> v)" "\<not> dirty \<longrightarrow> t' = t" "is_branch t \<longrightarrow> is_branch t'"
  using assms unfolding put_ok_def by blast

text \<open>A trie below a prefix, which is a short node unless the prefix is empty.\<close>

definition mext :: "bytes \<Rightarrow> mpt \<Rightarrow> mpt" where
  "mext p t = (if p = [] then t else MExt p t)"

lemma mget_mext: "mget (mext p t) k = (if take (length p) k = p then mget t (drop (length p) k) else None)"
  by (simp add: mext_def)

lemma insert_nil:
  "trie_insert (Suc fuel) db g NilNode prefix k c =
    Inr (True, if k = [] then c else ShortNode k c (newFlag g), None)"
  by simp

lemma trie_of_mext:
  assumes "trie_of K db False c t" "trie_of K db tp c t"
  shows "trie_of K db tp (if k = [] then c else ShortNode k c (newFlag g)) (mext k t)"
  using assms by (simp add: mext_def)

text \<open>A branch with two children, below a common prefix.\<close>

lemma mpt_ok_drop:
  assumes "canon (MExt p t)" "m < length p"
  shows "if p ! m = 16 then drop (m + 1) p = [] \<and> is_value t else p ! m < 16 \<and> canon (mext (drop (m + 1) p) t)"
proof -
  have d: "p = take m p @ p ! m # drop (m + 1) p" using assms(2) by (simp add: id_take_nth_drop One_nat_def)
  show ?thesis
  proof (cases "hexkey p \<and> is_value t")
    case True
    then have "hexkey (p ! m # drop (m + 1) p)" using d hexkey_append [of "take m p"] by (metis list.distinct(1))
    then show ?thesis using True canon_value by (auto simp: hexkey_Cons mext_def split: if_splits)
  next
    case False
    then have "nibbles p" "is_branch t" "canon t" using assms(1) by auto
    then have "p ! m < 16" "nibbles (drop (m + 1) p)" using d nibbles_simps by (metis)+
    then show ?thesis using \<open>is_branch t\<close> \<open>canon t\<close> by (auto simp: mext_def)
  qed
qed

definition two_children :: "byte \<Rightarrow> mpt \<Rightarrow> byte \<Rightarrow> mpt \<Rightarrow> mpt" where
  "two_children i t j u = MBranch ((replicate 17 MNil)[unat i := t, unat j := u])"

lemma canon_two_children:
  assumes "i \<noteq> j" "if i = 16 then is_value t else i < 16 \<and> canon t" "if j = 16 then is_value u else j < 16 \<and> canon u"
  shows "canon (two_children i t j u)"
proof -
  have u: "unat i \<noteq> unat j" "unat i < 17" "unat j < 17" "unat i = 16 \<longleftrightarrow> i = 16" "unat j = 16 \<longleftrightarrow> j = 16"
    using assms by (auto simp: word_unat_eq_iff word_less_nat_alt split: if_splits)
  show ?thesis unfolding two_children_def
  proof (rule canon_branchI [of _ "unat i" "unat j"])
    show "mpt_ok ((replicate 17 MNil)[unat i := t, unat j := u] ! m)" if "m < 16" for m
      using that u assms by (auto simp: nth_list_update split: if_splits)
  qed (use u assms in \<open>auto simp: nth_list_update split: if_splits\<close>)
qed

lemma mget_two_children:
  assumes "i \<noteq> j" "unat i < 17" "unat j < 17"
  shows "mget (two_children i t j u) k =
    (case k of [] \<Rightarrow> None | x # k \<Rightarrow> if x = i then mget t k else if x = j then mget u k else None)"
proof -
  have "unat x = unat y \<longleftrightarrow> x = y" for x y :: byte by (simp add: word_unat_eq_iff)
  then show ?thesis using assms by (auto simp: two_children_def nth_list_update split: list.split)
qed

lemma mget_ext_split:
  "mget (MExt (q @ a # p) t) k =
    (if take (length q) k = q then (case drop (length q) k of [] \<Rightarrow> None | x # k \<Rightarrow> if x = a then mget (mext p t) k else None)
     else None)"
proof (cases "take (length q) k = q")
  case True
  then obtain k1 where k: "k = q @ k1" by (metis append_take_drop_id)
  show ?thesis by (cases k1) (auto simp: k mget_mext)
next
  case False
  then have "take (length (q @ a # p)) k \<noteq> q @ a # p" by (metis append_eq_conv_conj append_take_drop_id append_assoc)
  then show ?thesis using False by simp
qed

lemma split_content:
  assumes "a \<noteq> b" "unat a < 17" "unat b < 17"
  shows "mget (mext q (two_children a (mext p c) b (mext key (MVal v)))) = (mget (MExt (q @ a # p) c))(q @ b # key \<mapsto> v)"
proof
  fix k
  show "mget (mext q (two_children a (mext p c) b (mext key (MVal v)))) k = ((mget (MExt (q @ a # p) c))(q @ b # key \<mapsto> v)) k"
  proof (cases "take (length q) k = q")
    case True
    then obtain k1 where k: "k = q @ k1" by (metis append_take_drop_id)
    show ?thesis using assms(1)
      by (cases k1) (auto simp: k mget_mext mget_ext_split mget_two_children [OF assms] simp del: mget.simps(3))
  next
    case False
    then have "k \<noteq> q @ b # key" by auto
    then show ?thesis using False by (simp add: mget_mext mget_ext_split del: mget.simps(3))
  qed
qed

lemma insert_split:
  assumes "canon (MExt p c)" "hexkey key" "v \<noteq> []" "prefixLen key p < length p"
  defines "m \<equiv> prefixLen key p"
  defines "t' \<equiv> mext (take m key) (two_children (p ! m) (mext (drop (m + 1) p) c) (key ! m) (mext (drop (m + 1) key) (MVal v)))"
  shows "m < length key" "unat (p ! m) < 17" "unat (key ! m) < 17" "p ! m \<noteq> key ! m" "canon t'"
    "mget t' = (mget (MExt p c))(key \<mapsto> v)"
proof -
  have pre: "take m key = take m p" "m \<le> length key" using prefixLen_split by (auto simp: m_def)
  show mk: "m < length key"
  proof (rule ccontr)
    assume "\<not> m < length key"
    then have "p = key @ drop m p" "drop m p \<noteq> []" using pre assms(4) by (auto simp: m_def) (metis append_take_drop_id take_all)
    then have "nibbles key" using assms(1) hexkey_append [of key "drop m p"] nibbles_simps(3) by (metis canon.simps(3))
    then show False using assms(2) nibbles_not_term by (auto simp: hexkey_def)
  qed
  have mp: "m < length p" using assms(4) by (simp add: m_def)
  show ne: "p ! m \<noteq> key ! m" using prefixLen_split(4) [of key p] mk assms(4) by (auto simp: m_def)
  have kp: "p = take m key @ p ! m # drop (m + 1) p" "key = take m key @ key ! m # drop (m + 1) key"
    using id_take_nth_drop [OF mp] id_take_nth_drop [OF mk] pre(1) by (metis Suc_eq_plus1)+
  have cp: "if p ! m = 16 then is_value (mext (drop (m + 1) p) c) else p ! m < 16 \<and> canon (mext (drop (m + 1) p) c)"
    using mpt_ok_drop [OF assms(1) mp] by (auto simp: mext_def split: if_splits)
  have ck: "if key ! m = 16 then is_value (mext (drop (m + 1) key) (MVal v))
      else key ! m < 16 \<and> canon (mext (drop (m + 1) key) (MVal v))"
    using mpt_ok_drop [OF _ mk, of "MVal v"] assms(2,3) by (auto simp: mext_def split: if_splits)
  show l: "unat (p ! m) < 17" "unat (key ! m) < 17"
    using cp ck by (auto simp: word_less_nat_alt split: if_splits)
  have b: "canon (two_children (p ! m) (mext (drop (m + 1) p) c) (key ! m) (mext (drop (m + 1) key) (MVal v)))"
    using canon_two_children [OF ne cp ck] .
  have "nibbles (take m key)" using kp(2) assms(2) hexkey_append by (metis list.distinct(1))
  then show "canon t'" using b by (simp add: t'_def mext_def two_children_def del: canon.simps(4))
  show "mget t' = (mget (MExt p c))(key \<mapsto> v)"
    using split_content [OF ne l, of "take m key" "drop (m + 1) p" c "drop (m + 1) key" v] kp by (simp add: t'_def)
qed

lemma set_child_ok: "unat i < length cs \<Longrightarrow> set_child i c cs = Inr (cs[unat i := c])"
  by (simp add: set_child_def)

lemma trie_of_two_children:
  assumes "trie_of K db False c t" "trie_of K db False d u" "unat i < 17" "unat j < 17"
  shows "list_all2 (trie_of K db False) (empty_children[unat i := c, unat j := d]) ((replicate 17 MNil)[unat i := t, unat j := u])"
  using assms by (simp add: list_all2_conv_all_nth nth_list_update empty_children_def)

lemma changed_ok:
  assumes "r = Inr (dirty, nn, None)" "dirty \<Longrightarrow> mk nn = Inr n1"
  shows "changed n mk r = Inr (dirty, if dirty then n1 else n, None)"
  using assms by (simp add: changed_def)

lemma put_ok_value:
  assumes "trie_of K db tp n t" "sub_ok [] t" "v \<noteq> []"
  shows "put_ok K db tp t [] v (trie_insert (Suc fuel) db g n prefix [] (ValueNode v))"
proof -
  consider "t = MNil" "n = NilNode" | w where "t = MVal w" "n = ValueNode w"
    using assms(1,2) by (cases t) (auto simp: sub_ok_def trie_of_MNil trie_of_MVal)
  then show ?thesis using assms(3) by cases (auto simp: put_ok_def sub_ok_def fun_eq_iff)
qed

lemma put_ok_nil:
  assumes "hexkey key" "v \<noteq> []"
  shows "put_ok K db tp MNil key v (trie_insert (Suc fuel) db g NilNode prefix key (ValueNode v))"
proof -
  have k: "key \<noteq> []" using assms(1) by auto
  have "mget (MExt key (MVal v)) = (mget MNil)(key \<mapsto> v)" by (auto simp: fun_eq_iff)
  with k assms show ?thesis
    by (intro put_okI [where dirty = True and n' = "ShortNode key (ValueNode v) (newFlag g)" and t' = "MExt key (MVal v)"]) (auto simp: sub_ok_def simp del: mget.simps)
qed

lemma put_ok_short:
  assumes t: "canon (MExt k u)" and c: "trie_of K db False c u" and key: "hexkey key" "v \<noteq> []"
    and IH: "\<And>key' prefix. key = k @ key' \<Longrightarrow> put_ok K db False u key' v (trie_insert (Suc fuel) db g c prefix key' (ValueNode v))"
    and fl: "flag_ok K db tp fl (MExt k u)"
  shows "put_ok K db tp (MExt k u) key v (trie_insert (Suc (Suc fuel)) db g (ShortNode k c fl) prefix key (ValueNode v))"
proof (cases "prefixLen key k = length k")
  case True
  then have kk: "key = k @ drop (length k) key" using prefixLen_split(1) [of key k] by (metis append_take_drop_id take_all order_refl)
  let ?key = "drop (length k) key"
  obtain dirty n' t' where r: "trie_insert (Suc fuel) db g c (prefix @ take (length k) key) ?key (ValueNode v) = Inr (dirty, n', None)"
    "trie_of K db False n' t'" "sub_ok ?key t'" "t' \<noteq> MNil" "mget t' = (mget u)(?key \<mapsto> v)" "\<not> dirty \<longrightarrow> t' = u" "is_branch u \<longrightarrow> is_branch t'"
    using IH [OF kk] by (rule put_okE)
  have cn: "canon (MExt k t')"
  proof (cases "?key = []")
    case True
    then show ?thesis using r(3,4) kk key(1) by (simp add: sub_ok_def)
  next
    case False
    then have "canon t'" "nibbles k" using r(3,4) kk key(1) hexkey_append [of k ?key] by (auto simp: sub_ok_def)
    moreover have "\<not> hexkey k" using \<open>nibbles k\<close> nibbles_not_term by (auto simp: hexkey_def)
    ultimately show ?thesis using t r(7) by auto
  qed
  have m: "mget (MExt k t') = (mget (MExt k u))(key \<mapsto> v)"
  proof
    fix x
    show "mget (MExt k t') x = ((mget (MExt k u))(key \<mapsto> v)) x"
    proof (cases "take (length k) x = k")
      case True
      then obtain y where y: "x = k @ y" by (metis append_take_drop_id)
      have "x = key \<longleftrightarrow> y = ?key" using kk y by auto
      then show ?thesis using r(5) by (simp add: y del: mget.simps(3))
    next
      case False
      then have "x \<noteq> key" using kk by (metis append_eq_conv_conj)
      then show ?thesis using False by simp
    qed
  qed
  have i: "trie_insert (Suc (Suc fuel)) db g (ShortNode k c fl) prefix key (ValueNode v) =
      Inr (dirty, if dirty then ShortNode k n' (newFlag g) else ShortNode k c fl, None)"
    using True key(1) changed_ok [OF r(1)] by (subst trie_insert.simps(2)) (auto simp: Let_def)
  show ?thesis
    by (rule put_okI [OF i, where t' = "MExt k t'"]) (use r c cn m key(1) fl in \<open>auto simp: sub_ok_def simp del: mget.simps canon.simps\<close>)
next
  case False
  then have l: "prefixLen key k < length k" using prefixLen_split(3) [of key k] by simp
  note s = insert_split [OF t key l]
  let ?m = "prefixLen key k"
  have ci: "trie_of K db False (if drop (?m + 1) k = [] then c else ShortNode (drop (?m + 1) k) c (newFlag g)) (mext (drop (?m + 1) k) u)"
    "trie_of K db False (if drop (?m + 1) key = [] then ValueNode v else ShortNode (drop (?m + 1) key) (ValueNode v) (newFlag g))
      (mext (drop (?m + 1) key) (MVal v))"
    by (rule trie_of_mext [OF c c], rule trie_of_mext) simp_all
  note tw = trie_of_two_children [OF ci s(2,3)]
  have e: "length empty_children = 17" by (simp add: empty_children_def)
  let ?branch = "FullNode (empty_children[unat (k ! ?m) := if drop (?m + 1) k = [] then c else ShortNode (drop (?m + 1) k) c (newFlag g),
     unat (key ! ?m) := if drop (?m + 1) key = [] then ValueNode v else ShortNode (drop (?m + 1) key) (ValueNode v) (newFlag g)]) (newFlag g)"
  have r: "trie_insert (Suc (Suc fuel)) db g (ShortNode k c fl) prefix key (ValueNode v) =
      Inr (True, if take ?m key = [] then ?branch else ShortNode (take ?m key) ?branch (newFlag g), None)"
    using False s(1-3) key(1) e by (subst trie_insert.simps(2)) (auto simp: Let_def insert_nil set_child_def simp del: trie_insert.simps(2))
  let ?t' = "two_children (k ! ?m) (mext (drop (?m + 1) k) u) (key ! ?m) (mext (drop (?m + 1) key) (MVal v))"
  have b: "trie_of K db rt ?branch ?t'" for rt using tw by (simp add: two_children_def)
  show ?thesis
    by (rule put_okI [OF r trie_of_mext [OF b b]])
      (use s(5,6) key(1) in \<open>auto simp: sub_ok_def simp del: mget.simps canon.simps(3,4)\<close>)
qed

text \<open>A full node that need not have two children any more.\<close>

definition branch_ok :: "mpt list \<Rightarrow> bool" where
  "branch_ok ts \<longleftrightarrow> length ts = 17 \<and> (\<forall>i < 16. mpt_ok (ts ! i)) \<and> (ts ! 16 = MNil \<or> is_value (ts ! 16))"

lemma branch_ok_canon:
  assumes "branch_ok ts" "i < 17" "j < 17" "i \<noteq> j" "ts ! i \<noteq> MNil" "ts ! j \<noteq> MNil"
  shows "canon (MBranch ts)"
  using assms by (intro canon_branchI [of ts i j]) (auto simp: branch_ok_def)

lemma branch_ok_update:
  assumes "canon (MBranch ts)" "hexkey (x # key)" "sub_ok key t'"
  shows "branch_ok (ts[unat x := t'])"
proof -
  note s = sub_ok_child [OF assms(1,2)]
  have x: "unat x = 16 \<longleftrightarrow> x = 16" by (simp add: word_unat_eq_iff)
  have "mpt_ok (ts[unat x := t'] ! m)" if "m < 16" for m
    using that canon_branch_child(2) [OF assms(1), of m] assms(2,3) x s
    by (auto simp: nth_list_update sub_ok_def hexkey_Cons split: if_splits)
  moreover have "ts[unat x := t'] ! 16 = MNil \<or> is_value (ts[unat x := t'] ! 16)"
    using canon_branch_child(2) [OF assms(1), of 16] assms(2,3) x s
    by (auto simp: nth_list_update sub_ok_def hexkey_Cons split: if_splits)
  ultimately show ?thesis using s(2) by (simp add: branch_ok_def)
qed

lemma branch_update:
  assumes "canon (MBranch ts)" "hexkey (x # key)" "sub_ok key t'" "t' \<noteq> MNil"
  shows "canon (MBranch (ts[unat x := t']))"
proof -
  obtain i j where ij: "i < j" "j < 17" "ts ! i \<noteq> MNil" "ts ! j \<noteq> MNil" using canon_branch_two [OF assms(1)] by blast
  show ?thesis
    by (rule branch_ok_canon [OF branch_ok_update [OF assms(1-3)], of i j])
      (use ij sub_ok_child [OF assms(1,2)] assms(4) in \<open>auto simp: nth_list_update\<close>)
qed

lemma mget_branch_update:
  assumes "unat x < length ts"
  shows "mget (MBranch (ts[unat x := t'])) = (\<lambda>k. if k \<noteq> [] \<and> hd k = x then mget t' (tl k) else mget (MBranch ts) k)"
proof
  fix k
  show "mget (MBranch (ts[unat x := t'])) k = (if k \<noteq> [] \<and> hd k = x then mget t' (tl k) else mget (MBranch ts) k)"
  proof (cases k)
    case (Cons y k')
    show ?thesis
    proof (cases "y = x")
      case False
      then have "unat x \<noteq> unat y" unfolding unat_byte_eq by simp
      then show ?thesis using False by (simp add: Cons)
    qed (use assms Cons in simp)
  qed simp
qed

lemma put_ok_full:
  assumes t: "canon (MBranch ts)" and cs: "list_all2 (trie_of K db False) cs ts" and key: "hexkey (x # key)" "v \<noteq> []"
    and IH: "\<And>prefix. put_ok K db False (ts ! unat x) key v (trie_insert fuel db g (cs ! unat x) prefix key (ValueNode v))"
    and fl: "flag_ok K db tp fl (MBranch ts)"
  shows "put_ok K db tp (MBranch ts) (x # key) v (trie_insert (Suc fuel) db g (FullNode cs fl) prefix (x # key) (ValueNode v))"
proof -
  note s = sub_ok_child [OF t key(1)]
  have l: "length cs = 17" using cs s(2) by (simp add: list_all2_lengthD)
  obtain dirty n' t' where r: "trie_insert fuel db g (cs ! unat x) (prefix @ [x]) key (ValueNode v) = Inr (dirty, n', None)"
    "trie_of K db False n' t'" "sub_ok key t'" "t' \<noteq> MNil" "mget t' = (mget (ts ! unat x))(key \<mapsto> v)" "\<not> dirty \<longrightarrow> t' = ts ! unat x"
    using IH by (rule put_okE)
  have i: "trie_insert (Suc fuel) db g (FullNode cs fl) prefix (x # key) (ValueNode v) =
      Inr (dirty, if dirty then FullNode (cs[unat x := n']) (newFlag g) else FullNode cs fl, None)"
    using l s changed_ok [OF r(1)] by (simp add: child_def set_child_def One_nat_def)
  have m: "mget (MBranch (ts[unat x := t'])) = (mget (MBranch ts))(x # key \<mapsto> v)"
  proof
    fix k
    show "mget (MBranch (ts[unat x := t'])) k = ((mget (MBranch ts))(x # key \<mapsto> v)) k"
      using s r(5) mget_branch_update [of x ts t'] by (cases k) auto
  qed
  have u: "list_all2 (trie_of K db False) (cs[unat x := n']) (ts[unat x := t'])"
    using cs r(2) s l by (simp add: list_all2_conv_all_nth nth_list_update)
  show ?thesis
    by (rule put_okI [OF i, where t' = "MBranch (ts[unat x := t'])"])
      (use branch_update [OF t key(1) r(3,4)] u m r(6) key(1) cs fl in \<open>auto simp: sub_ok_def simp del: mget.simps canon.simps\<close>)
qed

lemma insert_ok:
  assumes "trie_of K db tp n t" "sub_ok key t" "v \<noteq> []" "2 * length key + 2 \<le> fuel"
  shows "put_ok K db tp t key v (trie_insert fuel db g n prefix key (ValueNode v))"
  using assms
proof (induction "length key" arbitrary: n t key fuel prefix tp rule: less_induct)
  case less
  have step: "put_ok K db tp t key v (trie_insert f db g n prefix key (ValueNode v))"
    if nh: "\<not> is_hash n" and tr: "trie_of K db tp n t" and fu: "2 * length key + 1 \<le> f" "2 \<le> f" for n f
  proof -
    obtain f' where f: "f = Suc (Suc f')" using fu(2) by (metis Suc_le_D Suc_le_mono numeral_2_eq_2)
    show ?thesis
    proof (cases "key = []")
      case True
      then show ?thesis using put_ok_value tr less.prems(2,3) f by blast
    next
      case False
      then have k: "hexkey key" "mpt_ok t" using less.prems(2) by (auto simp: sub_ok_def)
      show ?thesis
      proof (cases n)
        case NilNode
        then show ?thesis using put_ok_nil k(1) less.prems(3) tr f by auto
      next
        case (ShortNode p c fl)
        then obtain u where t: "t = MExt p u" "trie_of K db False c u" "flag_ok K db tp fl t" using tr by auto
        have ct: "canon (MExt p u)" using k(2) t(1) by auto
        show ?thesis unfolding ShortNode t(1) f
        proof (rule put_ok_short [OF ct t(2) k(1) less.prems(3) _ t(3) [unfolded t(1)]])
          fix key' prefix assume kk: "key = p @ key'"
          then have "sub_ok key' u" using sub_ok_ext ct k(1) by blast
          moreover have "length key' < length key" using kk ct canon_ext_not_Nil by auto
          ultimately show "put_ok K db False u key' v (trie_insert (Suc f') db g c prefix key' (ValueNode v))"
            using less.hyps [of key' False c u "Suc f'" prefix] t(2) less.prems(3) fu(1) f by linarith
        qed
      next
        case (FullNode cs fl)
        then obtain ts where t: "t = MBranch ts" "list_all2 (trie_of K db False) cs ts" "flag_ok K db tp fl t" using tr by auto
        obtain x key' where kk: "key = x # key'" using False by (cases key) auto
        have ct: "canon (MBranch ts)" "hexkey (x # key')" using k t(1) kk by auto
        note s = sub_ok_child [OF ct]
        show ?thesis unfolding FullNode t(1) f kk
        proof (rule put_ok_full [OF ct(1) t(2) ct(2) less.prems(3) _ t(3) [unfolded t(1)]])
          fix prefix
          have "trie_of K db False (cs ! unat x) (ts ! unat x)" using t(2) s by (metis list_all2_conv_all_nth)
          then show "put_ok K db False (ts ! unat x) key' v (trie_insert (Suc f') db g (cs ! unat x) prefix key' (ValueNode v))"
            using less.hyps [of key' False "cs ! unat x" "ts ! unat x" "Suc f'" prefix] s(3) less.prems(3) fu(1) f kk by simp
        qed
      qed (use nh tr k in auto)
    qed
  qed
  show ?case
  proof (cases "is_hash n")
    case False
    then show ?thesis using step less.prems by simp
  next
    case True
    then obtain h where n: "n = HashNode h" by (cases n) auto
    obtain m where m: "resolveHash db g h prefix = Inr m" "\<not> is_hash m" "trie_of K db tp m t" "canon t"
      using trie_of_hash less.prems(1) n by metis
    have k: "key \<noteq> []" using less.prems(2) m(4) canon_value by (auto simp: sub_ok_def split: if_splits)
    obtain f where f: "fuel = Suc f" using less.prems(4) by (cases fuel) auto
    have "put_ok K db tp t key v (trie_insert f db g m prefix key (ValueNode v))"
      using step [OF m(2,3)] less.prems(4) f k by (cases key) auto
    then obtain dirty n' t' where r: "trie_insert f db g m prefix key (ValueNode v) = Inr (dirty, n', None)"
      "trie_of K db tp n' t'" "sub_ok key t'" "t' \<noteq> MNil" "mget t' = (mget t)(key \<mapsto> v)" "\<not> dirty \<longrightarrow> t' = t" "is_branch t \<longrightarrow> is_branch t'"
      by (rule put_okE)
    have "trie_insert fuel db g n prefix key (ValueNode v) = Inr (dirty, if dirty then n' else m, None)"
      using k m(1) changed_ok [OF r(1), of Inr n'] by (simp add: f n)
    then show ?thesis by (rule put_okI [where t' = t']) (use r m(3) in auto)
  qed
qed

section \<open>Deletion\<close>

definition del_ok :: "(bytes \<Rightarrow> hash) \<Rightarrow> node_db \<Rightarrow> bool \<Rightarrow> mpt \<Rightarrow> bytes \<Rightarrow> change \<Rightarrow> bool" where
  "del_ok K db tp t k r \<longleftrightarrow> (\<exists>dirty n' t'. r = Inr (dirty, n', None) \<and> trie_of K db tp n' t' \<and>
    sub_ok k t' \<and> mget t' = (mget t)(k := None) \<and> (\<not> dirty \<longrightarrow> t' = t) \<and> (is_branch t \<longrightarrow> dirty \<longrightarrow> \<not> is_hash n' \<and> t' \<noteq> MNil))"

lemma del_okI:
  assumes "r = Inr (dirty, n', None)" "trie_of K db tp n' t'" "sub_ok k t'" "mget t' = (mget t)(k := None)"
    "\<not> dirty \<Longrightarrow> t' = t" "is_branch t \<Longrightarrow> dirty \<Longrightarrow> \<not> is_hash n' \<and> t' \<noteq> MNil"
  shows "del_ok K db tp t k r"
  using assms unfolding del_ok_def by blast

lemma del_okE:
  assumes "del_ok K db tp t k r"
  obtains dirty n' t' where "r = Inr (dirty, n', None)" "trie_of K db tp n' t'" "sub_ok k t'"
    "mget t' = (mget t)(k := None)" "\<not> dirty \<longrightarrow> t' = t" "is_branch t \<longrightarrow> dirty \<longrightarrow> \<not> is_hash n' \<and> t' \<noteq> MNil"
  using assms unfolding del_ok_def by blast

lemma only_child_found: "pos \<noteq> -1 \<Longrightarrow> only_child i pos cs = (if \<forall>c \<in> set cs. c = NilNode then pos else -2)"
  by (induction cs arbitrary: i) auto

lemma only_child_cases:
  "only_child i (-1) cs = -1 \<and> (\<forall>c \<in> set cs. c = NilNode) \<or>
   (\<exists>j < length cs. only_child i (-1) cs = int (i + j) \<and> cs ! j \<noteq> NilNode \<and> (\<forall>l < length cs. l \<noteq> j \<longrightarrow> cs ! l = NilNode)) \<or>
   only_child i (-1) cs = -2 \<and> (\<exists>j l. j < l \<and> l < length cs \<and> cs ! j \<noteq> NilNode \<and> cs ! l \<noteq> NilNode)"
  (is "?none i cs \<or> ?one i cs \<or> ?more i cs")
proof (induction cs arbitrary: i)
  case (Cons c cs)
  show ?case
  proof (cases "c = NilNode")
    case True
    have "?one i (c # cs)" if "?one (i + 1) cs"
    proof -
      from that obtain j where j: "j < length cs" "only_child (i + 1) (-1) cs = int (i + 1 + j)" "cs ! j \<noteq> NilNode"
        "\<forall>l < length cs. l \<noteq> j \<longrightarrow> cs ! l = NilNode" by blast
      then show ?thesis using True by (intro exI [of _ "Suc j"]) (auto simp: nth_Cons split: nat.splits)
    qed
    moreover have "?more i (c # cs)" if "?more (i + 1) cs"
    proof -
      from that obtain j l where "j < l" "l < length cs" "cs ! j \<noteq> NilNode" "cs ! l \<noteq> NilNode" by blast
      then have "Suc j < Suc l" "Suc l < length (c # cs)" "(c # cs) ! Suc j \<noteq> NilNode" "(c # cs) ! Suc l \<noteq> NilNode" by auto
      then show ?thesis using that True by (metis only_child.simps(2))
    qed
    ultimately show ?thesis using Cons.IH [of "i + 1"] True by auto
  next
    case False
    show ?thesis
    proof (cases "\<forall>c \<in> set cs. c = NilNode")
      case True
      then have "?one i (c # cs)"
        using False by (intro exI [of _ 0]) (auto simp: only_child_found nth_Cons split: nat.splits)
      then show ?thesis by blast
    next
      case all: False
      then obtain l where "l < length cs" "cs ! l \<noteq> NilNode" by (auto simp: in_set_conv_nth)
      then have "(0::nat) < Suc l" "Suc l < length (c # cs)" "(c # cs) ! 0 \<noteq> NilNode" "(c # cs) ! Suc l \<noteq> NilNode"
        using False by auto
      moreover have "only_child i (-1) (c # cs) = -2" using all False by (auto simp: only_child_found)
      ultimately show ?thesis by blast
    qed
  qed
qed simp

lemma trie_of_nil_iff: "trie_of K db tp n t \<Longrightarrow> n = NilNode \<longleftrightarrow> t = MNil"
  by (auto simp: trie_of_MNil)

lemma mget_single_child:
  assumes "length ts = 17" "j < 17" "\<And>l. l < 17 \<Longrightarrow> l \<noteq> j \<Longrightarrow> ts ! l = MNil"
  shows "mget (MBranch ts) = mget (MExt [word_of_nat j] (ts ! j))"
proof
  fix k
  show "mget (MBranch ts) k = mget (MExt [word_of_nat j] (ts ! j)) k"
  proof (cases k)
    case (Cons x k')
    show ?thesis
    proof (cases "unat x = j")
      case True
      then have "word_of_nat j = x" by auto
      then show ?thesis using True assms by (simp add: Cons One_nat_def)
    next
      case False
      then have "x \<noteq> word_of_nat j" using assms(2) by (auto simp: unat_of_nat)
      then show ?thesis using False assms by (simp add: Cons One_nat_def)
    qed
  qed (simp add: One_nat_def)
qed

lemma mget_MExt_Cons: "mget (MExt (x # k) t) = mget (MExt [x] (MExt k t))"
proof
  fix y
  show "mget (MExt (x # k) t) y = mget (MExt [x] (MExt k t)) y" by (cases y) (auto simp: One_nat_def)
qed

lemma mget_MExt_MExt: "mget (MExt p (MExt q t)) = mget (MExt (p @ q) t)"
proof
  fix y
  show "mget (MExt p (MExt q t)) y = mget (MExt (p @ q) t) y"
  proof (cases "take (length p) y = p")
    case True
    then obtain z where "y = p @ z" by (metis append_take_drop_id)
    then show ?thesis by simp
  next
    case False
    then have "take (length (p @ q)) y \<noteq> p @ q" by (metis append_eq_conv_conj append_take_drop_id append_assoc)
    then show ?thesis using False by simp
  qed
qed

lemma canon_MExt_Cons: "canon (MExt k t) \<Longrightarrow> x < 16 \<Longrightarrow> canon (MExt (x # k) t)"
  by (auto simp: hexkey_Cons)

lemma reduce_single:
  assumes b: "branch_ok ts" and cs: "list_all2 (trie_of K db False) cs ts" and j: "j < 17" "ts ! j \<noteq> MNil"
    and o: "only_child 0 (-1) cs = int j"
  shows "\<exists>n' t'. reduce_full db g prefix cs = Inr (True, n', None) \<and> trie_of K db tp n' t' \<and> canon t' \<and> \<not> is_hash n' \<and>
    mget t' = mget (MExt [word_of_nat j] (ts ! j))"
proof -
  have c: "trie_of K db False (cs ! j) (ts ! j)" using cs b j by (simp add: branch_ok_def list_all2_conv_all_nth)
  let ?x = "word_of_nat j :: byte"
  show ?thesis
  proof (cases "j = 16")
    case True
    then have "is_value (ts ! j)" using b j by (simp add: branch_ok_def)
    then have "canon (MExt [16] (ts ! j))" by (simp add: hexkey_Cons)
    then show ?thesis using o c True by (intro exI [of _ "ShortNode [16] (cs ! 16) (newFlag g)"] exI [of _ "MExt [16] (ts ! j)"])
        (simp add: reduce_full_def Let_def)
  next
    case False
    then have x: "?x < 16" "j < 16" using j by (auto simp: word_less_nat_alt unat_of_nat)
    then have cj: "canon (ts ! j)" using b j(2) by (auto simp: branch_ok_def)
    obtain m where m: "resolve db g (cs ! j) prefix = Inr m" "\<not> is_hash m" "trie_of K db False m (ts ! j)"
    proof (cases "is_hash (cs ! j)")
      case True
      then obtain h where h: "cs ! j = HashNode h" by (cases "cs ! j") auto
      then show ?thesis using that trie_of_hash [of K db False h "ts ! j" g prefix] c by auto
    next
      case False
      then show ?thesis using that [of "cs ! j"] c by (cases "cs ! j") auto
    qed
    show ?thesis
    proof (cases m)
      case (ShortNode k v fl)
      then obtain u where u: "ts ! j = MExt k u" "trie_of K db False v u" using m(3) by auto
      have "canon (MExt (?x # k) u)" using canon_MExt_Cons cj x(1) u(1) by metis
      moreover have "reduce_full db g prefix cs = Inr (True, ShortNode (?x # k) v (newFlag g), None)"
        using o False m(1) ShortNode by (simp add: reduce_full_def Let_def)
      ultimately show ?thesis using u(2) mget_MExt_Cons [of ?x k u] unfolding u(1)
        by (intro exI [of _ "ShortNode (?x # k) v (newFlag g)"] exI [of _ "MExt (?x # k) u"]) (simp del: mget.simps canon.simps)
    next
      case (FullNode ds fl)
      then have "is_branch (ts ! j)" using m(3) by auto
      then have "canon (MExt [?x] (ts ! j))" using cj x by simp
      then show ?thesis using o False m(1) FullNode c
        by (intro exI [of _ "ShortNode [?x] (cs ! j) (newFlag g)"] exI [of _ "MExt [?x] (ts ! j)"])
          (simp add: reduce_full_def Let_def del: mget.simps canon.simps)
    qed (use m(2,3) cj j(2) in auto)
  qed
qed

lemma reduce_full_ok:
  assumes b: "branch_ok ts" and cs: "list_all2 (trie_of K db False) cs ts" and i: "i < 17" "ts ! i \<noteq> MNil"
  shows "\<exists>n' t'. reduce_full db g prefix cs = Inr (True, n', None) \<and> trie_of K db tp n' t' \<and> canon t' \<and> \<not> is_hash n' \<and> mget t' = mget (MBranch ts)"
proof -
  have l: "length cs = 17" "length ts = 17" using b cs by (auto simp: branch_ok_def list_all2_lengthD)
  have n: "cs ! j = NilNode \<longleftrightarrow> ts ! j = MNil" if "j < 17" for j
    using that cs l by (intro trie_of_nil_iff [of K db False]) (simp add: list_all2_conv_all_nth)
  have some: "\<not> (\<forall>c \<in> set cs. c = NilNode)" using n [OF i(1)] i l(1) by (metis nth_mem)
  consider j where "j < 17" "only_child 0 (-1) cs = int j" "cs ! j \<noteq> NilNode" "\<forall>l < 17. l \<noteq> j \<longrightarrow> cs ! l = NilNode"
    | j l where "only_child 0 (-1) cs = -2" "j < l" "l < 17" "cs ! j \<noteq> NilNode" "cs ! l \<noteq> NilNode"
    using only_child_cases [of 0 cs] some l(1) by auto
  then show ?thesis
  proof cases
    case (1 j)
    then have "mget (MBranch ts) = mget (MExt [word_of_nat j] (ts ! j))" using mget_single_child l(2) n by auto
    then show ?thesis using reduce_single [OF b cs 1(1) _ 1(2), of g prefix] 1(3) n [OF 1(1)] by simp
  next
    case (2 j l)
    then have "canon (MBranch ts)" using b n by (intro branch_ok_canon [of ts j l]) auto
    then show ?thesis using 2(1) cs
      by (intro exI [of _ "FullNode cs (newFlag g)"] exI [of _ "MBranch ts"]) (simp add: reduce_full_def Let_def del: mget.simps canon.simps)
  qed
qed

lemma del_ok_full:
  assumes t: "canon (MBranch ts)" and cs: "list_all2 (trie_of K db False) cs ts" and key: "hexkey (x # key)"
    and IH: "\<And>prefix. del_ok K db False (ts ! unat x) key (trie_delete fuel db g (cs ! unat x) prefix key)"
    and fl: "flag_ok K db tp fl (MBranch ts)"
  shows "del_ok K db tp (MBranch ts) (x # key) (trie_delete (Suc fuel) db g (FullNode cs fl) prefix (x # key))"
proof -
  note s = sub_ok_child [OF t key]
  have l: "length cs = 17" using cs s(2) by (simp add: list_all2_lengthD)
  obtain dirty n' t' where r: "trie_delete fuel db g (cs ! unat x) (prefix @ [x]) key = Inr (dirty, n', None)"
    "trie_of K db False n' t'" "sub_ok key t'" "mget t' = (mget (ts ! unat x))(key := None)" "\<not> dirty \<longrightarrow> t' = ts ! unat x"
    using IH by (rule del_okE)
  have m: "mget (MBranch (ts[unat x := t'])) = (mget (MBranch ts))(x # key := None)"
  proof
    fix k
    show "mget (MBranch (ts[unat x := t'])) k = ((mget (MBranch ts))(x # key := None)) k"
      using s r(4) mget_branch_update [of x ts t'] by (cases k) auto
  qed
  show ?thesis
  proof (cases dirty)
    case False
    have "trie_delete (Suc fuel) db g (FullNode cs fl) prefix (x # key) = Inr (False, FullNode cs fl, None)"
      using r(1) False l s by (simp add: child_def One_nat_def)
    then show ?thesis by (rule del_okI [where t' = "MBranch ts"]) (use t cs key m r(5) False fl in \<open>auto simp: sub_ok_def simp del: mget.simps canon.simps\<close>)
  next
    case True
    have u: "list_all2 (trie_of K db False) (cs[unat x := n']) (ts[unat x := t'])"
      using cs r(2) s l by (simp add: list_all2_conv_all_nth nth_list_update)
    obtain i j where ij: "i < j" "j < 17" "ts ! i \<noteq> MNil" "ts ! j \<noteq> MNil" using canon_branch_two [OF t] by blast
    obtain k where k: "k < 17" "ts[unat x := t'] ! k \<noteq> MNil"
      using ij that [of i] that [of j] by (cases "unat x = i") auto
    obtain n2 t2 where r2: "reduce_full db g prefix (cs[unat x := n']) = Inr (True, n2, None)" "trie_of K db tp n2 t2" "canon t2"
      "\<not> is_hash n2" "mget t2 = mget (MBranch (ts[unat x := t']))"
      using reduce_full_ok [OF branch_ok_update [OF t key r(3)] u k] by blast
    have "trie_delete (Suc fuel) db g (FullNode cs fl) prefix (x # key) = Inr (True, n2, None)"
      using r(1) r2(1) True l s by (simp add: child_def set_child_def One_nat_def)
    then show ?thesis
      by (rule del_okI [where t' = t2]) (use r2 m key in \<open>auto simp: sub_ok_def simp del: mget.simps canon.simps(3,4)\<close>)
  qed
qed

lemma del_ok_short:
  assumes t: "canon (MExt k u)" and c: "trie_of K db False c u" and key: "hexkey key"
    and IH: "\<And>key' prefix. key = k @ key' \<Longrightarrow> del_ok K db False u key' (trie_delete fuel db g c prefix key')"
    and fl: "flag_ok K db tp fl (MExt k u)"
  shows "del_ok K db tp (MExt k u) key (trie_delete (Suc fuel) db g (ShortNode k c fl) prefix key)"
proof (cases "prefixLen key k < length k")
  case True
  then have "take (length k) key \<noteq> k" using prefixLen_append [of k "drop (length k) key"]
    by (metis append_take_drop_id nat_neq_iff)
  then have "mget (MExt k u) = (mget (MExt k u))(key := None)" by (auto simp: fun_eq_iff)
  then show ?thesis using True t c key fl
    by (intro del_okI [where dirty = False and n' = "ShortNode k c fl" and t' = "MExt k u"]) (auto simp: sub_ok_def simp del: mget.simps canon.simps)
next
  case False
  then have m: "prefixLen key k = length k" using prefixLen_split(3) [of key k] by simp
  then have kk: "key = k @ drop (length k) key" using prefixLen_split(1) [of key k] by (metis append_take_drop_id take_all order_refl)
  let ?key = "drop (length k) key"
  show ?thesis
  proof (cases "?key = []")
    case True
    then have k: "key = k" using kk by simp
    then have "is_value u" using t key nibbles_not_term by (auto simp: hexkey_def)
    then have "mget MNil = (mget (MExt k u))(key := None)" by (cases u) (auto simp: fun_eq_iff k)
    then show ?thesis using m True k key
      by (intro del_okI [where dirty = True and n' = NilNode and t' = MNil]) (auto simp: sub_ok_def Let_def simp del: mget.simps)
  next
    case False
    then have nk: "nibbles k" using kk key hexkey_append by metis
    then have u: "is_branch u" "canon u" using t nibbles_not_term by (auto simp: hexkey_def)
    obtain dirty n' t' where r: "trie_delete fuel db g c (prefix @ take (length k) key) ?key = Inr (dirty, n', None)"
      "trie_of K db False n' t'" "sub_ok ?key t'" "mget t' = (mget u)(?key := None)" "\<not> dirty \<longrightarrow> t' = u" "is_branch u \<longrightarrow> dirty \<longrightarrow> \<not> is_hash n' \<and> t' \<noteq> MNil"
      using IH [OF kk] by (rule del_okE)
    have d: "trie_delete (Suc fuel) db g (ShortNode k c fl) prefix key = Inr (dirty, if dirty then merge_short g k n' else ShortNode k c fl, None)"
      using m False kk changed_ok [OF r(1)] by (auto simp: Let_def)
    have mg: "mget (MExt k t') = (mget (MExt k u))(key := None)"
    proof
      fix x
      show "mget (MExt k t') x = ((mget (MExt k u))(key := None)) x"
      proof (cases "take (length k) x = k")
        case True
        then obtain y where y: "x = k @ y" by (metis append_take_drop_id)
        have "x = key \<longleftrightarrow> y = ?key" using kk y by auto
        then show ?thesis using r(4) by (simp add: y del: mget.simps(3))
      qed simp
    qed
    show ?thesis
    proof (cases dirty)
      case False
      then show ?thesis using d mg r(5) t c key fl
        by (intro del_okI [where dirty = False and n' = "ShortNode k c fl" and t' = "MExt k u"]) (auto simp: sub_ok_def simp del: mget.simps canon.simps)
    next
      case True
      then have t': "canon t'" using r(3,6) u(1) \<open>?key \<noteq> []\<close> by (auto simp: sub_ok_def)
      have k0: "k \<noteq> []" using t by auto
      obtain t2 where t2: "trie_of K db tp (merge_short g k n') t2" "canon t2" "mget t2 = mget (MExt k t')"
      proof (cases n')
        case (ShortNode q v fl')
        then obtain w where w: "t' = MExt q w" "trie_of K db False v w" using r(2) by auto
        have "canon (MExt (k @ q) w)" using t' nk k0 by (auto simp: w(1) hexkey_append)
        then show ?thesis using that [of "MExt (k @ q) w"] w ShortNode mget_MExt_MExt [of k q w]
          by (simp add: merge_short_def del: mget.simps canon.simps)
      next
        case (FullNode ds fl')
        then have "is_branch t'" using r(2) by auto
        then have "canon (MExt k t')" using t' nk k0 by simp
        then show ?thesis using that [of "MExt k t'"] FullNode r(2) by (simp add: merge_short_def del: mget.simps canon.simps)
      qed (use r(2,6) u(1) True t' in auto)
      show ?thesis
        by (rule del_okI [OF d, where t' = t2]) (use True t2 mg key in \<open>auto simp: sub_ok_def simp del: mget.simps canon.simps\<close>)
    qed
  qed
qed

lemma delete_ok:
  assumes "trie_of K db tp n t" "sub_ok key t" "2 * length key + 2 \<le> fuel"
  shows "del_ok K db tp t key (trie_delete fuel db g n prefix key)"
  using assms
proof (induction "length key" arbitrary: n t key fuel prefix tp rule: less_induct)
  case less
  have step: "del_ok K db tp t key (trie_delete f db g n prefix key)"
    if nh: "\<not> is_hash n" and tr: "trie_of K db tp n t" and fu: "2 * length key + 1 \<le> f" for n f
  proof -
    obtain f' where f: "f = Suc f'" using fu by (cases f) auto
    show ?thesis
    proof (cases n)
      case NilNode
      then show ?thesis using tr less.prems(2) f by (intro del_okI [where dirty = False and n' = NilNode and t' = MNil]) (auto simp: fun_eq_iff)
    next
      case (ValueNode w)
      then have "key = []" "t = MVal w" using tr less.prems(2) by (auto simp: sub_ok_def split: if_splits)
      then show ?thesis using f ValueNode by (intro del_okI [where dirty = True and n' = NilNode and t' = MNil]) (auto simp: fun_eq_iff sub_ok_def)
    next
      case (ShortNode p c fl)
      then obtain u where t: "t = MExt p u" "trie_of K db False c u" "flag_ok K db tp fl t" using tr by auto
      then have ct: "canon (MExt p u)" "hexkey key" using less.prems(2) by (auto simp: sub_ok_def split: if_splits)
      show ?thesis unfolding ShortNode t(1) f
      proof (rule del_ok_short [OF ct(1) t(2) ct(2) _ t(3) [unfolded t(1)]])
        fix key' prefix assume kk: "key = p @ key'"
        then have "sub_ok key' u" using sub_ok_ext ct by blast
        moreover have "length key' < length key" using kk ct canon_ext_not_Nil by auto
        ultimately show "del_ok K db False u key' (trie_delete f' db g c prefix key')"
          using less.hyps [of key' False c u f' prefix] t(2) fu f by linarith
      qed
    next
      case (FullNode cs fl)
      then obtain ts where t: "t = MBranch ts" "list_all2 (trie_of K db False) cs ts" "flag_ok K db tp fl t" using tr by auto
      then have ct: "canon (MBranch ts)" "hexkey key" using less.prems(2) by (auto simp: sub_ok_def split: if_splits)
      obtain x key' where kk: "key = x # key'" using ct(2) by (cases key) auto
      note s = sub_ok_child [OF ct(1) ct(2) [unfolded kk]]
      show ?thesis unfolding FullNode t(1) f kk
      proof (rule del_ok_full [OF ct(1) t(2) ct(2) [unfolded kk] _ t(3) [unfolded t(1)]])
        fix prefix
        have "trie_of K db False (cs ! unat x) (ts ! unat x)" using t(2) s by (metis list_all2_conv_all_nth)
        then show "del_ok K db False (ts ! unat x) key' (trie_delete f' db g (cs ! unat x) prefix key')"
          using less.hyps [of key' False "cs ! unat x" "ts ! unat x" f' prefix] s(3) fu f kk by simp
      qed
    qed (use nh in simp)
  qed
  show ?case
  proof (cases "is_hash n")
    case False
    then show ?thesis using step less.prems by simp
  next
    case True
    then obtain h where n: "n = HashNode h" by (cases n) auto
    obtain m where m: "resolveHash db g h prefix = Inr m" "\<not> is_hash m" "trie_of K db tp m t" "canon t"
      using trie_of_hash less.prems(1) n by metis
    obtain f where f: "fuel = Suc f" using less.prems(3) by (cases fuel) auto
    have "del_ok K db tp t key (trie_delete f db g m prefix key)" using step [OF m(2,3)] less.prems(3) f by simp
    then obtain dirty n' t' where r: "trie_delete f db g m prefix key = Inr (dirty, n', None)"
      "trie_of K db tp n' t'" "sub_ok key t'" "mget t' = (mget t)(key := None)" "\<not> dirty \<longrightarrow> t' = t"
      "is_branch t \<longrightarrow> dirty \<longrightarrow> \<not> is_hash n' \<and> t' \<noteq> MNil"
      by (rule del_okE)
    have "trie_delete fuel db g n prefix key = Inr (dirty, if dirty then n' else m, None)"
      using m(1) changed_ok [OF r(1), of Inr n'] by (simp add: f n)
    then show ?thesis by (rule del_okI [where t' = t']) (use r m(3) in auto)
  qed
qed

section \<open>The trie as a map\<close>

text \<open>
  The trie \<open>t\<close> is in minimal form, all its nodes are in memory or in the database, and \<open>m\<close> is the mapping from
  keys to values it stands for.
\<close>

definition rep_by :: "(bytes \<Rightarrow> hash) \<Rightarrow> node_db \<Rightarrow> Trie \<Rightarrow> (bytes \<Rightarrow> bytes option) \<Rightarrow> mpt \<Rightarrow> bool" where
  "rep_by K db t m a \<longleftrightarrow> trie_of K db True (root t) a \<and> mpt_ok a \<and> (\<forall>s. mget a (keybytesToHex s) = m s) \<and>
    (\<forall>k v. mget a k = Some v \<longrightarrow> k \<in> range keybytesToHex)"

definition trie_rep :: "(bytes \<Rightarrow> hash) \<Rightarrow> node_db \<Rightarrow> Trie \<Rightarrow> (bytes \<Rightarrow> bytes option) \<Rightarrow> bool" where
  "trie_rep K db t m \<longleftrightarrow> (\<exists>a. rep_by K db t m a)"

lemma rep_byD:
  assumes "rep_by K db t m a"
  shows "trie_of K db True (root t) a" "mpt_ok a" "\<And>s. mget a (keybytesToHex s) = m s"
    "\<And>k v. mget a k = Some v \<Longrightarrow> k \<in> range keybytesToHex"
  using assms unfolding rep_by_def by simp_all

lemma trie_repI:
  assumes "trie_of K db True (root t) a" "mpt_ok a" "\<And>s. mget a (keybytesToHex s) = m s"
    "\<And>k v. mget a k = Some v \<Longrightarrow> k \<in> range keybytesToHex"
  shows "trie_rep K db t m"
proof -
  have "rep_by K db t m a" unfolding rep_by_def using assms by (intro conjI) simp_all
  then show ?thesis by (auto simp: trie_rep_def)
qed

lemma sub_ok_root: "mpt_ok a \<Longrightarrow> sub_ok (keybytesToHex s) a"
  using hexkey_keybytesToHex [of s] by (auto simp: sub_ok_def)

lemma root_ok: "sub_ok (keybytesToHex s) a \<Longrightarrow> mpt_ok a"
  using hexkey_keybytesToHex [of s] by (auto simp: sub_ok_def split: if_splits)

lemma trie_rep_TryGet:
  assumes "trie_rep K db t m"
  shows "\<exists>t'. TryGet db k t = Inr (case m k of None \<Rightarrow> [] | Some v \<Rightarrow> v, None, t') \<and> trie_rep K db t' m \<and>
    cachegen t' = cachegen t \<and> cachelimit t' = cachelimit t"
proof -
  obtain a where "rep_by K db t m a" using assms unfolding trie_rep_def by blast
  note a = rep_byD [OF this]
  let ?k = "keybytesToHex k"
  have "get_ok K db True a (drop 0 ?k) (tryGet (trie_fuel ?k) db (cachegen t) (root t) ?k 0)"
    by (rule tryGet_ok) (use a sub_ok_root in \<open>auto simp: trie_fuel_def\<close>)
  then obtain n' did where g: "tryGet (trie_fuel ?k) db (cachegen t) (root t) ?k 0 =
      Inr (case m k of None \<Rightarrow> [] | Some v \<Rightarrow> v, n', did, None)" "trie_of K db True n' a"
    using a(3) by (auto simp: get_ok_def)
  then show ?thesis using a by (auto simp: TryGet_def Let_def intro!: trie_repI [where a = a])
qed

lemma trie_rep_change:
  assumes "r = Inr (dirty, n', None)" "trie_of K db True n' a'" "sub_ok (keybytesToHex k) a'"
    "mget a' = (mget a)(keybytesToHex k := x)" "\<And>s. mget a (keybytesToHex s) = m s"
    "\<And>k v. mget a k = Some v \<Longrightarrow> k \<in> range keybytesToHex"
  shows "\<exists>t'. set_root r t = Inr (None, t') \<and> trie_rep K db t' (m(k := x)) \<and> cachegen t' = cachegen t \<and> cachelimit t' = cachelimit t"
proof -
  have "mget a' (keybytesToHex s) = (m(k := x)) s" for s
    using assms(4,5) keybytesToHex_inj [of s k] by auto
  moreover have "mget a' y = Some v \<Longrightarrow> y \<in> range keybytesToHex" for y v
    using assms(4,6) by (auto split: if_splits)
  ultimately have "trie_rep K db (t\<lparr> root := n' \<rparr>) (m(k := x))"
    using assms(2) root_ok [OF assms(3)] by (intro trie_repI [where a = a']) simp_all
  then show ?thesis using assms(1) by (auto simp: set_root_def)
qed

lemma trie_rep_insert:
  assumes "trie_rep K db t m" "v \<noteq> []"
  shows "\<exists>t'. set_root (trie_insert (trie_fuel (keybytesToHex k)) db (cachegen t) (root t) [] (keybytesToHex k) (ValueNode v)) t =
    Inr (None, t') \<and> trie_rep K db t' (m(k \<mapsto> v)) \<and> cachegen t' = cachegen t \<and> cachelimit t' = cachelimit t"
proof -
  obtain a where "rep_by K db t m a" using assms(1) unfolding trie_rep_def by blast
  note a = rep_byD [OF this]
  have "put_ok K db True a (keybytesToHex k) v
      (trie_insert (trie_fuel (keybytesToHex k)) db (cachegen t) (root t) [] (keybytesToHex k) (ValueNode v))"
    by (rule insert_ok [OF a(1) sub_ok_root [OF a(2)] assms(2)]) (simp add: trie_fuel_def)
  then show ?thesis by (rule put_okE) (rule trie_rep_change [OF _ _ _ _ a(3,4)])
qed

lemma trie_rep_delete:
  assumes "trie_rep K db t m"
  shows "\<exists>t'. set_root (trie_delete (trie_fuel (keybytesToHex k)) db (cachegen t) (root t) [] (keybytesToHex k)) t =
    Inr (None, t') \<and> trie_rep K db t' (m(k := None)) \<and> cachegen t' = cachegen t \<and> cachelimit t' = cachelimit t"
proof -
  obtain a where "rep_by K db t m a" using assms(1) unfolding trie_rep_def by blast
  note a = rep_byD [OF this]
  have "del_ok K db True a (keybytesToHex k)
      (trie_delete (trie_fuel (keybytesToHex k)) db (cachegen t) (root t) [] (keybytesToHex k))"
    by (rule delete_ok [OF a(1) sub_ok_root [OF a(2)]]) (simp add: trie_fuel_def)
  then show ?thesis by (rule del_okE) (rule trie_rep_change [OF _ _ _ _ a(3,4)])
qed

lemma trie_rep_TryDelete:
  assumes "trie_rep K db t m"
  shows "\<exists>t'. TryDelete db k t = Inr (None, t') \<and> trie_rep K db t' (m(k := None)) \<and> cachegen t' = cachegen t \<and> cachelimit t' = cachelimit t"
  using trie_rep_delete [OF assms] by (simp add: TryDelete_def Let_def)

lemma trie_rep_TryUpdate:
  assumes "trie_rep K db t m"
  shows "\<exists>t'. TryUpdate db k v t = Inr (None, t') \<and> trie_rep K db t' (m(k := if v = [] then None else Some v)) \<and>
    cachegen t' = cachegen t \<and> cachelimit t' = cachelimit t"
  using trie_rep_delete [OF assms] trie_rep_insert [OF assms] by (simp add: TryUpdate_def Let_def)

text \<open>Tries with the same content are the same, however they were built.\<close>

lemma trie_rep_unique:
  assumes "trie_rep K db t m" "trie_rep K db' u m"
  obtains a where "trie_of K db True (root t) a" "trie_of K db' True (root u) a" "mpt_ok a"
proof -
  obtain a b where ab: "rep_by K db t m a" "rep_by K db' u m b" using assms unfolding trie_rep_def by blast
  note a = rep_byD [OF ab(1)] and b = rep_byD [OF ab(2)]
  have e: "mget a k = mget b k" for k
  proof (cases "k \<in> range keybytesToHex")
    case True
    then show ?thesis using a(3) b(3) by auto
  next
    case False
    then show ?thesis using a(4) b(4) by (cases "mget a k"; cases "mget b k") auto
  qed
  then have m: "mget a = mget b" by blast
  have "a = b"
  proof (cases "a = MNil \<or> b = MNil")
    case True
    then show ?thesis using a(2) b(2) m some_not_MNil by metis
  next
    case False
    then show ?thesis using canon_unique a(2) b(2) m by blast
  qed
  then show ?thesis using a(1,2) b(1) that by blast
qed

section \<open>Sequences of operations\<close>

text \<open>The interface of a store of byte strings, and a run of operations on it.\<close>

datatype map_op = OpGet bytes | OpUpdate bytes bytes | OpDelete bytes

text \<open>The results of a run on a map: what every lookup returns, and the map at the end.\<close>

fun map_run :: "map_op list \<Rightarrow> (bytes \<Rightarrow> bytes option) \<Rightarrow> bytes list \<times> (bytes \<Rightarrow> bytes option)" where
  "map_run [] m = ([], m)"
| "map_run (OpGet k # ops) m =
    (case map_run ops m of (rs, m1) \<Rightarrow> ((case m k of None \<Rightarrow> [] | Some v \<Rightarrow> v) # rs, m1))"
| "map_run (OpUpdate k v # ops) m = map_run ops (m(k := if v = [] then None else Some v))"
| "map_run (OpDelete k # ops) m = map_run ops (m(k := None))"

text \<open>The same run with the operations of a store; the first error ends it.\<close>

fun store_run :: "(bytes \<Rightarrow> 't \<Rightarrow> (bytes \<times> 'e option \<times> 't) exec) \<Rightarrow> (bytes \<Rightarrow> bytes \<Rightarrow> 't \<Rightarrow> ('e option \<times> 't) exec) \<Rightarrow>
    (bytes \<Rightarrow> 't \<Rightarrow> ('e option \<times> 't) exec) \<Rightarrow> map_op list \<Rightarrow> 't \<Rightarrow> (bytes list \<times> 'e option \<times> 't) exec" where
  "store_run get upd del [] t = Inr ([], None, t)"
| "store_run get upd del (OpGet k # ops) t =
    bind_exec (get k t) (\<lambda>(v, err, t1).
      if err \<noteq> None then Inr ([], err, t1)
      else bind_exec (store_run get upd del ops t1) (\<lambda>(rs, err, t2). Inr (v # rs, err, t2)))"
| "store_run get upd del (OpUpdate k v # ops) t =
    bind_exec (upd k v t) (\<lambda>(err, t1). if err \<noteq> None then Inr ([], err, t1) else store_run get upd del ops t1)"
| "store_run get upd del (OpDelete k # ops) t =
    bind_exec (del k t) (\<lambda>(err, t1). if err \<noteq> None then Inr ([], err, t1) else store_run get upd del ops t1)"

locale byte_store =
  fixes get :: "bytes \<Rightarrow> 't \<Rightarrow> (bytes \<times> 'e option \<times> 't) exec"
    and upd :: "bytes \<Rightarrow> bytes \<Rightarrow> 't \<Rightarrow> ('e option \<times> 't) exec"
    and del :: "bytes \<Rightarrow> 't \<Rightarrow> ('e option \<times> 't) exec"
    and rep :: "'t \<Rightarrow> (bytes \<Rightarrow> bytes option) \<Rightarrow> bool"
  assumes get_law: "rep t m \<Longrightarrow> \<exists>t'. get k t = Inr (case m k of None \<Rightarrow> [] | Some v \<Rightarrow> v, None, t') \<and> rep t' m"
    and upd_law: "rep t m \<Longrightarrow> \<exists>t'. upd k v t = Inr (None, t') \<and> rep t' (m(k := if v = [] then None else Some v))"
    and del_law: "rep t m \<Longrightarrow> \<exists>t'. del k t = Inr (None, t') \<and> rep t' (m(k := None))"
begin

lemma run_refines:
  "rep t m \<Longrightarrow> \<exists>t'. store_run get upd del ops t = Inr (fst (map_run ops m), None, t') \<and> rep t' (snd (map_run ops m))"
proof (induction ops m arbitrary: t rule: map_run.induct)
  case (2 k ops m)
  obtain t1 where t1: "get k t = Inr (case m k of None \<Rightarrow> [] | Some v \<Rightarrow> v, None, t1)" "rep t1 m" using get_law "2.prems" by blast
  then show ?case using "2.IH" [OF t1(2)] by (auto split: prod.splits)
next
  case (3 k v ops m)
  obtain t1 where t1: "upd k v t = Inr (None, t1)" "rep t1 (m(k := if v = [] then None else Some v))"
    using upd_law "3.prems" by blast
  have run: "store_run get upd del (OpUpdate k v # ops) t = store_run get upd del ops t1" by (simp add: t1(1))
  show ?case unfolding run map_run.simps by (rule "3.IH" [OF t1(2)])
next
  case (4 k ops m)
  obtain t1 where t1: "del k t = Inr (None, t1)" "rep t1 (m(k := None))" using del_law "4.prems" by blast
  have run: "store_run get upd del (OpDelete k # ops) t = store_run get upd del ops t1" by (simp add: t1(1))
  show ?case unfolding run map_run.simps by (rule "4.IH" [OF t1(2)])
qed simp

end

interpretation trie_store: byte_store "TryGet db" "TryUpdate db" "TryDelete db" "trie_rep K db" for db K
proof
  fix t m k v
  assume r: "trie_rep K db t m"
  show "\<exists>t'. TryGet db k t = Inr (case m k of None \<Rightarrow> [] | Some v \<Rightarrow> v, None, t') \<and> trie_rep K db t' m"
    using trie_rep_TryGet [OF r] by blast
  show "\<exists>t'. TryUpdate db k v t = Inr (None, t') \<and> trie_rep K db t' (m(k := if v = [] then None else Some v))"
    using trie_rep_TryUpdate [OF r] by blast
  show "\<exists>t'. TryDelete db k t = Inr (None, t') \<and> trie_rep K db t' (m(k := None))"
    using trie_rep_TryDelete [OF r] by blast
qed

lemma empty_trie_rep: "trie_rep K db \<lparr> root = NilNode, cachegen = g, cachelimit = l \<rparr> Map.empty"
  by (rule trie_repI [where a = MNil]) auto

end
