(* ===== verification/Trie_Hash.thy ===== *)
theory Trie_Hash
  imports Trie_Map
begin

text \<open>
  Hashing and committing a trie (\<open>trie/hasher.go\<close>, the end of \<open>trie/trie.go\<close>) and the form in which nodes are kept in
  the memory database (\<open>trie/database.go\<close>).
\<close>

section \<open>Collapsed nodes in the database\<close>

datatype raw_node =
    RawNil
  | RawNode bytes
  | RawFull "raw_node list"
  | RawShort bytes raw_node
  | RawHash bytes
  | RawValue bytes

text \<open>\<open>simplifyNode\<close> drops the flags; a missing node is only accepted as a child of a full node.\<close>

fun simplifyNode :: "node \<Rightarrow> raw_node exec"
  and simplify_children :: "node list \<Rightarrow> raw_node list exec" where
  "simplifyNode (ShortNode k c fl) = bind_exec (simplifyNode c) (\<lambda>c. Inr (RawShort k c))"
| "simplifyNode (FullNode cs fl) = bind_exec (simplify_children cs) (\<lambda>cs. Inr (RawFull cs))"
| "simplifyNode (ValueNode v) = Inr (RawValue v)"
| "simplifyNode (HashNode h) = Inr (RawHash h)"
| "simplifyNode NilNode = Inl GoPanic"
| "simplify_children [] = Inr []"
| "simplify_children (c # cs) =
    bind_exec (if c \<noteq> NilNode then simplifyNode c else Inr RawNil) (\<lambda>c.
      bind_exec (simplify_children cs) (\<lambda>cs. Inr (c # cs)))"

fun expandNode :: "bytes option \<Rightarrow> raw_node \<Rightarrow> uint16 \<Rightarrow> node exec"
  and expand_children :: "raw_node list \<Rightarrow> uint16 \<Rightarrow> node list exec" where
  "expandNode hash (RawShort k c) g =
    bind_exec (compactToHex k) (\<lambda>key.
      bind_exec (expandNode None c g) (\<lambda>v.
        Inr (ShortNode key v \<lparr> nf_hash = hash, nf_gen = g, nf_dirty = False \<rparr>)))"
| "expandNode hash (RawFull cs) g =
    bind_exec (expand_children cs g) (\<lambda>cs.
      Inr (FullNode cs \<lparr> nf_hash = hash, nf_gen = g, nf_dirty = False \<rparr>))"
| "expandNode hash (RawValue v) g = Inr (ValueNode v)"
| "expandNode hash (RawHash h) g = Inr (HashNode h)"
| "expandNode hash (RawNode b) g = Inl GoPanic"
| "expandNode hash RawNil g = Inl GoPanic"
| "expand_children [] g = Inr []"
| "expand_children (c # cs) g =
    bind_exec (if c \<noteq> RawNil then expandNode None c g else Inr NilNode) (\<lambda>c.
      bind_exec (expand_children cs g) (\<lambda>cs. Inr (c # cs)))"

text \<open>What the encoder writes for a raw node, with a missing child as above.\<close>

fun raw_value :: "raw_node \<Rightarrow> rlp_value" where
  "raw_value RawNil = VBytes []"
| "raw_value (RawNode b) = VBytes b"
| "raw_value (RawFull cs) = VList (map raw_value cs)"
| "raw_value (RawShort k c) = VList [VBytes k, if c = RawNil then VList [] else raw_value c]"
| "raw_value (RawHash h) = VBytes h"
| "raw_value (RawValue v) = VBytes v"

section \<open>The hasher\<close>

text \<open>
  The writes of a commit, in order: nodes inserted into the database, and the calls of the leaf callback.
  Hashing does not read the database, so the writes are collected and applied afterwards.
\<close>

datatype store_event = InsertNode hash bytes node | OnLeaf bytes hash

record hasher =
  h_sha :: "bytes \<Rightarrow> hash"
  h_cachegen :: uint16
  h_cachelimit :: uint16
  h_onleaf :: bool

definition makeHashNode :: "hasher \<Rightarrow> bytes \<Rightarrow> bytes" where
  "makeHashNode h data = Hash_Bytes (h_sha h data)"

text \<open>The early returns of \<open>hash\<close>, with the node to be kept; \<open>commit\<close> says that a database is given.\<close>

definition cached_hash :: "hasher \<Rightarrow> bool \<Rightarrow> node \<Rightarrow> (node \<times> node) option" where
  "cached_hash h commit n =
    (case node_cache n of
       (Some hash, dirty) \<Rightarrow>
         if \<not> commit then Some (HashNode hash, n)
         else if canUnload n (h_cachegen h) (h_cachelimit h) then Some (HashNode hash, HashNode hash)
         else if \<not> dirty then Some (HashNode hash, n)
         else None
     | (None, _) \<Rightarrow> None)"

fun leaf_events :: "hash \<Rightarrow> node \<Rightarrow> store_event list" where
  "leaf_events hash (ShortNode k (ValueNode v) fl) = [OnLeaf v hash]"
| "leaf_events hash (FullNode cs fl) =
    concat (map (\<lambda>c. case c of ValueNode v \<Rightarrow> [OnLeaf v hash] | _ \<Rightarrow> []) (take 16 cs))"
| "leaf_events hash _ = []"

definition hasher_store :: "hasher \<Rightarrow> bool \<Rightarrow> node \<Rightarrow> bool \<Rightarrow> (node \<times> store_event list) exec" where
  "hasher_store h commit n force =
    (if n = NilNode \<or> (\<exists>x. n = HashNode x) then Inr (n, [])
     else case Encode (node_value n) of
       Inl e \<Rightarrow> Inl GoPanic
     | Inr tmp \<Rightarrow>
         if length tmp < 32 \<and> \<not> force then Inr (n, [])
         else
           (let hash = (case fst (node_cache n) of Some x \<Rightarrow> x | None \<Rightarrow> makeHashNode h tmp) in
            Inr (HashNode hash,
              if commit then
                InsertNode (BytesToHash hash) tmp n # (if h_onleaf h then leaf_events (BytesToHash hash) n else [])
              else [])))"

text \<open>The hash is kept in the flags, and a commit clears the dirty flag.\<close>

definition hash_flag :: "bool \<Rightarrow> node \<Rightarrow> nodeFlag \<Rightarrow> nodeFlag" where
  "hash_flag commit hashed fl =
    fl\<lparr> nf_hash := (case hashed of HashNode x \<Rightarrow> Some x | _ \<Rightarrow> None), nf_dirty := (if commit then False else nf_dirty fl) \<rparr>"

fun keep_hash :: "bool \<Rightarrow> node \<Rightarrow> node \<Rightarrow> node" where
  "keep_hash commit hashed (ShortNode k c fl) = ShortNode k c (hash_flag commit hashed fl)"
| "keep_hash commit hashed (FullNode cs fl) = FullNode cs (hash_flag commit hashed fl)"
| "keep_hash commit hashed n = n"

text \<open>
  \<open>hash\<close>, \<open>hashChildren\<close> and its loop over the children of a full node, from the \<open>i\<close>-th on.
\<close>

function (sequential) hash_node :: "hasher \<Rightarrow> bool \<Rightarrow> node \<Rightarrow> bool \<Rightarrow> (node \<times> node \<times> store_event list) exec"
  and hashChildren :: "hasher \<Rightarrow> bool \<Rightarrow> node \<Rightarrow> (node \<times> node \<times> store_event list) exec"
  and hash_list :: "hasher \<Rightarrow> bool \<Rightarrow> nat \<Rightarrow> node list \<Rightarrow> (node list \<times> node list \<times> store_event list) exec" where
  "hash_node h commit n force =
    (if n = NilNode then Inl GoPanic
     else case cached_hash h commit n of
       Some (hashed, cached) \<Rightarrow> Inr (hashed, cached, [])
     | None \<Rightarrow>
         bind_exec (hashChildren h commit n) (\<lambda>(collapsed, cached, ev).
         bind_exec (hasher_store h commit collapsed force) (\<lambda>(hashed, ev1).
           Inr (hashed, keep_hash commit hashed cached, ev @ ev1))))"
| "hashChildren h commit (ShortNode k c fl) =
    bind_exec (hexToCompact k) (\<lambda>ck.
      if \<exists>v. c = ValueNode v then Inr (ShortNode ck c fl, ShortNode k c fl, [])
      else bind_exec (hash_node h commit c False) (\<lambda>(hashed, cached, ev).
        Inr (ShortNode ck hashed fl, ShortNode k cached fl, ev)))"
| "hashChildren h commit (FullNode cs fl) =
    bind_exec (hash_list h commit 0 cs) (\<lambda>(hs, cds, ev). Inr (FullNode hs fl, FullNode cds fl, ev))"
| "hashChildren h commit n = Inr (n, n, [])"
| "hash_list h commit i [] = Inr ([], [], [])"
| "hash_list h commit i (c # cs) =
    bind_exec (if i < 16 \<and> c \<noteq> NilNode then hash_node h commit c False else Inr (c, c, [])) (\<lambda>(hashed, cached, ev).
      bind_exec (hash_list h commit (i + 1) cs) (\<lambda>(hs, cds, evs). Inr (hashed # hs, cached # cds, ev @ evs)))"
  by pat_completeness auto

termination
  by (relation "measure (\<lambda>x. case x of
      Inl (h, commit, n, force) \<Rightarrow> 3 * size n + 2
    | Inr (Inl (h, commit, n)) \<Rightarrow> 3 * size n + 1
    | Inr (Inr (h, commit, i, cs)) \<Rightarrow> 3 * size_list size cs + 1)") auto

declare hash_node.simps [simp del]

definition hashRoot :: "(bytes \<Rightarrow> hash) \<Rightarrow> bool \<Rightarrow> bool \<Rightarrow> Trie \<Rightarrow> (node \<times> node \<times> store_event list) exec" where
  "hashRoot sha commit onleaf t =
    (if root t = NilNode then Inr (HashNode (Hash_Bytes emptyRoot), NilNode, [])
     else hash_node \<lparr> h_sha = sha, h_cachegen = cachegen t, h_cachelimit = cachelimit t, h_onleaf = onleaf \<rparr>
       commit (root t) True)"

definition trie_Hash :: "(bytes \<Rightarrow> hash) \<Rightarrow> Trie \<Rightarrow> (hash \<times> Trie) exec" where
  "trie_Hash sha t =
    bind_exec (hashRoot sha False False t) (\<lambda>(hashed, cached, _).
      case hashed of
        HashNode h \<Rightarrow> Inr (BytesToHash h, t\<lparr> root := cached \<rparr>)
      | _ \<Rightarrow> Inl GoPanic)"

definition trie_Commit :: "(bytes \<Rightarrow> hash) \<Rightarrow> bool \<Rightarrow> Trie \<Rightarrow> (hash \<times> store_event list \<times> Trie) exec" where
  "trie_Commit sha onleaf t =
    bind_exec (hashRoot sha True onleaf t) (\<lambda>(hashed, cached, ev).
      case hashed of
        HashNode h \<Rightarrow> Inr (BytesToHash h, ev, t\<lparr> root := cached, cachegen := cachegen t + 1 \<rparr>)
      | _ \<Rightarrow> Inl GoPanic)"

section \<open>Collapsed and loaded nodes\<close>

fun raw_of :: "(bytes \<Rightarrow> hash) \<Rightarrow> mpt \<Rightarrow> raw_node" where
  "raw_of K MNil = RawNil"
| "raw_of K (MVal v) = RawValue v"
| "raw_of K (MExt k t) =
    RawShort (compact_key k) (if hashed_child K t then RawHash (Hash_Bytes (K (node_enc K t))) else raw_of K t)"
| "raw_of K (MBranch ts) =
    RawFull (map (\<lambda>t. if hashed_child K t then RawHash (Hash_Bytes (K (node_enc K t))) else raw_of K t) ts)"

text \<open>The children of the collapsed form of a trie.\<close>

definition raw_ref :: "(bytes \<Rightarrow> hash) \<Rightarrow> mpt \<Rightarrow> raw_node" where
  "raw_ref K t = (if hashed_child K t then RawHash (Hash_Bytes (K (node_enc K t))) else raw_of K t)"

lemma raw_of_refs:
  "raw_of K (MExt k t) = RawShort (compact_key k) (raw_ref K t)" "raw_of K (MBranch ts) = RawFull (map (raw_ref K) ts)"
  by (simp_all add: raw_ref_def)

lemma simplify_value:
  "simplifyNode n = Inr r \<Longrightarrow> node_value n = raw_value r"
  "simplify_children cs = Inr rs \<Longrightarrow> map node_value cs = map raw_value rs"
proof (induction n and cs arbitrary: r and rs rule: simplifyNode_simplify_children.induct)
  case (1 k c fl)
  then obtain c' where c: "simplifyNode c = Inr c'" "r = RawShort k c'" by (auto simp: bind_exec_Inr)
  then have "c \<noteq> NilNode" "c' \<noteq> RawNil" by (cases c; auto simp: bind_exec_Inr)+
  then show ?case using 1 c by simp
qed (auto simp: bind_exec_Inr split: if_splits)

lemma raw_of_encodable: "encodable (raw_value (raw_of K t))"
  by (induction t) auto

lemma child_item_eq: "child_item K t (node_item K t) =
    (if hashed_child K t then Str (Hash_Bytes (K (node_enc K t))) else node_item K t)"
  by (auto simp: child_item_def hashed_child_def node_enc_def is_node_def)

lemma raw_of_Nil: "raw_of K t = RawNil \<longleftrightarrow> t = MNil"
  by (cases t) auto

lemma raw_of_item: "t = MNil \<or> is_value t \<or> canon t \<Longrightarrow> item_of (raw_value (raw_of K t)) = node_item K t"
proof (induction t)
  case (MExt k t)
  then have "canon (MExt k t)" by auto
  then have "is_value t \<or> canon t" "t \<noteq> MNil" by auto
  then show ?case using MExt.IH by (auto simp: child_item_eq raw_of_Nil)
next
  case (MBranch ts)
  then have "canon (MBranch ts)" by auto
  then have "t = MNil \<or> is_value t \<or> canon t" if "t \<in> set ts" for t using canon_children(2) that by blast
  then show ?case using MBranch.IH by (auto simp: child_item_eq)
qed auto

lemma compact_key_roundtrip: "nibbles k \<or> hexkey k \<Longrightarrow> hexToCompact k = Inr (compact_key k) \<and> compactToHex (compact_key k) = Inr k"
  by (metis compact_roundtrip compact_key_def sum.simps(6))

lemma canon_key: "canon (MExt k t) \<Longrightarrow> nibbles k \<or> hexkey k"
  by auto

lemma raw_ref_Nil: "raw_ref K t = RawNil \<longleftrightarrow> t = MNil"
  by (cases t) (auto simp: raw_ref_def hashed_child_def is_node_def)

lemma expand_children_map:
  assumes "\<And>t. t \<in> set ts \<Longrightarrow> t \<noteq> MNil \<Longrightarrow> expandNode None (raw_ref K t) g = Inr (f t)" "f MNil = NilNode"
  shows "expand_children (map (raw_ref K) ts) g = Inr (map f ts)"
  using assms by (induction ts) (auto simp: raw_ref_Nil)

text \<open>Expanding a collapsed node gives the node that is loaded.\<close>

lemma expand_raw_of:
  assumes "is_value t \<or> canon t"
  shows "expandNode h (raw_of K t) g = Inr (load_node K g h t)"
  using assms
proof (induction t arbitrary: h)
  case (MExt k t)
  have "expandNode None (raw_of K t) g = Inr (load_node K g None t)" using MExt.IH canon_children(1) [of k t] MExt.prems by auto
  then show ?case using compact_key_roundtrip [OF canon_key [of k t]] MExt.prems by auto
next
  case (MBranch ts)
  have "expand_children (map (raw_ref K) ts) g =
      Inr (map (\<lambda>t. if hashed_child K t then HashNode (Hash_Bytes (K (node_enc K t))) else load_node K g None t) ts)"
  proof (rule expand_children_map)
    fix t
    assume t: "t \<in> set ts" "t \<noteq> MNil"
    then show "expandNode None (raw_ref K t) g =
        Inr (if hashed_child K t then HashNode (Hash_Bytes (K (node_enc K t))) else load_node K g None t)"
      using MBranch.IH [OF t(1)] canon_children(2) [of ts t] MBranch.prems by (auto simp: raw_ref_def)
  qed (simp add: hashed_child_def is_node_def)
  then show ?case by (simp add: raw_of_refs del: raw_of.simps)
qed auto

section \<open>Hashing a represented trie\<close>

text \<open>The encodings of all nodes can be written.\<close>

fun fits :: "(bytes \<Rightarrow> hash) \<Rightarrow> mpt \<Rightarrow> bool" where
  "fits K (MExt k t) \<longleftrightarrow> length (node_enc K (MExt k t)) < 2 ^ 64 \<and> fits K t"
| "fits K (MBranch ts) \<longleftrightarrow> length (node_enc K (MBranch ts)) < 2 ^ 64 \<and> (\<forall>t \<in> set ts. fits K t)"
| "fits K t \<longleftrightarrow> True"

text \<open>A database after the writes of a commit.\<close>

definition absorbs :: "(bytes \<Rightarrow> hash) \<Rightarrow> node_db \<Rightarrow> store_event list \<Rightarrow> node_db \<Rightarrow> bool" where
  "absorbs K db evs db' \<longleftrightarrow> (\<forall>u. has_entry K db u \<longrightarrow> has_entry K db' u) \<and>
    (\<forall>x blob c r. InsertNode x blob c \<in> set evs \<longrightarrow> simplifyNode c = Inr r \<longrightarrow>
      (\<forall>g n. expandNode (Some (Hash_Bytes x)) r g = Inr n \<longrightarrow> db' x g = Some n))"

definition hashed_as :: "(bytes \<Rightarrow> hash) \<Rightarrow> mpt \<Rightarrow> bool \<Rightarrow> node \<Rightarrow> bool" where
  "hashed_as K t force hn \<longleftrightarrow>
    (if force \<or> hashed_child K t then hn = HashNode (Hash_Bytes (K (node_enc K t))) else simplifyNode hn = Inr (raw_of K t))"

text \<open>The result of \<open>hash\<close> on a node that stands for \<open>t\<close>, and that of \<open>hashChildren\<close>.\<close>

definition hash_done :: "hasher \<Rightarrow> bool \<Rightarrow> node_db \<Rightarrow> bool \<Rightarrow> mpt \<Rightarrow> (node \<times> node \<times> store_event list) exec \<Rightarrow> bool" where
  "hash_done h commit db r t res \<longleftrightarrow> (\<exists>hn cd evs. res = Inr (hn, cd, evs) \<and> hashed_as (h_sha h) t r hn \<and>
    (commit \<or> evs = []) \<and>
    (\<forall>db'. absorbs (h_sha h) db evs db' \<longrightarrow> trie_of (h_sha h) db' r cd t \<and>
      (commit \<longrightarrow> below_stored (h_sha h) db' t \<and> (r \<or> hashed_child (h_sha h) t \<longrightarrow> has_entry (h_sha h) db' t))))"

definition children_done :: "hasher \<Rightarrow> bool \<Rightarrow> node_db \<Rightarrow> nodeFlag \<Rightarrow> mpt \<Rightarrow> (node \<times> node \<times> store_event list) exec \<Rightarrow> bool" where
  "children_done h commit db fl t res \<longleftrightarrow> (\<exists>cl cd evs. res = Inr (cl, cd, evs) \<and>
    simplifyNode cl = Inr (raw_of (h_sha h) t) \<and> fst (node_cache cl) = nf_hash fl \<and> (commit \<or> evs = []) \<and>
    (\<forall>db'. absorbs (h_sha h) db evs db' \<longrightarrow>
      (\<forall>r hn. flag_ok (h_sha h) db' r (hash_flag commit hn fl) t \<longrightarrow> trie_of (h_sha h) db' r (keep_hash commit hn cd) t) \<and>
      (commit \<longrightarrow> below_stored (h_sha h) db' t)))"

lemma below_stored_mono:
  assumes "\<And>u. has_entry K db u \<Longrightarrow> has_entry K db' u"
  shows "below_stored K db t \<Longrightarrow> below_stored K db' t"
  using assms by (induction t) auto

lemma absorbs_stored: "absorbs K db evs db' \<Longrightarrow> stored K db t \<Longrightarrow> stored K db' t"
  using below_stored_mono by (auto simp: stored_def absorbs_def)

lemma absorbs_flag: "absorbs K db evs db' \<Longrightarrow> flag_ok K db r fl t \<Longrightarrow> flag_ok K db' r fl t"
  using absorbs_stored by (auto simp: flag_ok_def split: option.splits)

lemma absorbs_trie_of: "trie_of K db r n t \<Longrightarrow> absorbs K db evs db' \<Longrightarrow> trie_of K db' r n t"
proof (induction rule: trie_of.induct)
  case (trie_full cs ts r fl)
  then show ?case using absorbs_flag by (auto elim!: list.rel_mono_strong)
qed (auto simp: trie_of_HashNode absorbs_stored dest: absorbs_flag)

lemma absorbs_append: "absorbs K db (e1 @ e2) db' \<Longrightarrow> absorbs K db e1 db' \<and> absorbs K db e2 db'"
  by (auto simp: absorbs_def)

lemma absorbs_Nil: "absorbs K db [] db"
  by (simp add: absorbs_def)

lemma fits_length: "canon t \<Longrightarrow> fits K t \<Longrightarrow> length (node_enc K t) < 2 ^ 64"
  by (cases t) auto

lemma collapsed_encode:
  assumes "simplifyNode c = Inr (raw_of K t)" "canon t" "fits K t"
  shows "Encode (node_value c) = Inr (node_enc K t)" "c \<noteq> NilNode" "\<nexists>x. c = HashNode x"
proof -
  show "c \<noteq> NilNode" using assms(1) by auto
  show "\<nexists>x. c = HashNode x" using assms(1,2) by (cases t) auto
  show "Encode (node_value c) = Inr (node_enc K t)"
    unfolding simplify_value(1) [OF assms(1)]
    using encbuf_output [of "raw_value (raw_of K t)"] raw_of_encodable fits_length [OF assms(2,3)]
    by (simp add: raw_of_item assms(2) node_enc_def)
qed

lemma hash_doneI:
  assumes "res = Inr (hn, cd, evs)" "commit \<or> evs = []" "hashed_as (h_sha h) t r hn"
    "\<And>db'. absorbs (h_sha h) db evs db' \<Longrightarrow> trie_of (h_sha h) db' r cd t"
    "\<And>db'. absorbs (h_sha h) db evs db' \<Longrightarrow> commit \<Longrightarrow> below_stored (h_sha h) db' t"
    "\<And>db'. absorbs (h_sha h) db evs db' \<Longrightarrow> commit \<Longrightarrow> has_entry (h_sha h) db' t"
  shows "hash_done h commit db r t res"
  using assms unfolding hash_done_def by blast

lemma hash_of_children:
  assumes t: "canon t" "fits (h_sha h) t" and fl: "flag_ok (h_sha h) db r fl t"
    and n: "trie_of (h_sha h) db r n t" "node_cache n = (nf_hash fl, nf_dirty fl)" "n \<noteq> NilNode"
    "canUnload n (h_cachegen h) (h_cachelimit h) \<Longrightarrow> \<not> nf_dirty fl"
    and ch: "children_done h commit db fl t (hashChildren h commit n)"
  shows "hash_done h commit db r t (hash_node h commit n r)"
proof (cases "cached_hash h commit n")
  case (Some p)
  obtain b where b: "nf_hash fl = Some b" "fst p = HashNode b" "snd p = n \<or> snd p = HashNode b"
      "commit \<Longrightarrow> \<not> nf_dirty fl" "snd p \<noteq> n \<Longrightarrow> \<not> nf_dirty fl"
    using Some n(2,4) by (auto simp: cached_hash_def split: option.splits if_splits)
  have h: "hash_ok (h_sha h) r b t" using fl b(1) by (simp add: flag_ok_def)
  have st: "stored (h_sha h) db t" if "\<not> nf_dirty fl" using fl b(1) that by (simp add: flag_ok_def)
  have as: "hashed_as (h_sha h) t r (HashNode b)"
    using h canon_is_node [OF t(1)] by (auto simp: hashed_as_def hash_ok_def hashed_child_def)
  have "trie_of (h_sha h) db r (snd p) t" using b(3,5) st h n(1) t(1) trie_of_HashNode by metis
  then have "trie_of (h_sha h) db' r (snd p) t \<and> (commit \<longrightarrow> stored (h_sha h) db' t)" if "absorbs (h_sha h) db [] db'" for db'
    using absorbs_trie_of absorbs_stored st b(4) that by blast
  then show ?thesis using as b(2) Some n(3)
    by (cases p) (auto simp: hash_done_def hash_node.simps stored_def)
next
  case None
  obtain cl cd evs where r: "hashChildren h commit n = Inr (cl, cd, evs)" "simplifyNode cl = Inr (raw_of (h_sha h) t)"
      "fst (node_cache cl) = nf_hash fl" "commit \<or> evs = []"
    and ok: "\<And>db' r hn. absorbs (h_sha h) db evs db' \<Longrightarrow> flag_ok (h_sha h) db' r (hash_flag commit hn fl) t \<Longrightarrow>
        trie_of (h_sha h) db' r (keep_hash commit hn cd) t"
      "\<And>db'. absorbs (h_sha h) db evs db' \<Longrightarrow> commit \<Longrightarrow> below_stored (h_sha h) db' t"
    using ch unfolding children_done_def by blast
  note e = collapsed_encode [OF r(2) t]
  let ?H = "Hash_Bytes (h_sha h (node_enc (h_sha h) t))"
  have hc: "(case fst (node_cache cl) of Some x \<Rightarrow> x | None \<Rightarrow> makeHashNode h (node_enc (h_sha h) t)) = ?H"
    using fl by (auto simp: r(3) flag_ok_def hash_ok_def makeHashNode_def split: option.splits)
  have emb: "hashed_child (h_sha h) t \<longleftrightarrow> \<not> length (node_enc (h_sha h) t) < 32"
    using canon_is_node [OF t(1)] by (auto simp: hashed_child_def)
  show ?thesis
  proof (cases "r \<or> hashed_child (h_sha h) t")
    case False
    then have s: "hasher_store h commit cl r = Inr (cl, [])" using e emb by (simp add: hasher_store_def)
    have "\<And>db'. flag_ok (h_sha h) db' r (hash_flag commit cl fl) t"
      using e(3) False emb by (auto simp: flag_ok_def hash_flag_def split: node.splits)
    then show ?thesis using False s r ok None n(3)
      by (auto simp: hash_done_def hash_node.simps hashed_as_def)
  next
    case True
    define ev1 where "ev1 = (if commit then InsertNode (BytesToHash ?H) (node_enc (h_sha h) t) cl #
        (if h_onleaf h then leaf_events (BytesToHash ?H) cl else []) else [])"
    have s: "hasher_store h commit cl r = Inr (HashNode ?H, ev1)"
      using True e(1) e(2) e(3) emb hc by (auto simp: hasher_store_def ev1_def Let_def)
    have en: "has_entry (h_sha h) db' t" if "absorbs (h_sha h) db ev1 db'" commit for db'
      using that r(2) expand_raw_of [of t "Some ?H" "h_sha h"] t(1)
      by (auto simp: has_entry_def absorbs_def ev1_def BytesToHash_Bytes)
    have f: "flag_ok (h_sha h) db' r (hash_flag commit (HashNode ?H) fl) t"
      if absorbs: "absorbs (h_sha h) db evs db'" "absorbs (h_sha h) db ev1 db'" for db'
    proof -
      have "stored (h_sha h) db' t" if "\<not> nf_dirty (hash_flag commit (HashNode ?H) fl)"
      proof (cases commit)
        case False
        then have "\<not> nf_dirty fl" using that by (simp add: hash_flag_def)
        then have "stored (h_sha h) db t" using fl True emb by (auto simp: flag_ok_def split: option.splits)
        then show ?thesis using absorbs_stored absorbs by blast
      qed (use en ok(2) absorbs in \<open>simp add: stored_def\<close>)
      moreover have "hash_ok (h_sha h) r ?H t" using True emb by (auto simp: hash_ok_def)
      moreover have "nf_hash (hash_flag commit (HashNode ?H) fl) = Some ?H" by (simp add: hash_flag_def)
      ultimately show ?thesis unfolding flag_ok_def by auto
    qed
    have "hash_node h commit n r = Inr (HashNode ?H, keep_hash commit (HashNode ?H) cd, evs @ ev1)"
      using r(1) s None n(3) by (simp add: hash_node.simps)
    moreover have "commit \<or> evs @ ev1 = []" using r(4) by (auto simp: ev1_def)
    moreover have "hashed_as (h_sha h) t r (HashNode ?H)" using True by (simp add: hashed_as_def)
    ultimately show ?thesis by (rule hash_doneI) (use ok f en absorbs_append in blast)+
  qed
qed

text \<open>The children of a short and of a full node.\<close>

definition ref_done :: "hasher \<Rightarrow> bool \<Rightarrow> node_db \<Rightarrow> mpt \<Rightarrow> node \<times> node \<times> store_event list \<Rightarrow> bool" where
  "ref_done h commit db t res \<longleftrightarrow> (case res of (hn, cd, evs) \<Rightarrow>
    (if t = MNil then hn = NilNode else simplifyNode hn = Inr (raw_ref (h_sha h) t)) \<and> (commit \<or> evs = []) \<and>
    (\<forall>db'. absorbs (h_sha h) db evs db' \<longrightarrow> trie_of (h_sha h) db' False cd t \<and>
      (commit \<longrightarrow> below_stored (h_sha h) db' t \<and> (hashed_child (h_sha h) t \<longrightarrow> has_entry (h_sha h) db' t))))"

lemma hash_done_ref:
  assumes "hash_done h commit db False t res" "canon t"
  shows "\<exists>p. res = Inr p \<and> ref_done h commit db t p"
proof -
  obtain hn cd evs where r: "res = Inr (hn, cd, evs)" "hashed_as (h_sha h) t False hn" "commit \<or> evs = []"
      "\<And>db'. absorbs (h_sha h) db evs db' \<Longrightarrow> trie_of (h_sha h) db' False cd t \<and>
        (commit \<longrightarrow> below_stored (h_sha h) db' t \<and> (hashed_child (h_sha h) t \<longrightarrow> has_entry (h_sha h) db' t))"
    using assms(1) unfolding hash_done_def by blast
  have "simplifyNode hn = Inr (raw_ref (h_sha h) t)" using r(2) by (auto simp: hashed_as_def raw_ref_def split: if_splits)
  then show ?thesis using r assms(2) by (auto simp: ref_done_def)
qed

lemma ref_done_leaf:
  assumes "t = MNil \<or> is_value t" "trie_of (h_sha h) db False n t"
  shows "ref_done h commit db t (n, n, [])"
  using assms
  by (cases t) (auto simp: ref_done_def trie_of_MNil trie_of_MVal raw_ref_def hashed_child_def is_node_def)

lemma hash_list_done:
  assumes "list_all2 (trie_of (h_sha h) db False) cs ts"
    and "\<And>j. j < length ts \<Longrightarrow> ts ! j = MNil \<or> (if i + j < 16 then canon (ts ! j) else is_value (ts ! j))"
    and "\<And>c t. c \<in> set cs \<Longrightarrow> t \<in> set ts \<Longrightarrow> canon t \<Longrightarrow> trie_of (h_sha h) db False c t \<Longrightarrow>
      hash_done h commit db False t (hash_node h commit c False)"
  shows "\<exists>hs cds evs. hash_list h commit i cs = Inr (hs, cds, evs) \<and> simplify_children hs = Inr (map (raw_ref (h_sha h)) ts) \<and>
    (commit \<or> evs = []) \<and> (\<forall>db'. absorbs (h_sha h) db evs db' \<longrightarrow> list_all2 (trie_of (h_sha h) db' False) cds ts \<and>
      (commit \<longrightarrow> (\<forall>t \<in> set ts. below_stored (h_sha h) db' t \<and> (hashed_child (h_sha h) t \<longrightarrow> has_entry (h_sha h) db' t))))"
  using assms
proof (induction cs ts arbitrary: i rule: list_all2_induct)
  case (Cons c cs t ts)
  have sub: "ts ! j = MNil \<or> (if (i + 1) + j < 16 then canon (ts ! j) else is_value (ts ! j))" if "j < length ts" for j
    using Cons.prems(1) [of "Suc j"] that by (simp split: if_splits)
  obtain hs cds evs where tl: "hash_list h commit (i + 1) cs = Inr (hs, cds, evs)"
      "simplify_children hs = Inr (map (raw_ref (h_sha h)) ts)" "commit \<or> evs = []"
      "\<And>db'. absorbs (h_sha h) db evs db' \<Longrightarrow> list_all2 (trie_of (h_sha h) db' False) cds ts \<and>
        (commit \<longrightarrow> (\<forall>t \<in> set ts. below_stored (h_sha h) db' t \<and> (hashed_child (h_sha h) t \<longrightarrow> has_entry (h_sha h) db' t)))"
    using Cons.IH [OF sub Cons.prems(2)] by auto
  let ?r = "if i < 16 \<and> c \<noteq> NilNode then hash_node h commit c False else Inr (c, c, [])"
  have "\<exists>p. ?r = Inr p \<and> ref_done h commit db t p"
  proof (cases "t = MNil \<or> \<not> i < 16")
    case True
    then have v: "t = MNil \<or> is_value t" using Cons.prems(1) [of 0] by auto
    moreover have "?r = Inr (c, c, [])" using True Cons.hyps(1) v by (auto simp: trie_of_MNil)
    ultimately show ?thesis using ref_done_leaf Cons.hyps(1) by blast
  next
    case False
    then have "canon t" using Cons.prems(1) [of 0] by auto
    then have "hash_done h commit db False t (hash_node h commit c False)" using Cons.prems(2) Cons.hyps(1) by simp
    moreover have "c \<noteq> NilNode" using Cons.hyps(1) False by auto
    ultimately show ?thesis using hash_done_ref \<open>canon t\<close> False by auto
  qed
  then obtain hn cd ev where hd: "?r = Inr (hn, cd, ev)" "ref_done h commit db t (hn, cd, ev)" by auto
  have s: "simplify_children (hn # hs) = Inr (map (raw_ref (h_sha h)) (t # ts))"
    using hd(2) tl(2) raw_ref_Nil [of "h_sha h" t] by (cases "hn = NilNode") (auto simp: ref_done_def split: if_splits)
  have "hash_list h commit i (c # cs) = Inr (hn # hs, cd # cds, ev @ evs)" using hd(1) tl(1) by simp
  moreover have "commit \<or> ev @ evs = []" using hd(2) tl(3) by (auto simp: ref_done_def)
  moreover have "list_all2 (trie_of (h_sha h) db' False) (cd # cds) (t # ts) \<and> (commit \<longrightarrow> (\<forall>t \<in> set (t # ts).
      below_stored (h_sha h) db' t \<and> (hashed_child (h_sha h) t \<longrightarrow> has_entry (h_sha h) db' t)))"
    if "absorbs (h_sha h) db (ev @ evs) db'" for db'
    using absorbs_append [OF that] tl(4) [of db'] hd(2) by (simp add: ref_done_def)
  ultimately show ?case using s by blast
qed simp

lemma hashChildren_short:
  assumes t: "canon (MExt k t)" and c: "trie_of (h_sha h) db False c t"
    and ih: "canon t \<Longrightarrow> hash_done h commit db False t (hash_node h commit c False)"
  shows "children_done h commit db fl (MExt k t) (hashChildren h commit (ShortNode k c fl))"
proof -
  let ?r = "if \<exists>v. c = ValueNode v then Inr (c, c, []) else hash_node h commit c False"
  have "\<exists>p. ?r = Inr p \<and> ref_done h commit db t p"
  proof (cases "is_value t")
    case True
    then have "\<exists>v. c = ValueNode v" using c by (cases t) (auto simp: trie_of_MVal)
    then show ?thesis using ref_done_leaf [OF _ c] True by auto
  next
    case False
    then have "canon t" using t canon_children(1) by blast
    moreover have "\<nexists>v. c = ValueNode v" using c \<open>canon t\<close> by auto
    ultimately show ?thesis using hash_done_ref ih by auto
  qed
  then obtain hn cd ev where r: "?r = Inr (hn, cd, ev)" "ref_done h commit db t (hn, cd, ev)" by auto
  have e: "hashChildren h commit (ShortNode k c fl) = Inr (ShortNode (compact_key k) hn fl, ShortNode k cd fl, ev)"
    using compact_key_roundtrip [OF canon_key [OF t]] r(1) by (auto split: if_splits)
  have "t \<noteq> MNil" using t by auto
  then have "simplifyNode (ShortNode (compact_key k) hn fl) = Inr (raw_of (h_sha h) (MExt k t))"
    using r(2) by (simp add: ref_done_def raw_of_refs del: raw_of.simps)
  then show ?thesis unfolding children_done_def e using r(2) by (auto simp: ref_done_def)
qed

lemma hashChildren_full:
  assumes t: "canon (MBranch ts)" and c: "list_all2 (trie_of (h_sha h) db False) cs ts"
    and ih: "\<And>c t. c \<in> set cs \<Longrightarrow> t \<in> set ts \<Longrightarrow> canon t \<Longrightarrow> trie_of (h_sha h) db False c t \<Longrightarrow>
      hash_done h commit db False t (hash_node h commit c False)"
  shows "children_done h commit db fl (MBranch ts) (hashChildren h commit (FullNode cs fl))"
proof -
  have sub: "ts ! j = MNil \<or> (if 0 + j < 16 then canon (ts ! j) else is_value (ts ! j))" if "j < length ts" for j
    using canon_branch_child [OF t, of j] that canon_branch_child(1) [OF t, of 0] by (auto split: if_splits)
  obtain hs cds evs where r: "hash_list h commit 0 cs = Inr (hs, cds, evs)"
      "simplify_children hs = Inr (map (raw_ref (h_sha h)) ts)" "commit \<or> evs = []"
      "\<And>db'. absorbs (h_sha h) db evs db' \<Longrightarrow> list_all2 (trie_of (h_sha h) db' False) cds ts \<and>
        (commit \<longrightarrow> (\<forall>t \<in> set ts. below_stored (h_sha h) db' t \<and> (hashed_child (h_sha h) t \<longrightarrow> has_entry (h_sha h) db' t)))"
    using hash_list_done [OF c sub ih] by auto
  have e: "hashChildren h commit (FullNode cs fl) = Inr (FullNode hs fl, FullNode cds fl, evs)" using r(1) by simp
  have "simplifyNode (FullNode hs fl) = Inr (raw_of (h_sha h) (MBranch ts))" using r(2) by (simp add: raw_of_refs del: raw_of.simps)
  then show ?thesis unfolding children_done_def e using r(3,4) by auto
qed

lemma hash_node_ok:
  assumes "trie_of (h_sha h) db r n t" "canon t" "fits (h_sha h) t"
  shows "hash_done h commit db r t (hash_node h commit n r)"
  using assms
proof (induction n arbitrary: t r)
  case (FullNode cs fl)
  then obtain ts where t: "t = MBranch ts" "list_all2 (trie_of (h_sha h) db False) cs ts" "flag_ok (h_sha h) db r fl t" by auto
  have "children_done h commit db fl t (hashChildren h commit (FullNode cs fl))" unfolding t(1)
    by (rule hashChildren_full) (use FullNode t in auto)
  then show ?case using hash_of_children [OF FullNode.prems(2,3) t(3) FullNode.prems(1)] by simp
next
  case (ShortNode k c fl)
  then obtain u where t: "t = MExt k u" "trie_of (h_sha h) db False c u" "flag_ok (h_sha h) db r fl t" by auto
  have "children_done h commit db fl t (hashChildren h commit (ShortNode k c fl))" unfolding t(1)
    by (rule hashChildren_short) (use ShortNode t in auto)
  then show ?case using hash_of_children [OF ShortNode.prems(2,3) t(3) ShortNode.prems(1)] by simp
next
  case (HashNode x)
  then have st: "hash_ok (h_sha h) r x t" "stored (h_sha h) db t" by (auto simp: trie_of_HashNode)
  have e: "hash_node h commit (HashNode x) r = Inr (HashNode x, HashNode x, [])"
    by (simp add: hash_node.simps cached_hash_def hasher_store_def)
  have "hashed_as (h_sha h) t r (HashNode x)" using st(1) canon_is_node [OF HashNode.prems(2)]
    by (auto simp: hashed_as_def hash_ok_def hashed_child_def)
  then show ?case unfolding hash_done_def e using HashNode.prems(1) absorbs_trie_of absorbs_stored st(2)
    by (auto simp: stored_def)
qed auto

end
