(* ===== verification/Trie_Root.thy ===== *)
theory Trie_Root
  imports Trie_Hash
begin

text \<open>
  The root hash of a trie: it is a function of the content (\<open>trie_Hash_ok\<close>), and without a collision of the hash
  function it determines the content (\<open>root_hash_binding\<close>).
\<close>

section \<open>Encodings fit\<close>

lemma length_enc_Str: "length (enc (Str b)) \<le> 9 + length b"
  using intsize_bounds(2) [of "word_of_nat (length b)"]
  by (auto simp: encodeString_def encodeStringHeader_def Let_def length_putint)

lemma length_enc_Lst: "length (enc (Lst xs)) \<le> 9 + sum_list (map (\<lambda>x. length (enc x)) xs)"
  using intsize_bounds(2) [of "word_of_nat (length (concat (map enc xs)))"]
  by (auto simp: puthead_def Let_def length_putint length_concat comp_def)

lemma compact_key_length:
  assumes "nibbles k \<or> hexkey k"
  shows "length (compact_key k) \<le> length k + 2"
proof -
  have "compactToHex (compact_key k) = Inr k" using compact_key_roundtrip [OF assms] by simp
  then show ?thesis
    by (auto simp: compactToHex_def Let_def length_keybytesToHex split: if_splits dest!: arg_cong [where f = length])
qed

lemma length_child:
  assumes "t = MNil \<or> is_value t \<or> canon t" "\<And>v. t = MVal v \<Longrightarrow> length v \<le> B"
  shows "length (enc (child_item K t (node_item K t))) \<le> 42 + B"
proof (cases t)
  case MNil
  then show ?thesis using length_enc_Str [of "[]"] by (simp add: child_item_def)
next
  case (MVal v)
  have "length (enc (Str v)) \<le> 9 + B" using length_enc_Str [of v] assms(2) [OF MVal] by linarith
  then show ?thesis by (simp add: child_item_def MVal)
qed (use length_enc_Str [of "Hash_Bytes (K (node_enc K t))"] in
  \<open>auto simp: child_item_eq hashed_child_def node_enc_def is_node_def not_le simp del: node_item.simps enc.simps\<close>)

lemma sum_list_le: "(\<And>x. x \<in> set xs \<Longrightarrow> f x \<le> (c :: nat)) \<Longrightarrow> sum_list (map f xs) \<le> length xs * c"
  by (induction xs) (auto simp: add_mono)

lemma mget_key_le: "mget (MExt p t) k = Some v \<Longrightarrow> length p \<le> length k"
  by (metis mget_MExt length_append le_add1)

text \<open>The encodings of a trie with moderate keys and values can be written.\<close>

definition moderate :: "mpt \<Rightarrow> bool" where
  "moderate t \<longleftrightarrow> (\<forall>k v. mget t k = Some v \<longrightarrow> length k \<le> 2 ^ 62 \<and> length v \<le> 2 ^ 58)"

lemma moderate_children:
  "moderate (MExt p t) \<Longrightarrow> moderate t"
  "moderate (MBranch ts) \<Longrightarrow> length ts \<le> 256 \<Longrightarrow> t \<in> set ts \<Longrightarrow> moderate t"
proof -
  assume m: "moderate (MExt p t)"
  show "moderate t" unfolding moderate_def
  proof (intro allI impI)
    fix k v
    assume "mget t k = Some v"
    then have "mget (MExt p t) (p @ k) = Some v" by simp
    then have "length (p @ k) \<le> 2 ^ 62 \<and> length v \<le> 2 ^ 58" using m unfolding moderate_def by blast
    then show "length k \<le> 2 ^ 62 \<and> length v \<le> 2 ^ 58" by simp
  qed
next
  assume m: "moderate (MBranch ts)" and l: "length ts \<le> 256" and "t \<in> set ts"
  then obtain i where i: "i < length ts" "t = ts ! i" by (auto simp: in_set_conv_nth)
  show "moderate t" unfolding moderate_def
  proof (intro allI impI)
    fix k v
    assume "mget t k = Some v"
    then have "mget (MBranch ts) (word_of_nat i # k) = Some v" using i l by (simp add: unat_of_nat)
    then have "length (word_of_nat i # k :: bytes) \<le> 2 ^ 62 \<and> length v \<le> 2 ^ 58" using m unfolding moderate_def by blast
    then show "length k \<le> 2 ^ 62 \<and> length v \<le> 2 ^ 58" by simp
  qed
qed

lemma moderate_value: "moderate (MVal v) \<Longrightarrow> length v \<le> 2 ^ 58"
  unfolding moderate_def by (metis mget.simps(2))

lemma fits_moderate: "t = MNil \<or> is_value t \<or> canon t \<Longrightarrow> moderate t \<Longrightarrow> fits K t"
proof (induction t rule: mpt.induct)
  case (MExt p t)
  have c: "canon (MExt p t)" using MExt.prems(1) by auto
  have t: "moderate t" "t = MNil \<or> is_value t \<or> canon t"
    using moderate_children(1) [OF MExt.prems(2)] canon_children(1) [OF c] by blast+
  obtain k v where k: "mget (MExt p t) k = Some v" using canon_has_key [OF c] by blast
  then have "length k \<le> 2 ^ 62" using MExt.prems(2) unfolding moderate_def by blast
  then have "length p \<le> 2 ^ 62" using mget_key_le [OF k] by linarith
  then have p: "length (compact_key p) \<le> 2 ^ 62 + 2" using compact_key_length [OF canon_key [OF c]] by linarith
  have "length (enc (child_item K t (node_item K t))) \<le> 42 + 2 ^ 58"
    by (rule length_child [OF t(2)]) (use t(1) moderate_value in blast)
  moreover have "length (enc (Str (compact_key p))) \<le> 9 + (2 ^ 62 + 2)" using length_enc_Str [of "compact_key p"] p by linarith
  ultimately have "length (node_enc K (MExt p t)) < 2 ^ 64"
    using length_enc_Lst [of "[Str (compact_key p), child_item K t (node_item K t)]"]
    by (simp add: node_enc_def del: enc.simps)
  then show ?case using MExt.IH t by simp
next
  case (MBranch ts)
  have c: "canon (MBranch ts)" using MBranch.prems(1) by auto
  have t: "moderate t" "t = MNil \<or> is_value t \<or> canon t" if "t \<in> set ts" for t
    using moderate_children(2) [OF MBranch.prems(2) _ that] canon_children(2) [OF c that] c by auto
  have "length (enc (child_item K t (node_item K t))) \<le> 42 + 2 ^ 58" if "t \<in> set ts" for t
    by (rule length_child [OF t(2) [OF that]]) (use t(1) [OF that] moderate_value in blast)
  then have "sum_list (map (\<lambda>t. length (enc (child_item K t (node_item K t)))) ts) \<le> length ts * (42 + 2 ^ 58)"
    by (rule sum_list_le)
  then have "length (node_enc K (MBranch ts)) < 2 ^ 64"
    using length_enc_Lst [of "map (\<lambda>t. child_item K t (node_item K t)) ts"] c
    by (simp add: node_enc_def comp_def del: enc.simps)
  then show ?case using MBranch.IH t by simp
qed simp_all

section \<open>The root hash\<close>

definition root_hash :: "(bytes \<Rightarrow> hash) \<Rightarrow> mpt \<Rightarrow> hash" where
  "root_hash K a = (if a = MNil then emptyRoot else K (node_enc K a))"

definition small_map :: "(bytes \<Rightarrow> bytes option) \<Rightarrow> bool" where
  "small_map m \<longleftrightarrow> (\<forall>k v. m k = Some v \<longrightarrow> length k \<le> 2 ^ 58 \<and> length v \<le> 2 ^ 58)"

lemma rep_by_moderate:
  assumes "rep_by K db t m a" "small_map m"
  shows "moderate a"
  unfolding moderate_def
proof (intro allI impI)
  fix k v
  assume g: "mget a k = Some v"
  then obtain s where s: "k = keybytesToHex s" using rep_byD(4) [OF assms(1)] by blast
  then have "m s = Some v" using rep_byD(3) [OF assms(1)] g by auto
  then have "length s \<le> 2 ^ 58 \<and> length v \<le> 2 ^ 58" using assms(2) unfolding small_map_def by blast
  then show "length k \<le> 2 ^ 62 \<and> length v \<le> 2 ^ 58" by (simp add: s length_keybytesToHex)
qed

lemma rep_by_fits: "rep_by K db t m a \<Longrightarrow> small_map m \<Longrightarrow> fits K a"
  using fits_moderate [OF _ rep_by_moderate] rep_byD(2) by (metis (full_types))

lemma rep_by_root: "rep_by K db t m a \<Longrightarrow> root t = NilNode \<longleftrightarrow> a = MNil"
  using rep_byD(1) [of K db t m a] trie_of_MNil by auto

lemma trie_Hash_ok:
  assumes "rep_by K db t m a" "small_map m"
  shows "\<exists>t'. trie_Hash K t = Inr (root_hash K a, t') \<and> rep_by K db t' m a"
proof (cases "a = MNil")
  case True
  then show ?thesis using assms(1) rep_by_root [OF assms(1)]
    by (auto simp: trie_Hash_def hashRoot_def root_hash_def BytesToHash_Bytes rep_by_def)
next
  case False
  let ?h = "\<lparr> h_sha = K, h_cachegen = cachegen t, h_cachelimit = cachelimit t, h_onleaf = False \<rparr>"
  have "hash_done ?h False db True a (hash_node ?h False (root t) True)"
    by (rule hash_node_ok) (use rep_byD(1,2) [OF assms(1)] False rep_by_fits [OF assms] in auto)
  then obtain cd where r: "hash_node ?h False (root t) True = Inr (HashNode (Hash_Bytes (K (node_enc K a))), cd, [])"
      "trie_of K db True cd a"
    using absorbs_Nil [of K db] by (auto simp: hash_done_def hashed_as_def)
  have "trie_Hash K t = Inr (root_hash K a, t\<lparr> root := cd \<rparr>)"
    using r(1) False rep_by_root [OF assms(1)] by (simp add: trie_Hash_def hashRoot_def root_hash_def BytesToHash_Bytes)
  moreover have "rep_by K db (t\<lparr> root := cd \<rparr>) m a" using assms(1) r(2) by (simp add: rep_by_def)
  ultimately show ?thesis by blast
qed

lemma trie_Commit_ok:
  assumes "rep_by K db t m a" "small_map m"
  shows "\<exists>evs t'. trie_Commit K onleaf t = Inr (root_hash K a, evs, t') \<and>
    (\<forall>db'. absorbs K db evs db' \<longrightarrow> rep_by K db' t' m a \<and> (a \<noteq> MNil \<longrightarrow> stored K db' a))"
proof (cases "a = MNil")
  case True
  then show ?thesis using assms(1) rep_by_root [OF assms(1)]
    by (auto simp: trie_Commit_def hashRoot_def root_hash_def BytesToHash_Bytes rep_by_def)
next
  case False
  let ?h = "\<lparr> h_sha = K, h_cachegen = cachegen t, h_cachelimit = cachelimit t, h_onleaf = onleaf \<rparr>"
  have "hash_done ?h True db True a (hash_node ?h True (root t) True)"
    by (rule hash_node_ok) (use rep_byD(1,2) [OF assms(1)] False rep_by_fits [OF assms] in auto)
  then obtain cd evs where r: "hash_node ?h True (root t) True = Inr (HashNode (Hash_Bytes (K (node_enc K a))), cd, evs)"
      "\<And>db'. absorbs K db evs db' \<Longrightarrow> trie_of K db' True cd a \<and> stored K db' a"
    by (auto simp: hash_done_def hashed_as_def stored_def)
  have "trie_Commit K onleaf t = Inr (root_hash K a, evs, t\<lparr> root := cd, cachegen := cachegen t + 1 \<rparr>)"
    using r(1) False rep_by_root [OF assms(1)] by (simp add: trie_Commit_def hashRoot_def root_hash_def BytesToHash_Bytes)
  moreover have "rep_by K db' (t\<lparr> root := cd, cachegen := cachegen t + 1 \<rparr>) m a" if "absorbs K db evs db'" for db'
    using assms(1) r(2) [OF that] by (simp add: rep_by_def)
  ultimately show ?thesis using r(2) by blast
qed

lemma trie_New_stored:
  assumes "rep_by K db0 t m a" "a \<noteq> MNil \<Longrightarrow> stored K db a" "root_hash K a \<noteq> 0" "a \<noteq> MNil \<Longrightarrow> root_hash K a \<noteq> emptyRoot"
  shows "\<exists>t'. trie_New db (root_hash K a) = Inr t' \<and> rep_by K db t' m a"
proof (cases "a = MNil")
  case True
  then show ?thesis using assms(1) by (auto simp: trie_New_def root_hash_def rep_by_def)
next
  case False
  let ?H = "Hash_Bytes (K (node_enc K a))"
  have c: "canon a" using False rep_byD(2) [OF assms(1)] by blast
  have h: "trie_of K db True (HashNode ?H) a" using c assms(2) False by (simp add: trie_of_HashNode hash_ok_def)
  obtain n where n: "resolveHash db 0 ?H [] = Inr n" "trie_of K db True n a" by (rule trie_of_hash [OF h])
  show ?thesis using assms(1,3,4) n False by (auto simp: trie_New_def root_hash_def rep_by_def)
qed

section \<open>The root hash determines the content\<close>

fun subtries :: "mpt \<Rightarrow> mpt set" where
  "subtries (MExt k t) = insert (MExt k t) (subtries t)"
| "subtries (MBranch ts) = insert (MBranch ts) (\<Union>t \<in> set ts. subtries t)"
| "subtries t = {}"

definition blobs_of :: "(bytes \<Rightarrow> hash) \<Rightarrow> mpt \<Rightarrow> bytes set" where
  "blobs_of K a = node_enc K ` subtries a"

lemma blobs_of_simps:
  "blobs_of K (MExt k t) = insert (node_enc K (MExt k t)) (blobs_of K t)"
  "blobs_of K (MBranch ts) = insert (node_enc K (MBranch ts)) (\<Union>t \<in> set ts. blobs_of K t)"
  "blobs_of K MNil = {}" "blobs_of K (MVal v) = {}"
  by (auto simp: blobs_of_def)

lemma own_blob: "is_node t \<Longrightarrow> node_enc K t \<in> blobs_of K t"
  by (cases t) (auto simp: blobs_of_def is_node_def)

lemma Hash_Bytes_inj: "Hash_Bytes x = Hash_Bytes y \<Longrightarrow> x = y"
  by (metis BytesToHash_Bytes)

lemma node_item_Lst: "is_node t \<Longrightarrow> \<exists>xs. node_item K t = Lst xs"
  by (cases t) (auto simp: is_node_def)

lemma Hash_Bytes_not_Nil: "Hash_Bytes x \<noteq> []"
  by (metis length_Hash_Bytes list.size(3) zero_neq_numeral)

lemma child_item_empty: "x = MNil \<or> is_value x \<or> canon x \<Longrightarrow> child_item K x (node_item K x) = Str [] \<Longrightarrow> x = MNil"
  by (cases x) (auto simp: child_item_def Hash_Bytes_not_Nil split: if_splits)

lemma child_item_inj:
  assumes e: "child_item K t (node_item K t) = child_item K u (node_item K u)"
    and sort: "t = MNil \<or> u = MNil \<or> (is_value t \<and> is_value u) \<or> (canon t \<and> canon u)"
      "t = MNil \<or> is_value t \<or> canon t" "u = MNil \<or> is_value u \<or> canon u"
    and inj: "inj_on K (blobs_of K t \<union> blobs_of K u)"
    and ih: "canon t \<Longrightarrow> canon u \<Longrightarrow> node_enc K t = node_enc K u \<Longrightarrow> t = u"
  shows "t = u"
proof -
  consider (nil) "t = MNil \<or> u = MNil" | (vals) "is_value t" "is_value u" | (nodes) "canon t" "canon u" using sort(1) by blast
  then show ?thesis
  proof cases
    case nil
    have "child_item K MNil (node_item K MNil) = Str []" by (simp add: child_item_def)
    then show ?thesis using nil e child_item_empty [OF sort(2)] child_item_empty [OF sort(3)] by metis
  next
    case vals
    then show ?thesis using e by (cases t; cases u) (auto simp: child_item_def)
  next
    case nodes
    note n = canon_is_node [OF nodes(1)] canon_is_node [OF nodes(2)]
    have "node_enc K t = node_enc K u"
    proof (cases "hashed_child K t \<and> hashed_child K u")
      case True
      then have "K (node_enc K t) = K (node_enc K u)" using e Hash_Bytes_inj by (simp add: child_item_eq)
      then show ?thesis using inj own_blob n by (auto simp: inj_on_def)
    next
      case False
      then show ?thesis using e node_item_Lst [OF n(1), of K] node_item_Lst [OF n(2), of K]
        by (auto simp: child_item_eq node_enc_def split: if_splits)
    qed
    then show ?thesis using ih nodes by blast
  qed
qed

lemma compact_key_inj: "nibbles k \<or> hexkey k \<Longrightarrow> nibbles l \<or> hexkey l \<Longrightarrow> compact_key k = compact_key l \<Longrightarrow> k = l"
  by (metis compact_key_roundtrip sum.inject(2))

lemma nibbles_not_hexkey: "nibbles k \<Longrightarrow> \<not> hexkey k"
  using nibbles_not_term by (auto simp: hexkey_def)

lemma canon_MExt_cases: "canon (MExt k t) \<Longrightarrow> hexkey k \<and> is_value t \<or> nibbles k \<and> \<not> hexkey k \<and> canon t"
  using nibbles_not_hexkey by auto

lemma node_enc_inj:
  assumes "canon t" "canon u" "node_enc K t = node_enc K u" "fits K t" "inj_on K (blobs_of K t \<union> blobs_of K u)"
  shows "t = u"
  using assms
proof (induction t arbitrary: u rule: mpt.induct)
  case (MExt k t)
  have i: "node_item K (MExt k t) = node_item K u"
    using MExt.prems(3,4) enc_inj [of "node_item K (MExt k t)"] unfolding node_enc_def by (simp add: node_enc_def)
  then obtain l s where u: "u = MExt l s" using MExt.prems(2) by (cases u) auto
  have k: "k = l" using i compact_key_inj [OF canon_key canon_key] MExt.prems(1,2) unfolding u by auto
  have "t = s"
  proof (rule child_item_inj)
    show "child_item K t (node_item K t) = child_item K s (node_item K s)" using i by (simp add: u)
    show "t = MNil \<or> s = MNil \<or> is_value t \<and> is_value s \<or> canon t \<and> canon s"
      using canon_MExt_cases [OF MExt.prems(1)] canon_MExt_cases [OF MExt.prems(2) [unfolded u]] k by blast
    show inj: "inj_on K (blobs_of K t \<union> blobs_of K s)"
      by (rule inj_on_subset [OF MExt.prems(5)]) (auto simp: u blobs_of_simps)
    show "t = s" if "canon t" "canon s" "node_enc K t = node_enc K s" using MExt.IH that MExt.prems(4) inj by simp
  qed (use canon_children(1) MExt.prems(1,2) u in blast)+
  then show ?case using k by (simp add: u)
next
  case (MBranch ts)
  have i: "node_item K (MBranch ts) = node_item K u"
    using MBranch.prems(3,4) enc_inj [of "node_item K (MBranch ts)"] unfolding node_enc_def by (simp add: node_enc_def)
  have l: "length ts = 17" using MBranch.prems(1) by simp
  then obtain us where u: "u = MBranch us" using i MBranch.prems(2) by (cases u) (auto dest!: arg_cong [where f = length])
  have lu: "length us = 17" using MBranch.prems(2) by (simp add: u)
  have "ts ! j = us ! j" if j: "j < 17" for j
  proof (rule child_item_inj)
    have "map (\<lambda>t. child_item K t (node_item K t)) ts ! j = map (\<lambda>t. child_item K t (node_item K t)) us ! j"
      using i by (simp add: u)
    then show "child_item K (ts ! j) (node_item K (ts ! j)) = child_item K (us ! j) (node_item K (us ! j))"
      using j l lu by simp
    note c = canon_branch_child(2) [OF MBranch.prems(1) j] canon_branch_child(2) [OF MBranch.prems(2) [unfolded u] j]
    show "ts ! j = MNil \<or> us ! j = MNil \<or> is_value (ts ! j) \<and> is_value (us ! j) \<or> canon (ts ! j) \<and> canon (us ! j)"
      "ts ! j = MNil \<or> is_value (ts ! j) \<or> canon (ts ! j)" "us ! j = MNil \<or> is_value (us ! j) \<or> canon (us ! j)"
      using c by (auto split: if_splits)
    have m: "ts ! j \<in> set ts" "us ! j \<in> set us" using j l lu by simp_all
    show inj: "inj_on K (blobs_of K (ts ! j) \<union> blobs_of K (us ! j))"
      by (rule inj_on_subset [OF MBranch.prems(5)]) (use m in \<open>auto simp: u blobs_of_simps\<close>)
    show "ts ! j = us ! j" if "canon (ts ! j)" "canon (us ! j)" "node_enc K (ts ! j) = node_enc K (us ! j)"
      using MBranch.IH [OF m(1)] that MBranch.prems(4) inj m by simp
  qed
  then show ?case using l lu by (simp add: u list_eq_iff_nth_eq)
qed auto

text \<open>The encodings of the nodes of the trie for a map, and of the empty trie.\<close>

definition content_trie :: "(bytes \<Rightarrow> bytes option) \<Rightarrow> mpt \<Rightarrow> bool" where
  "content_trie m a \<longleftrightarrow> mpt_ok a \<and> (\<forall>s. mget a (keybytesToHex s) = m s) \<and> (\<forall>k v. mget a k = Some v \<longrightarrow> k \<in> range keybytesToHex)"

definition node_blobs :: "(bytes \<Rightarrow> hash) \<Rightarrow> (bytes \<Rightarrow> bytes option) \<Rightarrow> bytes set" where
  "node_blobs K m = insert (enc (Str [])) (\<Union>a \<in> Collect (content_trie m). blobs_of K a)"

lemma rep_by_content: "rep_by K db t m a \<longleftrightarrow> trie_of K db True (root t) a \<and> content_trie m a"
  by (auto simp: rep_by_def content_trie_def)

lemma content_trie_unique: "content_trie m a \<Longrightarrow> content_trie m b \<Longrightarrow> a = b"
proof -
  assume a: "content_trie m a" and b: "content_trie m b"
  have "mget a k = mget b k" for k
  proof (cases "k \<in> range keybytesToHex")
    case True
    then show ?thesis using a b by (auto simp: content_trie_def)
  next
    case False
    then show ?thesis using a b unfolding content_trie_def by (metis not_None_eq)
  qed
  then have e: "mget a = mget b" by blast
  show "a = b" using a b e canon_unique some_not_MNil unfolding content_trie_def by metis
qed

lemma root_hash_binding:
  assumes "content_trie m1 a" "content_trie m2 b" "fits K a" "fits K b" "K (enc (Str [])) = emptyRoot"
    "inj_on K (node_blobs K m1 \<union> node_blobs K m2)" "root_hash K a = root_hash K b"
  shows "m1 = m2"
proof -
  let ?S = "node_blobs K m1 \<union> node_blobs K m2"
  have S: "blobs_of K a \<subseteq> ?S" "blobs_of K b \<subseteq> ?S" "enc (Str []) \<in> ?S" using assms(1,2) by (auto simp: node_blobs_def)
  have c: "mpt_ok a" "mpt_ok b" using assms(1,2) by (auto simp: content_trie_def)
  have r: "\<exists>x \<in> ?S. root_hash K t = K x \<and> (t = MNil \<longleftrightarrow> x = enc (Str [])) \<and> (t \<noteq> MNil \<longrightarrow> x = node_enc K t)"
    if t: "mpt_ok t" "blobs_of K t \<subseteq> ?S" "fits K t" for t
  proof (cases "t = MNil")
    case True
    then show ?thesis using S(3) assms(5) by (auto simp: root_hash_def)
  next
    case False
    then have ct: "canon t" using t(1) by blast
    have "node_enc K t \<noteq> enc (Str [])"
      using node_item_Lst [OF canon_is_node [OF ct], of K] enc_inj fits_length [OF ct t(3)] unfolding node_enc_def
      by (metis rlp_item.distinct(1))
    then show ?thesis using False own_blob [OF canon_is_node [OF ct]] t(2) by (auto simp: root_hash_def)
  qed
  obtain x y where xy: "x \<in> ?S" "y \<in> ?S" "K x = K y" "a = MNil \<longleftrightarrow> x = enc (Str [])" "b = MNil \<longleftrightarrow> y = enc (Str [])"
      "a \<noteq> MNil \<longrightarrow> x = node_enc K a" "b \<noteq> MNil \<longrightarrow> y = node_enc K b"
    using r [OF c(1) S(1) assms(3)] r [OF c(2) S(2) assms(4)] assms(7) by metis
  then have e: "x = y" using assms(6) by (auto dest: inj_onD)
  have "a = b"
  proof (cases "a = MNil")
    case False
    then have "b \<noteq> MNil" using xy e by metis
    then show ?thesis using node_enc_inj [of a b K] c False xy(6,7) e assms(3) inj_on_subset [OF assms(6)] S by auto
  qed (use xy e in metis)
  then have "m1 s = m2 s" for s using assms(1,2) by (auto simp: content_trie_def)
  then show ?thesis by blast
qed

end
