(* ===== verification/Trie_Theorems.thy ===== *)
theory Trie_Theorems
  imports Trie_Root
begin

text \<open>
  The main properties of the Merkle Patricia trie.
\<close>

text \<open>C1. A trie that represents a map answers every sequence of lookups, updates and deletions as the map
  does, without error, and represents the resulting map at the end; an update with an empty value deletes.\<close>

theorem trie_refines_map:
  assumes "trie_rep K db t m"
  shows "\<exists>t'. store_run (TryGet db) (TryUpdate db) (TryDelete db) ops t = Inr (fst (map_run ops m), None, t') \<and>
    trie_rep K db t' (snd (map_run ops m))"
  using assms by (rule trie_store.run_refines)

theorem trie_refines_map_witness:
  "\<exists>t'. store_run (TryGet (\<lambda>_ _. None)) (TryUpdate (\<lambda>_ _. None)) (TryDelete (\<lambda>_ _. None))
      [OpUpdate [1] [7], OpUpdate [1, 2] [8], OpGet [1], OpDelete [1], OpGet [1], OpGet [1, 2], OpUpdate [1, 2] [], OpGet [1, 2]]
      \<lparr> root = NilNode, cachegen = 0, cachelimit = 0 \<rparr> = Inr ([[7], [], [8], []], None, t')"
  using trie_refines_map [OF empty_trie_rep [of "\<lambda>_. 0" "\<lambda>_ _. None" 0 0],
      of "[OpUpdate [1] [7], OpUpdate [1, 2] [8], OpGet [1], OpDelete [1], OpGet [1], OpGet [1, 2], OpUpdate [1, 2] [], OpGet [1, 2]]"]
  by auto

text \<open>C5. The root hash is a function of the content: two tries that represent the same map have the same hash, however
  they were built and whatever is cached or stored in their databases; hashing does not fail and keeps the content.\<close>

theorem trie_hash_of_content:
  assumes "trie_rep K db1 t1 m" "trie_rep K db2 t2 m" "small_map m"
  shows "\<exists>r t1' t2'. trie_Hash K t1 = Inr (r, t1') \<and> trie_Hash K t2 = Inr (r, t2') \<and>
    trie_rep K db1 t1' m \<and> trie_rep K db2 t2' m"
proof -
  obtain a b where ab: "rep_by K db1 t1 m a" "rep_by K db2 t2 m b" using assms unfolding trie_rep_def by blast
  then have "a = b" using content_trie_unique rep_by_content by blast
  then show ?thesis using trie_Hash_ok [OF ab(1) assms(3)] trie_Hash_ok [OF ab(2) assms(3)] unfolding trie_rep_def by blast
qed

theorem trie_hash_of_content_witness:
  "\<exists>rs1 t1 rs2 t2 r t1' t2'.
    store_run (TryGet (\<lambda>_ _. None)) (TryUpdate (\<lambda>_ _. None)) (TryDelete (\<lambda>_ _. None))
      [OpUpdate [1] [7], OpUpdate [1, 2] [8]] \<lparr> root = NilNode, cachegen = 0, cachelimit = 0 \<rparr> = Inr (rs1, None, t1) \<and>
    store_run (TryGet (\<lambda>_ _. None)) (TryUpdate (\<lambda>_ _. None)) (TryDelete (\<lambda>_ _. None))
      [OpUpdate [1, 2] [8], OpUpdate [3] [9], OpUpdate [1] [7], OpDelete [3]] \<lparr> root = NilNode, cachegen = 5, cachelimit = 1 \<rparr> =
        Inr (rs2, None, t2) \<and>
    trie_Hash (\<lambda>_. 3) t1 = Inr (r, t1') \<and> trie_Hash (\<lambda>_. 3) t2 = Inr (r, t2')"
proof -
  let ?K = "\<lambda>_. 3 :: hash" and ?db = "\<lambda>_ _. None" and ?m = "[[1] \<mapsto> [7], [1, 2] \<mapsto> [8]] :: bytes \<Rightarrow> bytes option"
  have m: "Map.empty([1] := Some [7], [1, 2] := Some [8], [3] := Some [9], [3] := None) = ?m"
    "snd (map_run [OpUpdate [1] [7], OpUpdate [1, 2] [8]] Map.empty) = ?m"
    "snd (map_run [OpUpdate [1, 2] [8], OpUpdate [3] [9], OpUpdate [1] [7], OpDelete [3]] Map.empty) = ?m" by auto
  obtain t1 where t1: "store_run (TryGet ?db) (TryUpdate ?db) (TryDelete ?db) [OpUpdate [1] [7], OpUpdate [1, 2] [8]]
      \<lparr> root = NilNode, cachegen = 0, cachelimit = 0 \<rparr> = Inr (fst (map_run [OpUpdate [1] [7], OpUpdate [1, 2] [8]] Map.empty), None, t1)"
      "trie_rep ?K ?db t1 ?m"
    using trie_store.run_refines [OF empty_trie_rep [of ?K ?db 0 0], of "[OpUpdate [1] [7], OpUpdate [1, 2] [8]]"] m by metis
  obtain t2 where t2: "store_run (TryGet ?db) (TryUpdate ?db) (TryDelete ?db)
      [OpUpdate [1, 2] [8], OpUpdate [3] [9], OpUpdate [1] [7], OpDelete [3]] \<lparr> root = NilNode, cachegen = 5, cachelimit = 1 \<rparr> =
      Inr (fst (map_run [OpUpdate [1, 2] [8], OpUpdate [3] [9], OpUpdate [1] [7], OpDelete [3]] Map.empty), None, t2)"
      "trie_rep ?K ?db t2 ?m"
    using trie_store.run_refines [OF empty_trie_rep [of ?K ?db 5 1],
        of "[OpUpdate [1, 2] [8], OpUpdate [3] [9], OpUpdate [1] [7], OpDelete [3]]"] m by metis
  have s: "small_map ?m" by (simp add: small_map_def)
  show ?thesis using trie_hash_of_content [OF t1(2) t2(2) s] t1(1) t2(1) by blast
qed

text \<open>C6. The root hash determines the content: if the hash function maps the empty string's encoding to the constant for
  the empty trie and has no collision among the encodings of the nodes of two tries, then tries with the same hash
  represent the same map.\<close>

theorem trie_hash_binding:
  assumes "trie_rep K db1 t1 m1" "trie_rep K db2 t2 m2" "small_map m1" "small_map m2"
    "K [0x80] = emptyRoot" "inj_on K (node_blobs K m1 \<union> node_blobs K m2)"
    "trie_Hash K t1 = Inr (r, t1')" "trie_Hash K t2 = Inr (r, t2')"
  shows "m1 = m2"
proof -
  obtain a b where ab: "rep_by K db1 t1 m1 a" "rep_by K db2 t2 m2 b" using assms(1,2) unfolding trie_rep_def by blast
  have "root_hash K a = root_hash K b"
    using trie_Hash_ok [OF ab(1) assms(3)] trie_Hash_ok [OF ab(2) assms(4)] assms(7,8) by auto
  moreover have "K (enc (Str [])) = emptyRoot" using assms(5) by (simp add: encodeString_empty)
  ultimately show ?thesis
    using root_hash_binding [OF _ _ rep_by_fits rep_by_fits] ab assms(3,4,6) rep_by_content by blast
qed

definition sample_hash :: "bytes \<Rightarrow> hash" where
  "sample_hash x = (if x = [0x80] then emptyRoot else 0)"

lemma sample_content: "content_trie [[1] \<mapsto> [7]] (MExt (keybytesToHex [1]) (MVal [7]))"
  using hexkey_keybytesToHex [of "[1]"] by (auto simp: content_trie_def dest: keybytesToHex_inj split: if_splits)

lemma sample_no_collision: "inj_on sample_hash (node_blobs sample_hash [[1] \<mapsto> [7]])"
proof -
  let ?a = "MExt (keybytesToHex [1]) (MVal [7])"
  have "Collect (content_trie [[1] \<mapsto> [7]]) = {?a}" using sample_content content_trie_unique by blast
  then have "node_blobs sample_hash [[1] \<mapsto> [7]] = {[0x80], node_enc sample_hash ?a}"
    by (auto simp: node_blobs_def blobs_of_simps encodeString_empty)
  moreover have "node_enc sample_hash ?a \<noteq> [0x80]"
  proof
    assume e: "node_enc sample_hash ?a = [0x80]"
    have "enc (node_item sample_hash ?a) = enc (Str [])" unfolding e [unfolded node_enc_def] by (simp add: encodeString_empty)
    moreover have "length (enc (node_item sample_hash ?a)) < 2 ^ 64" unfolding e [unfolded node_enc_def] by simp
    ultimately have "node_item sample_hash ?a = Str []" using enc_inj by blast
    then show False by simp
  qed
  ultimately show ?thesis by (auto simp: inj_on_def sample_hash_def emptyRoot_def)
qed

theorem trie_hash_binding_witness:
  "\<exists>t r t'. trie_rep sample_hash (\<lambda>_ _. None) t [[1] \<mapsto> [7]] \<and> small_map [[1] \<mapsto> [7]] \<and> sample_hash [0x80] = emptyRoot \<and>
    inj_on sample_hash (node_blobs sample_hash [[1] \<mapsto> [7]]) \<and> trie_Hash sample_hash t = Inr (r, t') \<and>
    [[1] \<mapsto> [7]] = Map.empty([1] := Some [7 :: byte] :: bytes option)"
proof -
  let ?K = sample_hash and ?db = "\<lambda>_ _. None" and ?m = "[[1] \<mapsto> [7]] :: bytes \<Rightarrow> bytes option"
  obtain t where "trie_rep ?K ?db t (snd (map_run [OpUpdate [1] [7]] Map.empty))"
    using trie_store.run_refines [OF empty_trie_rep [of ?K ?db 0 0], of "[OpUpdate [1] [7]]"] by blast
  then have t: "trie_rep ?K ?db t ?m" by simp
  have s: "small_map ?m" by (simp add: small_map_def)
  obtain a where "rep_by ?K ?db t ?m a" using t unfolding trie_rep_def by blast
  then obtain r t' where h: "trie_Hash ?K t = Inr (r, t')" using trie_Hash_ok s by blast
  have k: "?K [0x80] = emptyRoot" by (simp add: sample_hash_def)
  have "inj_on ?K (node_blobs ?K ?m \<union> node_blobs ?K ?m)" using sample_no_collision by simp
  from trie_hash_binding [OF t t s s k this h h] show ?thesis using t s k sample_no_collision h by blast
qed

text \<open>C22. The key encodings can be undone: a key turned into its nibbles and back is the same key, and the
  compact form of a path, with or without the terminator, gives back the path.\<close>

theorem key_encodings_roundtrip:
  assumes "nibbles p \<or> hexkey p"
  shows "hexToKeybytes (keybytesToHex k) = Inr k \<and> (\<exists>c. hexToCompact p = Inr c \<and> compactToHex c = Inr p)"
  using hexToKeybytes_keybytesToHex compact_roundtrip [OF assms] by metis

theorem key_encodings_roundtrip_witness:
  "hexToKeybytes (keybytesToHex [0xAB, 0x01]) = Inr [0xAB, 0x01] \<and>
   (\<exists>c. hexToCompact [1, 2, 3, 16] = Inr c \<and> compactToHex c = Inr [1, 2, 3, 16])"
  using key_encodings_roundtrip [of "[1, 2, 3, 16]" "[0xAB, 0x01]"] by (simp add: hexkey_Cons)

lemma rlp_exec_Inr [simp]: "rlp_exec (Inr x) = Inr (Inr x)"
  by (simp add: rlp_exec_def)



end
