(* ===== verification/State_Object.thy ===== *)
theory State_Object
  imports Trie_Hash
begin

text \<open>
  Accounts of the world state: the trie with hashed keys (\<open>trie/secure_trie.go\<close>), accounts and their encoding, and the
  state objects that cache an account while it is modified (\<open>core/state/state_object.go\<close>).
\<close>

section \<open>The environment\<close>

text \<open>
  What the state reads: the hash function, the nodes of the trie database, the contract codes by hash
  (\<open>ContractCode\<close> of \<open>core/state/database.go\<close>) and the reflective decoder of accounts (\<open>rlp.DecodeBytes\<close>).
\<close>

record Account =
  acc_Nonce :: uint64
  acc_Balance :: bigint
  acc_Root :: hash
  acc_CodeHash :: hash

record state_env =
  s_keccak :: "bytes \<Rightarrow> hash"
  s_nodes :: node_db
  s_code :: "hash \<Rightarrow> bytes option"
  s_decode :: "bytes \<Rightarrow> Account option"

section \<open>Tries with hashed keys\<close>

text \<open>
  The cache of hashed keys is left out: it remembers values of the hash function.  The cache of preimages belongs to
  one trie; a copy starts a new one.
\<close>

record SecureTrie =
  st_trie :: Trie
  secKeyCache :: "(bytes, bytes) go_map"
  secKeyOwner :: bool

definition NewSecure :: "node_db \<Rightarrow> hash \<Rightarrow> uint16 \<Rightarrow> trie_error + SecureTrie" where
  "NewSecure db r cl =
    (case trie_New db r of
       Inl e \<Rightarrow> Inl e
     | Inr t \<Rightarrow> Inr \<lparr> st_trie = t\<lparr> cachelimit := cl \<rparr>, secKeyCache = [], secKeyOwner = False \<rparr>)"

definition hashKey :: "state_env \<Rightarrow> bytes \<Rightarrow> bytes" where
  "hashKey env key = Hash_Bytes (s_keccak env key)"

definition getSecKeyCache :: "SecureTrie \<Rightarrow> SecureTrie" where
  "getSecKeyCache st = (if secKeyOwner st then st else st\<lparr> secKeyOwner := True, secKeyCache := [] \<rparr>)"

text \<open>
  The operations of the trie in memory.  They panic only on a malformed tree; the state reports this as a
  missing node.
\<close>

definition lost_node :: trie_error where
  "lost_node = MissingNodeError 0 []"

definition sec_TryGet :: "state_env \<Rightarrow> bytes \<Rightarrow> SecureTrie \<Rightarrow> bytes \<times> trie_error option \<times> SecureTrie" where
  "sec_TryGet env key st =
    (case TryGet (s_nodes env) (hashKey env key) (st_trie st) of
       Inr (v, err, t) \<Rightarrow> (v, err, st\<lparr> st_trie := t \<rparr>)
     | Inl _ \<Rightarrow> ([], Some lost_node, st))"

definition sec_TryUpdate :: "state_env \<Rightarrow> bytes \<Rightarrow> bytes \<Rightarrow> SecureTrie \<Rightarrow> trie_error option \<times> SecureTrie" where
  "sec_TryUpdate env key v st =
    (let hk = hashKey env key in
     case TryUpdate (s_nodes env) hk v (st_trie st) of
       Inr (Some e, t) \<Rightarrow> (Some e, st\<lparr> st_trie := t \<rparr>)
     | Inr (None, t) \<Rightarrow>
         (let st1 = getSecKeyCache (st\<lparr> st_trie := t \<rparr>) in
          (None, st1\<lparr> secKeyCache := map_put hk key (secKeyCache st1) \<rparr>))
     | Inl _ \<Rightarrow> (Some lost_node, st))"

definition sec_TryDelete :: "state_env \<Rightarrow> bytes \<Rightarrow> SecureTrie \<Rightarrow> trie_error option \<times> SecureTrie" where
  "sec_TryDelete env key st =
    (let hk = hashKey env key;
         st0 = getSecKeyCache st;
         st1 = st0\<lparr> secKeyCache := map_del hk (secKeyCache st0) \<rparr> in
     case TryDelete (s_nodes env) hk (st_trie st1) of
       Inr (err, t) \<Rightarrow> (err, st1\<lparr> st_trie := t \<rparr>)
     | Inl _ \<Rightarrow> (Some lost_node, st1))"

definition sec_Hash :: "state_env \<Rightarrow> SecureTrie \<Rightarrow> (hash \<times> SecureTrie) exec" where
  "sec_Hash env st =
    bind_exec (trie_Hash (s_keccak env) (st_trie st)) (\<lambda>(h, t). Inr (h, st\<lparr> st_trie := t \<rparr>))"

text \<open>The preimages a commit writes, and the events of the trie.\<close>

definition sec_Commit :: "state_env \<Rightarrow> bool \<Rightarrow> SecureTrie \<Rightarrow> (hash \<times> (bytes, bytes) go_map \<times> store_event list \<times> SecureTrie) exec" where
  "sec_Commit env onleaf st =
    (let st0 = getSecKeyCache st;
         preimages = secKeyCache st0;
         st1 = (if preimages \<noteq> [] then st0\<lparr> secKeyCache := [] \<rparr> else st0) in
     bind_exec (trie_Commit (s_keccak env) onleaf (st_trie st1)) (\<lambda>(h, ev, t).
       Inr (h, preimages, ev, st1\<lparr> st_trie := t \<rparr>)))"

definition sec_Copy :: "SecureTrie \<Rightarrow> SecureTrie" where
  "sec_Copy st = st\<lparr> secKeyOwner := False \<rparr>"

section \<open>The encoding of accounts\<close>

definition account_RLPSize :: "Account \<Rightarrow> nat" where
  "account_RLPSize a =
    Uint64Size (acc_Nonce a) + BigIntSize (Some (acc_Balance a)) + BytesSize (Hash_Bytes (acc_Root a)) +
    BytesSize (Hash_Bytes (acc_CodeHash a))"

definition account_EncodeRLP :: "Account \<Rightarrow> rlp_error + bytes" where
  "account_EncodeRLP a =
    (case WriteBigIntTo (Some (acc_Balance a)) of
       Inl e \<Rightarrow> Inl e
     | Inr b \<Rightarrow>
         Inr (WriteListHeaderTo (account_RLPSize a) @ WriteUint64To (acc_Nonce a) @ b @
           WriteBytesTo (Hash_Bytes (acc_Root a)) @ WriteBytesTo (Hash_Bytes (acc_CodeHash a))))"

text \<open>
  \<open>AppendBigInt\<close> within a capacity; \<open>None\<close> is the panic of a slice beyond it.
\<close>

definition MaxBigIntSize :: nat where
  "MaxBigIntSize = 32"

definition AppendBigInt :: "nat \<Rightarrow> bytes \<Rightarrow> bigint option \<Rightarrow> rlp_error + bytes option" where
  "AppendBigInt cap b v =
    (case v of
       None \<Rightarrow> Inr (append_cap cap b [0x80])
     | Some i \<Rightarrow> if i = 0 then Inr (append_cap cap b [0x80]) else if i < 0 then Inl ErrNegativeBigInt
         else Inr (AppendBytes cap b (big_Bytes i)))"

definition slice_exec :: "'a option \<Rightarrow> 'a exec" where
  "slice_exec r = (case r of None \<Rightarrow> Inl GoPanic | Some x \<Rightarrow> Inr x)"

definition account_MarshalRLP :: "Account \<Rightarrow> (rlp_error + bytes) exec" where
  "account_MarshalRLP a =
    (let root = Hash_Bytes (acc_Root a); code = Hash_Bytes (acc_CodeHash a);
         cap = MaxHeadSize + Uint64Size (acc_Nonce a) + MaxBigIntSize + BytesSize root + BytesSize code in
     bind_exec (slice_exec (AppendUint64 cap (replicate MaxHeadSize 0) (acc_Nonce a))) (\<lambda>b1.
       case AppendBigInt cap b1 (Some (acc_Balance a)) of
         Inl e \<Rightarrow> Inr (Inl e)
       | Inr r \<Rightarrow>
           bind_exec (slice_exec r) (\<lambda>b2.
           bind_exec (slice_exec (AppendBytes cap b2 root)) (\<lambda>b3.
           bind_exec (slice_exec (AppendBytes cap b3 code)) (\<lambda>b4.
           bind_exec (slice_exec (PrependListHeader b4)) (\<lambda>b5. Inr (Inr b5)))))))"

section \<open>State objects\<close>

datatype state_error =
    TrieError trie_error
  | NoStorageTrie trie_error
  | NoCode hash
  | BadStorage rlp_error

record stateObject =
  so_address :: address
  so_addrHash :: hash
  so_data :: Account
  so_dbErr :: "state_error option"
  so_trie :: "SecureTrie option"
  so_code :: "bytes option"
  originStorage :: "(hash, hash) go_map"
  dirtyStorage :: "(hash, hash) go_map"
  dirtyCode :: bool
  suicided :: bool
  deleted :: bool

definition emptyCodeHash :: "state_env \<Rightarrow> hash" where
  "emptyCodeHash env = s_keccak env []"

definition so_empty :: "state_env \<Rightarrow> stateObject \<Rightarrow> bool" where
  "so_empty env so \<longleftrightarrow> acc_Nonce (so_data so) = 0 \<and> acc_Balance (so_data so) = 0 \<and> acc_CodeHash (so_data so) = emptyCodeHash env"

definition newObject :: "state_env \<Rightarrow> address \<Rightarrow> Account \<Rightarrow> stateObject" where
  "newObject env addr data =
    \<lparr> so_address = addr, so_addrHash = s_keccak env (Address_Bytes addr),
      so_data = (if acc_CodeHash data = 0 then data\<lparr> acc_CodeHash := emptyCodeHash env \<rparr> else data),
      so_dbErr = None, so_trie = None, so_code = None, originStorage = [], dirtyStorage = [],
      dirtyCode = False, suicided = False, deleted = False \<rparr>"

definition setError :: "state_error option \<Rightarrow> stateObject \<Rightarrow> stateObject" where
  "setError err so = (if so_dbErr so = None then so\<lparr> so_dbErr := err \<rparr> else so)"

text \<open>A storage trie whose root cannot be loaded is replaced by an empty one.\<close>

definition empty_secure :: SecureTrie where
  "empty_secure = \<lparr> st_trie = \<lparr> root = NilNode, cachegen = 0, cachelimit = 0 \<rparr>, secKeyCache = [], secKeyOwner = False \<rparr>"

definition getTrie :: "state_env \<Rightarrow> stateObject \<Rightarrow> SecureTrie \<times> stateObject" where
  "getTrie env so =
    (case so_trie so of
       Some t \<Rightarrow> (t, so)
     | None \<Rightarrow>
         (case NewSecure (s_nodes env) (acc_Root (so_data so)) 0 of
            Inr t \<Rightarrow> (t, so\<lparr> so_trie := Some t \<rparr>)
          | Inl e \<Rightarrow>
              (let t = (case NewSecure (s_nodes env) 0 0 of Inr t \<Rightarrow> t | Inl _ \<Rightarrow> empty_secure) in
               (t, setError (Some (NoStorageTrie e)) (so\<lparr> so_trie := Some t \<rparr>)))))"

text \<open>The value in a storage entry; what cannot be split is remembered as an error.\<close>

definition storage_entry :: "bytes \<Rightarrow> stateObject \<Rightarrow> hash \<times> stateObject" where
  "storage_entry blob so =
    (if length blob > 0 then
       (case Split blob of
          Inl e \<Rightarrow> (BytesToHash [], setError (Some (BadStorage e)) so)
        | Inr (_, content, _) \<Rightarrow> (BytesToHash content, so))
     else (0, so))"

definition so_GetCommittedState :: "state_env \<Rightarrow> hash \<Rightarrow> stateObject \<Rightarrow> hash \<times> stateObject" where
  "so_GetCommittedState env key so =
    (case map_get (originStorage so) key of
       Some v \<Rightarrow> (v, so)
     | None \<Rightarrow>
         (case getTrie env so of (t, so1) \<Rightarrow>
          case sec_TryGet env (Hash_Bytes key) t of (blob, err, t1) \<Rightarrow>
            (let so2 = so1\<lparr> so_trie := Some t1 \<rparr> in
             case err of
               Some e \<Rightarrow> (0, setError (Some (TrieError e)) so2)
             | None \<Rightarrow>
                 (case storage_entry blob so2 of (v, so3) \<Rightarrow>
                    (v, so3\<lparr> originStorage := map_put key v (originStorage so3) \<rparr>)))))"

definition so_GetState :: "state_env \<Rightarrow> hash \<Rightarrow> stateObject \<Rightarrow> hash \<times> stateObject" where
  "so_GetState env key so =
    (case map_get (dirtyStorage so) key of
       Some v \<Rightarrow> (v, so)
     | None \<Rightarrow> so_GetCommittedState env key so)"

definition so_setState :: "hash \<Rightarrow> hash \<Rightarrow> stateObject \<Rightarrow> stateObject" where
  "so_setState key v so = so\<lparr> dirtyStorage := map_put key v (dirtyStorage so) \<rparr>"

definition so_setBalance :: "bigint \<Rightarrow> stateObject \<Rightarrow> stateObject" where
  "so_setBalance amount so = so\<lparr> so_data := (so_data so)\<lparr> acc_Balance := amount \<rparr> \<rparr>"

definition so_setNonce :: "uint64 \<Rightarrow> stateObject \<Rightarrow> stateObject" where
  "so_setNonce nonce so = so\<lparr> so_data := (so_data so)\<lparr> acc_Nonce := nonce \<rparr> \<rparr>"

definition so_setCode :: "hash \<Rightarrow> bytes option \<Rightarrow> stateObject \<Rightarrow> stateObject" where
  "so_setCode codeHash code so =
    so\<lparr> so_code := code, so_data := (so_data so)\<lparr> acc_CodeHash := codeHash \<rparr>, dirtyCode := True \<rparr>"

definition so_Code :: "state_env \<Rightarrow> stateObject \<Rightarrow> bytes option \<times> stateObject" where
  "so_Code env so =
    (case so_code so of
       Some c \<Rightarrow> (Some c, so)
     | None \<Rightarrow>
         if acc_CodeHash (so_data so) = emptyCodeHash env then (None, so)
         else
           (let code = s_code env (acc_CodeHash (so_data so));
                so1 = (if code = None then setError (Some (NoCode (acc_CodeHash (so_data so)))) so else so) in
            (code, so1\<lparr> so_code := code \<rparr>)))"

text \<open>The loop of \<open>updateTrie\<close> over the changed storage entries.\<close>

fun update_entries :: "state_env \<Rightarrow> (hash, hash) go_map \<Rightarrow> SecureTrie \<Rightarrow> stateObject \<Rightarrow> SecureTrie \<times> stateObject" where
  "update_entries env [] t so = (t, so)"
| "update_entries env ((key, v) # kvs) t so =
    (let so1 = so\<lparr> dirtyStorage := map_del key (dirtyStorage so) \<rparr>;
         orig = (case map_get (originStorage so1) key of None \<Rightarrow> 0 | Some x \<Rightarrow> x) in
     if v = orig then update_entries env kvs t so1
     else
       (let so2 = so1\<lparr> originStorage := map_put key v (originStorage so1) \<rparr>;
            (err, t1) = (if v = 0 then sec_TryDelete env (Hash_Bytes key) t
                         else sec_TryUpdate env (Hash_Bytes key) (enc (Str (dropWhile (\<lambda>b. b = 0) (Hash_Bytes v)))) t) in
        update_entries env kvs t1 (setError (map_option TrieError err) so2)))"

definition updateTrie :: "state_env \<Rightarrow> stateObject \<Rightarrow> stateObject" where
  "updateTrie env so =
    (case getTrie env so of (t, so1) \<Rightarrow>
     case update_entries env (dirtyStorage so1) t so1 of (t1, so2) \<Rightarrow> so2\<lparr> so_trie := Some t1 \<rparr>)"

definition updateRoot :: "state_env \<Rightarrow> stateObject \<Rightarrow> stateObject exec" where
  "updateRoot env so =
    (let so1 = updateTrie env so in
     case so_trie so1 of
       None \<Rightarrow> Inl GoPanic
     | Some t \<Rightarrow>
         bind_exec (sec_Hash env t) (\<lambda>(h, t1).
           Inr (so1\<lparr> so_trie := Some t1, so_data := (so_data so1)\<lparr> acc_Root := h \<rparr> \<rparr>)))"

text \<open>\<open>CommitTrie\<close>: the writes, or the remembered error.\<close>

definition CommitTrie :: "state_env \<Rightarrow> stateObject \<Rightarrow> (state_error option \<times> (bytes, bytes) go_map \<times> store_event list \<times> stateObject) exec" where
  "CommitTrie env so =
    (let so1 = updateTrie env so in
     case so_dbErr so1 of
       Some e \<Rightarrow> Inr (Some e, [], [], so1)
     | None \<Rightarrow>
         (case so_trie so1 of
            None \<Rightarrow> Inl GoPanic
          | Some t \<Rightarrow>
              bind_exec (sec_Commit env False t) (\<lambda>(h, pre, ev, t1).
                Inr (None, pre, ev, so1\<lparr> so_trie := Some t1, so_data := (so_data so1)\<lparr> acc_Root := h \<rparr> \<rparr>))))"

definition deepCopy :: "state_env \<Rightarrow> stateObject \<Rightarrow> stateObject" where
  "deepCopy env so =
    (newObject env (so_address so) (so_data so))
      \<lparr> so_trie := map_option sec_Copy (so_trie so), so_code := so_code so, dirtyStorage := dirtyStorage so,
        originStorage := originStorage so, suicided := suicided so, dirtyCode := dirtyCode so, deleted := deleted so \<rparr>"

end
