(* ===== verification/State_DB.thy ===== *)
theory State_DB
  imports State_Object Vm_Base
begin

text \<open>
  The journaled world state (\<open>core/state/statedb.go\<close>, \<open>journal.go\<close> and the journaling methods of \<open>state_object.go\<close>).
  A state object is kept in the map of live objects under its address; the code changes it through a pointer, the
  model puts the changed object back.  Operations return the state; those that may panic return an \<open>exec\<close>.
\<close>

section \<open>The journal and the state\<close>

datatype journalEntry =
    createObjectChange address
  | resetObjectChange stateObject
  | suicideChange address bool bigint
  | balanceChange address bigint
  | nonceChange address uint64
  | storageChange address hash hash
  | codeChange address "bytes option" hash
  | refundChange uint64
  | addLogChange hash
  | addPreimageChange hash
  | touchChange address

fun dirtied :: "journalEntry \<Rightarrow> address option" where
  "dirtied (createObjectChange a) = Some a"
| "dirtied (resetObjectChange prev) = None"
| "dirtied (suicideChange a p b) = Some a"
| "dirtied (balanceChange a p) = Some a"
| "dirtied (nonceChange a p) = Some a"
| "dirtied (storageChange a k v) = Some a"
| "dirtied (codeChange a c h) = Some a"
| "dirtied (refundChange p) = None"
| "dirtied (addLogChange h) = None"
| "dirtied (addPreimageChange h) = None"
| "dirtied (touchChange a) = Some a"

record journal =
  j_entries :: "journalEntry list"
  j_dirties :: "(address, int) go_map"

record revision =
  rev_id :: int
  journalIndex :: nat

record StateDB_state =
  s_trie :: SecureTrie
  stateObjects :: "(address, stateObject) go_map"
  stateObjectsDirty :: "(address, unit) go_map"
  s_refund :: uint64
  thash :: hash
  bhash :: hash
  txIndex :: int
  s_logs :: "(hash, Log list) go_map"
  logSize :: uint64
  s_preimages :: "(hash, bytes) go_map"
  s_journal :: journal
  validRevisions :: "revision list"
  nextRevisionId :: int

definition newJournal :: journal where
  "newJournal = \<lparr> j_entries = [], j_dirties = [] \<rparr>"

definition mark_dirty :: "address \<Rightarrow> journal \<Rightarrow> journal" where
  "mark_dirty a j =
    j\<lparr> j_dirties := map_put a ((case map_get (j_dirties j) a of None \<Rightarrow> 0 | Some n \<Rightarrow> n) + 1) (j_dirties j) \<rparr>"

definition journal_append :: "journalEntry \<Rightarrow> StateDB_state \<Rightarrow> StateDB_state" where
  "journal_append e s =
    (let j = (s_journal s)\<lparr> j_entries := j_entries (s_journal s) @ [e] \<rparr> in
     s\<lparr> s_journal := (case dirtied e of None \<Rightarrow> j | Some a \<Rightarrow> mark_dirty a j) \<rparr>)"

definition unmark_dirty :: "address \<Rightarrow> journal \<Rightarrow> journal" where
  "unmark_dirty a j =
    (let n = (case map_get (j_dirties j) a of None \<Rightarrow> 0 | Some n \<Rightarrow> n) - 1;
         d = map_put a n (j_dirties j) in
     j\<lparr> j_dirties := (if n = 0 then map_del a d else d) \<rparr>)"

section \<open>Retrieving and creating objects\<close>

definition setStateObject :: "stateObject \<Rightarrow> StateDB_state \<Rightarrow> StateDB_state" where
  "setStateObject obj s = s\<lparr> stateObjects := map_put (so_address obj) obj (stateObjects s) \<rparr>"

definition getStateObject :: "state_env \<Rightarrow> address \<Rightarrow> StateDB_state \<Rightarrow> stateObject option \<times> trie_error option \<times> StateDB_state" where
  "getStateObject env addr s =
    (case map_get (stateObjects s) addr of
       Some obj \<Rightarrow> (if deleted obj then None else Some obj, None, s)
     | None \<Rightarrow>
         (case sec_TryGet env (Address_Bytes addr) (s_trie s) of (blob, err, t) \<Rightarrow>
            (let s1 = s\<lparr> s_trie := t \<rparr> in
             if length blob = 0 then (None, err, s1)
             else case s_decode env blob of
               None \<Rightarrow> (None, None, s1)
             | Some data \<Rightarrow>
                 (let obj = newObject env addr data in (Some obj, None, setStateObject obj s1)))))"

definition zeroAccount :: Account where
  "zeroAccount = \<lparr> acc_Nonce = 0, acc_Balance = 0, acc_Root = 0, acc_CodeHash = 0 \<rparr>"

definition createObject :: "state_env \<Rightarrow> address \<Rightarrow> StateDB_state \<Rightarrow> stateObject \<times> stateObject option \<times> StateDB_state" where
  "createObject env addr s =
    (case getStateObject env addr s of (prev, _, s1) \<Rightarrow>
       (let newobj = so_setNonce 0 (newObject env addr zeroAccount);
            s2 = (case prev of
                    None \<Rightarrow> journal_append (createObjectChange addr) s1
                  | Some p \<Rightarrow> journal_append (resetObjectChange p) s1) in
        (newobj, prev, setStateObject newobj s2)))"

definition GetOrNewStateObject :: "state_env \<Rightarrow> address \<Rightarrow> StateDB_state \<Rightarrow> stateObject \<times> StateDB_state" where
  "GetOrNewStateObject env addr s =
    (case getStateObject env addr s of
       (Some so, _, s1) \<Rightarrow>
         if deleted so then (case createObject env addr s1 of (so1, _, s2) \<Rightarrow> (so1, s2)) else (so, s1)
     | (None, _, s1) \<Rightarrow> (case createObject env addr s1 of (so, _, s2) \<Rightarrow> (so, s2)))"

definition state_CreateAccount :: "state_env \<Rightarrow> address \<Rightarrow> StateDB_state \<Rightarrow> StateDB_state" where
  "state_CreateAccount env addr s =
    (case createObject env addr s of
       (new, None, s1) \<Rightarrow> s1
     | (new, Some prev, s1) \<Rightarrow> setStateObject (so_setBalance (acc_Balance (so_data prev)) new) s1)"

section \<open>Journaled changes of an object\<close>

definition ripemd :: address where
  "ripemd = 3"

definition so_touch :: "stateObject \<Rightarrow> StateDB_state \<Rightarrow> StateDB_state" where
  "so_touch so s =
    (let s1 = journal_append (touchChange (so_address so)) s in
     if so_address so = ripemd then s1\<lparr> s_journal := mark_dirty (so_address so) (s_journal s1) \<rparr> else s1)"

definition so_SetBalance :: "bigint \<Rightarrow> stateObject \<Rightarrow> StateDB_state \<Rightarrow> StateDB_state" where
  "so_SetBalance amount so s =
    setStateObject (so_setBalance amount so)
      (journal_append (balanceChange (so_address so) (acc_Balance (so_data so))) s)"

definition so_AddBalance :: "state_env \<Rightarrow> bigint \<Rightarrow> stateObject \<Rightarrow> StateDB_state \<Rightarrow> StateDB_state" where
  "so_AddBalance env amount so s =
    (if amount = 0 then (if so_empty env so then so_touch so s else s)
     else so_SetBalance (acc_Balance (so_data so) + amount) so s)"

definition so_SubBalance :: "bigint \<Rightarrow> stateObject \<Rightarrow> StateDB_state \<Rightarrow> StateDB_state" where
  "so_SubBalance amount so s =
    (if amount = 0 then s else so_SetBalance (acc_Balance (so_data so) - amount) so s)"

definition so_SetNonce :: "uint64 \<Rightarrow> stateObject \<Rightarrow> StateDB_state \<Rightarrow> StateDB_state" where
  "so_SetNonce nonce so s =
    setStateObject (so_setNonce nonce so)
      (journal_append (nonceChange (so_address so) (acc_Nonce (so_data so))) s)"

definition so_SetCode :: "state_env \<Rightarrow> hash \<Rightarrow> bytes \<Rightarrow> stateObject \<Rightarrow> StateDB_state \<Rightarrow> StateDB_state" where
  "so_SetCode env codeHash code so s =
    (case so_Code env so of (prevcode, so1) \<Rightarrow>
       setStateObject (so_setCode codeHash (Some code) so1)
         (journal_append (codeChange (so_address so1) prevcode (acc_CodeHash (so_data so1))) s))"

definition so_SetState :: "state_env \<Rightarrow> hash \<Rightarrow> hash \<Rightarrow> stateObject \<Rightarrow> StateDB_state \<Rightarrow> StateDB_state" where
  "so_SetState env key v so s =
    (case so_GetState env key so of (prev, so1) \<Rightarrow>
       if prev = v then setStateObject so1 s
       else setStateObject (so_setState key v so1) (journal_append (storageChange (so_address so1) key prev) s))"

section \<open>Queries\<close>

definition state_Exist :: "state_env \<Rightarrow> address \<Rightarrow> StateDB_state \<Rightarrow> bool \<times> StateDB_state" where
  "state_Exist env addr s = (case getStateObject env addr s of (so, _, s1) \<Rightarrow> (so \<noteq> None, s1))"

definition state_Empty :: "state_env \<Rightarrow> address \<Rightarrow> StateDB_state \<Rightarrow> bool \<times> StateDB_state" where
  "state_Empty env addr s =
    (case getStateObject env addr s of (so, _, s1) \<Rightarrow>
       ((case so of None \<Rightarrow> True | Some o1 \<Rightarrow> so_empty env o1), s1))"

definition state_GetBalance :: "state_env \<Rightarrow> address \<Rightarrow> StateDB_state \<Rightarrow> bigint \<times> StateDB_state" where
  "state_GetBalance env addr s =
    (case getStateObject env addr s of
       (_, Some e, s1) \<Rightarrow> (0, s1)
     | (None, None, s1) \<Rightarrow> (0, s1)
     | (Some so, None, s1) \<Rightarrow> (acc_Balance (so_data so), s1))"

definition state_GetNonce :: "state_env \<Rightarrow> address \<Rightarrow> StateDB_state \<Rightarrow> uint64 \<times> StateDB_state" where
  "state_GetNonce env addr s =
    (case getStateObject env addr s of
       (_, Some e, s1) \<Rightarrow> (0, s1)
     | (None, None, s1) \<Rightarrow> (0, s1)
     | (Some so, None, s1) \<Rightarrow> (acc_Nonce (so_data so), s1))"

text \<open>A nil slice is the empty slice for the callers of \<open>GetCode\<close>.\<close>

definition state_GetCode :: "state_env \<Rightarrow> address \<Rightarrow> StateDB_state \<Rightarrow> bytes \<times> StateDB_state" where
  "state_GetCode env addr s =
    (case getStateObject env addr s of
       (_, Some e, s1) \<Rightarrow> ([], s1)
     | (None, None, s1) \<Rightarrow> ([], s1)
     | (Some so, None, s1) \<Rightarrow>
         (case so_Code env so of (code, so1) \<Rightarrow>
            ((case code of None \<Rightarrow> [] | Some c \<Rightarrow> c), setStateObject so1 s1)))"

text \<open>The cache of code sizes by hash is left out: it remembers the lengths of the codes.\<close>

definition state_GetCodeSize :: "state_env \<Rightarrow> address \<Rightarrow> StateDB_state \<Rightarrow> nat \<times> StateDB_state" where
  "state_GetCodeSize env addr s =
    (case getStateObject env addr s of
       (_, Some e, s1) \<Rightarrow> (0, s1)
     | (None, None, s1) \<Rightarrow> (0, s1)
     | (Some so, None, s1) \<Rightarrow>
         ((case so_code so of
             Some c \<Rightarrow> length c
           | None \<Rightarrow> (case s_code env (acc_CodeHash (so_data so)) of None \<Rightarrow> 0 | Some c \<Rightarrow> length c)), s1))"

definition state_GetCodeHash :: "state_env \<Rightarrow> address \<Rightarrow> StateDB_state \<Rightarrow> hash \<times> StateDB_state" where
  "state_GetCodeHash env addr s =
    (case getStateObject env addr s of
       (_, Some e, s1) \<Rightarrow> (0, s1)
     | (None, None, s1) \<Rightarrow> (0, s1)
     | (Some so, None, s1) \<Rightarrow> (acc_CodeHash (so_data so), s1))"

definition state_GetState :: "state_env \<Rightarrow> address \<Rightarrow> hash \<Rightarrow> StateDB_state \<Rightarrow> hash \<times> StateDB_state" where
  "state_GetState env addr key s =
    (case getStateObject env addr s of
       (_, Some e, s1) \<Rightarrow> (0, s1)
     | (None, None, s1) \<Rightarrow> (0, s1)
     | (Some so, None, s1) \<Rightarrow> (case so_GetState env key so of (v, so1) \<Rightarrow> (v, setStateObject so1 s1)))"

definition state_GetCommittedState :: "state_env \<Rightarrow> address \<Rightarrow> hash \<Rightarrow> StateDB_state \<Rightarrow> hash \<times> StateDB_state" where
  "state_GetCommittedState env addr key s =
    (case getStateObject env addr s of
       (_, Some e, s1) \<Rightarrow> (0, s1)
     | (None, None, s1) \<Rightarrow> (0, s1)
     | (Some so, None, s1) \<Rightarrow> (case so_GetCommittedState env key so of (v, so1) \<Rightarrow> (v, setStateObject so1 s1)))"

definition state_HasSuicided :: "state_env \<Rightarrow> address \<Rightarrow> StateDB_state \<Rightarrow> bool \<times> StateDB_state" where
  "state_HasSuicided env addr s =
    (case getStateObject env addr s of (so, _, s1) \<Rightarrow>
       ((case so of None \<Rightarrow> False | Some o1 \<Rightarrow> suicided o1), s1))"

section \<open>Changes\<close>

definition on_object :: "state_env \<Rightarrow> address \<Rightarrow> (stateObject \<Rightarrow> StateDB_state \<Rightarrow> StateDB_state) \<Rightarrow> StateDB_state \<Rightarrow> StateDB_state" where
  "on_object env addr f s = (case GetOrNewStateObject env addr s of (so, s1) \<Rightarrow> f so s1)"

definition state_AddBalance :: "state_env \<Rightarrow> address \<Rightarrow> bigint \<Rightarrow> StateDB_state \<Rightarrow> StateDB_state" where
  "state_AddBalance env addr amount = on_object env addr (so_AddBalance env amount)"

definition state_SubBalance :: "state_env \<Rightarrow> address \<Rightarrow> bigint \<Rightarrow> StateDB_state \<Rightarrow> StateDB_state" where
  "state_SubBalance env addr amount = on_object env addr (so_SubBalance amount)"

definition state_SetBalance :: "state_env \<Rightarrow> address \<Rightarrow> bigint \<Rightarrow> StateDB_state \<Rightarrow> StateDB_state" where
  "state_SetBalance env addr amount = on_object env addr (so_SetBalance amount)"

definition state_SetNonce :: "state_env \<Rightarrow> address \<Rightarrow> uint64 \<Rightarrow> StateDB_state \<Rightarrow> StateDB_state" where
  "state_SetNonce env addr nonce = on_object env addr (so_SetNonce nonce)"

definition state_SetCode :: "state_env \<Rightarrow> address \<Rightarrow> bytes \<Rightarrow> StateDB_state \<Rightarrow> StateDB_state" where
  "state_SetCode env addr code = on_object env addr (so_SetCode env (s_keccak env code) code)"

definition state_SetState :: "state_env \<Rightarrow> address \<Rightarrow> hash \<Rightarrow> hash \<Rightarrow> StateDB_state \<Rightarrow> StateDB_state" where
  "state_SetState env addr key v = on_object env addr (so_SetState env key v)"

definition state_Suicide :: "state_env \<Rightarrow> address \<Rightarrow> StateDB_state \<Rightarrow> bool \<times> StateDB_state" where
  "state_Suicide env addr s =
    (case getStateObject env addr s of
       (None, _, s1) \<Rightarrow> (False, s1)
     | (Some so, _, s1) \<Rightarrow>
         (True, setStateObject (so_setBalance 0 (so\<lparr> suicided := True \<rparr>))
           (journal_append (suicideChange addr (suicided so) (acc_Balance (so_data so))) s1)))"

definition state_AddLog :: "Log \<Rightarrow> StateDB_state \<Rightarrow> StateDB_state" where
  "state_AddLog log s0 =
    (let s = journal_append (addLogChange (thash s0)) s0;
         log1 = log\<lparr> l_TxHash := thash s, l_BlockHash := bhash s, l_TxIndex := word_of_int (txIndex s), l_Index := logSize s \<rparr>;
         old = (case map_get (s_logs s) (thash s) of None \<Rightarrow> [] | Some ls \<Rightarrow> ls) in
     s\<lparr> s_logs := map_put (thash s) (old @ [log1]) (s_logs s), logSize := logSize s + 1 \<rparr>)"

definition state_AddPreimage :: "hash \<Rightarrow> bytes \<Rightarrow> StateDB_state \<Rightarrow> StateDB_state" where
  "state_AddPreimage h preimage s =
    (if map_has (s_preimages s) h then s
     else (let s1 = journal_append (addPreimageChange h) s in s1\<lparr> s_preimages := map_put h preimage (s_preimages s1) \<rparr>))"

definition state_AddRefund :: "uint64 \<Rightarrow> StateDB_state \<Rightarrow> StateDB_state" where
  "state_AddRefund gas s =
    (let s1 = journal_append (refundChange (s_refund s)) s in s1\<lparr> s_refund := s_refund s1 + gas \<rparr>)"

definition state_SubRefund :: "uint64 \<Rightarrow> StateDB_state \<Rightarrow> StateDB_state exec" where
  "state_SubRefund gas s =
    (let s1 = journal_append (refundChange (s_refund s)) s in
     if gas > s_refund s1 then Inl GoPanic else Inr (s1\<lparr> s_refund := s_refund s1 - gas \<rparr>))"

section \<open>Snapshots\<close>

definition state_Snapshot :: "StateDB_state \<Rightarrow> int \<times> StateDB_state" where
  "state_Snapshot s =
    (let id = nextRevisionId s in
     (id, s\<lparr> nextRevisionId := id + 1,
             validRevisions := validRevisions s @ [\<lparr> rev_id = id, journalIndex = length (j_entries (s_journal s)) \<rparr>] \<rparr>))"

text \<open>An object to be restored; a missing one is a nil pointer.\<close>

definition restore_object :: "state_env \<Rightarrow> address \<Rightarrow> (stateObject \<Rightarrow> stateObject) \<Rightarrow> StateDB_state \<Rightarrow> StateDB_state exec" where
  "restore_object env addr f s =
    (case getStateObject env addr s of
       (_, Some e, s1) \<Rightarrow> Inr s1
     | (None, None, s1) \<Rightarrow> Inl GoPanic
     | (Some so, None, s1) \<Rightarrow> Inr (setStateObject (f so) s1))"

fun entry_revert :: "state_env \<Rightarrow> journalEntry \<Rightarrow> StateDB_state \<Rightarrow> StateDB_state exec" where
  "entry_revert env (createObjectChange a) s =
    Inr (s\<lparr> stateObjects := map_del a (stateObjects s), stateObjectsDirty := map_del a (stateObjectsDirty s) \<rparr>)"
| "entry_revert env (resetObjectChange prev) s = Inr (setStateObject prev s)"
| "entry_revert env (suicideChange a prev prevbalance) s =
    (case getStateObject env a s of
       (Some so, _, s1) \<Rightarrow> Inr (setStateObject (so_setBalance prevbalance (so\<lparr> suicided := prev \<rparr>)) s1)
     | (None, Some e, s1) \<Rightarrow> Inl GoPanic
     | (None, None, s1) \<Rightarrow> Inr s1)"
| "entry_revert env (balanceChange a prev) s = restore_object env a (so_setBalance prev) s"
| "entry_revert env (nonceChange a prev) s = restore_object env a (so_setNonce prev) s"
| "entry_revert env (codeChange a prevcode prevhash) s = restore_object env a (so_setCode prevhash prevcode) s"
| "entry_revert env (storageChange a key prevalue) s = restore_object env a (so_setState key prevalue) s"
| "entry_revert env (refundChange prev) s = Inr (s\<lparr> s_refund := prev \<rparr>)"
| "entry_revert env (addLogChange h) s =
    (let ls = (case map_get (s_logs s) h of None \<Rightarrow> [] | Some ls \<Rightarrow> ls) in
     if length ls = 1 then Inr (s\<lparr> s_logs := map_del h (s_logs s), logSize := logSize s - 1 \<rparr>)
     else if ls = [] then Inl GoPanic
     else Inr (s\<lparr> s_logs := map_put h (butlast ls) (s_logs s), logSize := logSize s - 1 \<rparr>))"
| "entry_revert env (addPreimageChange h) s = Inr (s\<lparr> s_preimages := map_del h (s_preimages s) \<rparr>)"
| "entry_revert env (touchChange a) s = Inr s"

text \<open>The loop of \<open>journal.revert\<close> over the entries to be undone, the last one first.\<close>

fun revert_entries :: "state_env \<Rightarrow> journalEntry list \<Rightarrow> StateDB_state \<Rightarrow> StateDB_state exec" where
  "revert_entries env [] s = Inr s"
| "revert_entries env (e # es) s =
    bind_exec (entry_revert env e s) (\<lambda>s1.
      revert_entries env es
        (case dirtied e of None \<Rightarrow> s1 | Some a \<Rightarrow> s1\<lparr> s_journal := unmark_dirty a (s_journal s1) \<rparr>))"

definition journal_revert :: "state_env \<Rightarrow> nat \<Rightarrow> StateDB_state \<Rightarrow> StateDB_state exec" where
  "journal_revert env snapshot s =
    bind_exec (revert_entries env (rev (drop snapshot (j_entries (s_journal s)))) s) (\<lambda>s1.
      if snapshot > length (j_entries (s_journal s1)) then Inl GoPanic
      else Inr (s1\<lparr> s_journal := (s_journal s1)\<lparr> j_entries := take snapshot (j_entries (s_journal s1)) \<rparr> \<rparr>))"

text \<open>Go's \<open>sort.Search\<close>: the smallest index from \<open>i\<close> to \<open>j\<close> at which \<open>f\<close> holds, by bisection.\<close>

function sort_Search :: "nat \<Rightarrow> nat \<Rightarrow> (nat \<Rightarrow> bool) \<Rightarrow> nat" where
  "sort_Search i j f =
    (if i < j then
       (let h = (i + j) div 2 in if \<not> f h then sort_Search (h + 1) j f else sort_Search i h f)
     else i)"
  by pat_completeness auto

termination by (relation "measure (\<lambda>(i, j, f). j - i)") auto

declare sort_Search.simps [simp del]

definition state_RevertToSnapshot :: "state_env \<Rightarrow> int \<Rightarrow> StateDB_state \<Rightarrow> StateDB_state exec" where
  "state_RevertToSnapshot env revid s =
    (let revs = validRevisions s;
         idx = sort_Search 0 (length revs) (\<lambda>i. rev_id (revs ! i) \<ge> revid) in
     if idx = length revs \<or> rev_id (revs ! idx) \<noteq> revid then Inl GoPanic
     else
       bind_exec (journal_revert env (journalIndex (revs ! idx)) s) (\<lambda>s1.
         Inr (s1\<lparr> validRevisions := take idx (validRevisions s1) \<rparr>)))"

end
