(* ===== verification/State_View.thy ===== *)
theory State_View
  imports State_DB
begin

text \<open>
  What a state means: the accounts as they are seen through the queries, whatever is cached, and the effect of undoing a
  journal entry on them.  Reading fills caches and changes nothing else (\<open>getStateObject_ok\<close>, \<open>so_GetState_ok\<close>).
\<close>

section \<open>Reading tries\<close>

lemma sec_TryGet_ok:
  assumes "trie_rep (s_keccak env) (s_nodes env) (st_trie t) m"
  shows "\<exists>t'. sec_TryGet env key t = (case m (hashKey env key) of None \<Rightarrow> [] | Some v \<Rightarrow> v, None, t') \<and>
    trie_rep (s_keccak env) (s_nodes env) (st_trie t') m"
proof -
  obtain u where "TryGet (s_nodes env) (hashKey env key) (st_trie t) =
      Inr (case m (hashKey env key) of None \<Rightarrow> [] | Some v \<Rightarrow> v, None, u)" "trie_rep (s_keccak env) (s_nodes env) u m"
    using trie_rep_TryGet [OF assms, of "hashKey env key"] by blast
  then show ?thesis by (simp add: sec_TryGet_def)
qed

section \<open>The view of an object\<close>

record acct =
  v_nonce :: uint64
  v_balance :: bigint
  v_codehash :: hash
  v_code :: "bytes option"
  v_storage :: "hash \<Rightarrow> hash"
  v_committed :: "hash \<Rightarrow> hash"
  v_suicided :: bool

definition view_obj :: "state_env \<Rightarrow> stateObject \<Rightarrow> acct" where
  "view_obj env so =
    \<lparr> v_nonce = acc_Nonce (so_data so), v_balance = acc_Balance (so_data so), v_codehash = acc_CodeHash (so_data so),
      v_code = fst (so_Code env so), v_storage = (\<lambda>k. fst (so_GetState env k so)),
      v_committed = (\<lambda>k. fst (so_GetCommittedState env k so)), v_suicided = suicided so \<rparr>"

text \<open>The value of a storage entry, and an object whose storage trie stands for \<open>m\<close>.\<close>

definition storage_value :: "bytes option \<Rightarrow> hash" where
  "storage_value x =
    (case x of None \<Rightarrow> 0 | Some b \<Rightarrow> if b = [] then 0 else (case Split b of Inl e \<Rightarrow> 0 | Inr (_, c, _) \<Rightarrow> BytesToHash c))"

definition obj_rep :: "state_env \<Rightarrow> stateObject \<Rightarrow> (bytes \<Rightarrow> bytes option) \<Rightarrow> bool" where
  "obj_rep env so m \<longleftrightarrow>
    (case so_trie so of
       Some t \<Rightarrow> trie_rep (s_keccak env) (s_nodes env) (st_trie t) m
     | None \<Rightarrow> \<exists>t. NewSecure (s_nodes env) (acc_Root (so_data so)) 0 = Inr t \<and>
         trie_rep (s_keccak env) (s_nodes env) (st_trie t) m) \<and>
    (\<forall>k v. map_get (originStorage so) k = Some v \<longrightarrow> v = storage_value (m (hashKey env (Hash_Bytes k))))"

definition obj_ok :: "state_env \<Rightarrow> stateObject \<Rightarrow> bool" where
  "obj_ok env so \<longleftrightarrow> (\<exists>m. obj_rep env so m)"

lemma BytesToHash_Nil: "BytesToHash [] = 0"
  by (simp add: BytesToHash_eq)

lemma getTrie_ok:
  assumes "obj_rep env so m"
  shows "\<exists>t. getTrie env so = (t, so\<lparr> so_trie := Some t \<rparr>) \<and> trie_rep (s_keccak env) (s_nodes env) (st_trie t) m"
  using assms by (auto simp: obj_rep_def getTrie_def split: option.splits)

lemma setError_eq: "setError e so = so\<lparr> so_dbErr := so_dbErr (setError e so) \<rparr>"
  by (simp add: setError_def)

lemma storage_entry_ok: "\<exists>e. storage_entry (case x of None \<Rightarrow> [] | Some v \<Rightarrow> v) so = (storage_value x, so\<lparr> so_dbErr := e \<rparr>)"
proof -
  have "\<exists>e. so = so\<lparr> so_dbErr := e \<rparr>" by (rule exI [of _ "so_dbErr so"]) simp
  then show ?thesis using setError_eq
    by (auto simp: storage_entry_def storage_value_def BytesToHash_Nil split: option.split sum.split)
qed

lemma so_GetCommittedState_rep:
  assumes "obj_rep env so m"
  shows "\<exists>so'. so_GetCommittedState env key so = (storage_value (m (hashKey env (Hash_Bytes key))), so') \<and> obj_rep env so' m \<and>
    so' = so\<lparr> so_trie := so_trie so', originStorage := originStorage so', so_dbErr := so_dbErr so' \<rparr>"
proof (cases "map_get (originStorage so) key")
  case (Some v)
  then show ?thesis using assms by (auto simp: so_GetCommittedState_def obj_rep_def)
next
  case None
  obtain t where t: "getTrie env so = (t, so\<lparr> so_trie := Some t \<rparr>)" "trie_rep (s_keccak env) (s_nodes env) (st_trie t) m"
    using getTrie_ok [OF assms] by blast
  obtain t1 where t1: "sec_TryGet env (Hash_Bytes key) t =
      (case m (hashKey env (Hash_Bytes key)) of None \<Rightarrow> [] | Some v \<Rightarrow> v, None, t1)" "trie_rep (s_keccak env) (s_nodes env) (st_trie t1) m"
    using sec_TryGet_ok [OF t(2)] by blast
  obtain e where e: "storage_entry (case m (hashKey env (Hash_Bytes key)) of None \<Rightarrow> [] | Some v \<Rightarrow> v) (so\<lparr> so_trie := Some t1 \<rparr>) =
      (storage_value (m (hashKey env (Hash_Bytes key))), so\<lparr> so_trie := Some t1, so_dbErr := e \<rparr>)"
    using storage_entry_ok by blast
  let ?v = "storage_value (m (hashKey env (Hash_Bytes key)))"
  let ?so = "so\<lparr> so_trie := Some t1, so_dbErr := e, originStorage := map_put key ?v (originStorage so) \<rparr>"
  have "so_GetCommittedState env key so = (?v, ?so)"
    using None t(1) t1(1) e by (simp add: so_GetCommittedState_def)
  moreover have "obj_rep env ?so m" using assms t1(2) by (auto simp: obj_rep_def update_conv' split: if_splits)
  ultimately show ?thesis by (intro exI [of _ ?so]) simp
qed

text \<open>Reading leaves the view of an object alone.\<close>

definition same_obj :: "state_env \<Rightarrow> stateObject \<Rightarrow> stateObject \<Rightarrow> bool" where
  "same_obj env so so' \<longleftrightarrow> obj_ok env so' \<and> view_obj env so' = view_obj env so \<and> so_address so' = so_address so \<and>
    deleted so' = deleted so \<and> so_data so' = so_data so"

lemma obj_rep_views:
  assumes "obj_rep env so m"
  shows "fst (so_GetCommittedState env k so) = storage_value (m (hashKey env (Hash_Bytes k)))"
    "fst (so_GetState env k so) =
      (case map_get (dirtyStorage so) k of Some v \<Rightarrow> v | None \<Rightarrow> storage_value (m (hashKey env (Hash_Bytes k))))"
  using so_GetCommittedState_rep [OF assms, of k] by (auto simp: so_GetState_def split: option.split)

lemma view_obj_eqI:
  assumes "obj_rep env so m" "obj_rep env so' m" "so_data so' = so_data so" "so_code so' = so_code so"
    "dirtyStorage so' = dirtyStorage so" "suicided so' = suicided so"
  shows "view_obj env so' = view_obj env so"
  using assms by (auto simp: view_obj_def obj_rep_views [OF assms(1)] obj_rep_views [OF assms(2)] so_Code_def Let_def split: option.split)

lemma so_GetCommittedState_ok:
  assumes "obj_ok env so" "so_GetCommittedState env k so = (v, so')"
  shows "same_obj env so so'" "v = v_committed (view_obj env so) k"
proof -
  obtain m where m: "obj_rep env so m" using assms(1) by (auto simp: obj_ok_def)
  obtain so1 where so1: "so_GetCommittedState env k so = (storage_value (m (hashKey env (Hash_Bytes k))), so1)" "obj_rep env so1 m"
      "so1 = so\<lparr> so_trie := so_trie so1, originStorage := originStorage so1, so_dbErr := so_dbErr so1 \<rparr>"
    using so_GetCommittedState_rep [OF m, of k] by blast
  have f: "so_data so1 = so_data so" "so_code so1 = so_code so" "dirtyStorage so1 = dirtyStorage so" "suicided so1 = suicided so"
      "so_address so1 = so_address so" "deleted so1 = deleted so"
    by (subst so1(3), simp)+
  have "so' = so1" using assms(2) so1(1) by simp
  then show "same_obj env so so'" using view_obj_eqI [OF m so1(2)] so1(2) f by (auto simp: same_obj_def obj_ok_def)
  show "v = v_committed (view_obj env so) k" using assms(2) by (simp add: view_obj_def)
qed

lemma same_obj_refl: "obj_ok env so \<Longrightarrow> same_obj env so so"
  by (simp add: same_obj_def)

lemma so_GetState_ok:
  assumes "obj_ok env so" "so_GetState env k so = (v, so')"
  shows "same_obj env so so'" "v = v_storage (view_obj env so) k"
proof -
  show "same_obj env so so'"
    using assms so_GetCommittedState_ok(1) [OF assms(1)] same_obj_refl [OF assms(1)] by (auto simp: so_GetState_def split: option.splits)
  show "v = v_storage (view_obj env so) k" using assms(2) by (simp add: view_obj_def)
qed

lemma so_Code_ok:
  assumes "obj_ok env so" "so_Code env so = (c, so')"
  shows "same_obj env so so'" "c = v_code (view_obj env so)"
proof -
  obtain m where m: "obj_rep env so m" using assms(1) by (auto simp: obj_ok_def)
  show "c = v_code (view_obj env so)" using assms(2) by (simp add: view_obj_def)
  have r: "obj_rep env so' m" and f: "so_data so' = so_data so" "dirtyStorage so' = dirtyStorage so" "suicided so' = suicided so"
      "so_address so' = so_address so" "deleted so' = deleted so"
    using m assms(2) by (auto simp: so_Code_def obj_rep_def setError_def Let_def split: option.splits if_splits)
  have "fst (so_Code env so') = fst (so_Code env so)"
    using assms(2) f(1) by (auto simp: so_Code_def Let_def setError_def split: option.splits if_splits)
  then have "view_obj env so' = view_obj env so"
    by (auto simp: view_obj_def obj_rep_views [OF m] obj_rep_views [OF r] f)
  then show "same_obj env so so'" using r f by (auto simp: same_obj_def obj_ok_def)
qed

section \<open>The view of a state\<close>

record world =
  w_acc :: "address \<Rightarrow> acct option"
  w_refund :: uint64
  w_logs :: "hash \<Rightarrow> Log list"
  w_logSize :: uint64
  w_preimages :: "hash \<Rightarrow> bytes option"
  w_tx :: "hash \<times> hash \<times> int"

definition view :: "state_env \<Rightarrow> StateDB_state \<Rightarrow> world" where
  "view env s =
    \<lparr> w_acc = (\<lambda>a. map_option (view_obj env) (fst (getStateObject env a s))), w_refund = s_refund s,
      w_logs = (\<lambda>h. case map_get (s_logs s) h of None \<Rightarrow> [] | Some ls \<Rightarrow> ls), w_logSize = logSize s,
      w_preimages = map_get (s_preimages s), w_tx = (thash s, bhash s, txIndex s) \<rparr>"

text \<open>
  The accounts in the account trie, which stands for the map \<open>M\<close>, and a state over it.  An object that was deleted has been
  removed from the trie.
\<close>

definition load_account :: "state_env \<Rightarrow> (bytes \<Rightarrow> bytes option) \<Rightarrow> address \<Rightarrow> Account option" where
  "load_account env M a =
    (case M (hashKey env (Address_Bytes a)) of None \<Rightarrow> None | Some b \<Rightarrow> if b = [] then None else s_decode env b)"

definition base_obj :: "state_env \<Rightarrow> (bytes \<Rightarrow> bytes option) \<Rightarrow> address \<Rightarrow> stateObject option" where
  "base_obj env M a = map_option (newObject env a) (load_account env M a)"

definition state_ok :: "state_env \<Rightarrow> (bytes \<Rightarrow> bytes option) \<Rightarrow> StateDB_state \<Rightarrow> bool" where
  "state_ok env M s \<longleftrightarrow> trie_rep (s_keccak env) (s_nodes env) (st_trie (s_trie s)) M \<and>
    (\<forall>a obj. map_get (stateObjects s) a = Some obj \<longrightarrow>
      obj_ok env obj \<and> so_address obj = a \<and> (deleted obj \<longrightarrow> load_account env M a = None)) \<and>
    (\<forall>a obj. base_obj env M a = Some obj \<longrightarrow> obj_ok env obj)"

definition live_obj :: "state_env \<Rightarrow> (bytes \<Rightarrow> bytes option) \<Rightarrow> StateDB_state \<Rightarrow> address \<Rightarrow> stateObject option" where
  "live_obj env M s a =
    (case map_get (stateObjects s) a of Some obj \<Rightarrow> if deleted obj then None else Some obj | None \<Rightarrow> base_obj env M a)"

lemma newObject_fields [simp]:
  "so_address (newObject env a d) = a" "deleted (newObject env a d) = False" "suicided (newObject env a d) = False"
  by (simp_all add: newObject_def)

lemma getStateObject_eq:
  assumes "state_ok env M s"
  shows "\<exists>t. getStateObject env a s = (live_obj env M s a, None,
      s\<lparr> s_trie := t, stateObjects := (case map_get (stateObjects s) a of
         Some obj \<Rightarrow> stateObjects s
       | None \<Rightarrow> (case base_obj env M a of None \<Rightarrow> stateObjects s | Some obj \<Rightarrow> map_put a obj (stateObjects s))) \<rparr>) \<and>
    trie_rep (s_keccak env) (s_nodes env) (st_trie t) M"
proof (cases "map_get (stateObjects s) a")
  case (Some obj)
  then show ?thesis using assms by (intro exI [of _ "s_trie s"]) (auto simp: getStateObject_def live_obj_def state_ok_def)
next
  case None
  obtain t where t: "sec_TryGet env (Address_Bytes a) (s_trie s) =
      (case M (hashKey env (Address_Bytes a)) of None \<Rightarrow> [] | Some v \<Rightarrow> v, None, t)" "trie_rep (s_keccak env) (s_nodes env) (st_trie t) M"
    using sec_TryGet_ok assms unfolding state_ok_def by blast
  show ?thesis using None t
    by (intro exI [of _ t]) (auto simp: getStateObject_def live_obj_def base_obj_def load_account_def setStateObject_def Let_def split: option.split)
qed

lemma state_ok_live: "state_ok env M s \<Longrightarrow> live_obj env M s a = Some obj \<Longrightarrow> obj_ok env obj \<and> so_address obj = a \<and> \<not> deleted obj"
  by (auto simp: state_ok_def live_obj_def base_obj_def split: option.splits if_splits)

lemma view_acc: "state_ok env M s \<Longrightarrow> w_acc (view env s) a = map_option (view_obj env) (live_obj env M s a)"
  using getStateObject_eq [of env M s a] by (auto simp: view_def)

text \<open>Everything but the objects and the account trie.\<close>

definition same_rest :: "StateDB_state \<Rightarrow> StateDB_state \<Rightarrow> bool" where
  "same_rest s s' \<longleftrightarrow> s' = s\<lparr> s_trie := s_trie s', stateObjects := stateObjects s' \<rparr>"

lemma same_restD:
  assumes "same_rest s s'"
  shows "s_refund s' = s_refund s" "thash s' = thash s" "bhash s' = bhash s" "txIndex s' = txIndex s" "s_logs s' = s_logs s"
    "logSize s' = logSize s" "s_preimages s' = s_preimages s" "s_journal s' = s_journal s"
    "validRevisions s' = validRevisions s" "nextRevisionId s' = nextRevisionId s" "stateObjectsDirty s' = stateObjectsDirty s"
  by (subst assms [unfolded same_rest_def], simp)+

lemma view_eqI:
  assumes "state_ok env M s" "state_ok env M s'" "same_rest s s'"
    "\<And>a. map_option (view_obj env) (live_obj env M s' a) = map_option (view_obj env) (live_obj env M s a)"
  shows "view env s' = view env s"
proof -
  have "w_acc (view env s') = w_acc (view env s)" using view_acc [OF assms(1)] view_acc [OF assms(2)] assms(4) by auto
  then show ?thesis using same_restD [OF assms(3)] by (simp add: view_def)
qed

lemma getStateObject_ok:
  assumes "state_ok env M s" "getStateObject env a s = (so, err, s')"
  shows "so = live_obj env M s a" "err = None" "state_ok env M s'" "view env s' = view env s" "same_rest s s'"
    "live_obj env M s' = live_obj env M s" "so \<noteq> None \<Longrightarrow> map_get (stateObjects s') a = so"
proof -
  obtain t where e: "getStateObject env a s = (live_obj env M s a, None,
      s\<lparr> s_trie := t, stateObjects := (case map_get (stateObjects s) a of
         Some obj \<Rightarrow> stateObjects s
       | None \<Rightarrow> (case base_obj env M a of None \<Rightarrow> stateObjects s | Some obj \<Rightarrow> map_put a obj (stateObjects s))) \<rparr>)"
    and t: "trie_rep (s_keccak env) (s_nodes env) (st_trie t) M"
    using getStateObject_eq [OF assms(1)] by blast
  show so: "so = live_obj env M s a" "err = None" using e assms(2) by auto
  show rest: "same_rest s s'" using e assms(2) by (auto simp: same_rest_def)
  have m: "map_get (stateObjects s') b = (if b = a \<and> map_get (stateObjects s) a = None then base_obj env M a else map_get (stateObjects s) b)" for b
    using e assms(2) by (auto simp: update_conv' split: option.splits)
  show l: "live_obj env M s' = live_obj env M s"
    by (rule ext) (auto simp: live_obj_def m base_obj_def split: option.split)
  have tr: "s_trie s' = t" using e assms(2) by auto
  show ok: "state_ok env M s'"
    using assms(1) t unfolding state_ok_def tr by (auto simp: m base_obj_def split: if_splits)
  show "view env s' = view env s" by (rule view_eqI [OF assms(1) ok rest]) (simp add: l)
  show "so \<noteq> None \<Longrightarrow> map_get (stateObjects s') a = so" using so(1) by (auto simp: m live_obj_def split: option.splits if_splits)
qed

text \<open>Putting an object into the state.\<close>

lemma setStateObject_live:
  "live_obj env M (setStateObject obj s) =
    (live_obj env M s)(so_address obj := (if deleted obj then None else Some obj))"
  by (rule ext) (auto simp: live_obj_def setStateObject_def update_conv')

lemma setStateObject_ok:
  assumes "state_ok env M s" "obj_ok env obj" "\<not> deleted obj"
  shows "state_ok env M (setStateObject obj s)" "same_rest s (setStateObject obj s)"
  using assms by (auto simp: state_ok_def setStateObject_def update_conv' same_rest_def split: if_splits)

lemma setStateObject_view:
  assumes "state_ok env M s" "obj_ok env obj" "\<not> deleted obj"
  shows "view env (setStateObject obj s) = (view env s)\<lparr> w_acc := (w_acc (view env s))(so_address obj \<mapsto> view_obj env obj) \<rparr>"
proof -
  note ok = setStateObject_ok [OF assms]
  have "w_acc (view env (setStateObject obj s)) = (w_acc (view env s))(so_address obj \<mapsto> view_obj env obj)"
    using view_acc [OF assms(1)] view_acc [OF ok(1)] assms(3) by (auto simp: setStateObject_live)
  then show ?thesis using same_restD [OF ok(2)] by (simp add: view_def)
qed

lemma setStateObject_same:
  assumes "state_ok env M s" "live_obj env M s a = Some so" "same_obj env so so'"
  shows "state_ok env M (setStateObject so' s)" "view env (setStateObject so' s) = view env s"
proof -
  note so = state_ok_live [OF assms(1,2)]
  have so': "obj_ok env so'" "\<not> deleted so'" "so_address so' = a" "view_obj env so' = view_obj env so"
    using assms(3) so by (auto simp: same_obj_def)
  show "state_ok env M (setStateObject so' s)" using setStateObject_ok(1) [OF assms(1)] so' by blast
  have "w_acc (view env s) a = Some (view_obj env so)" using view_acc [OF assms(1)] assms(2) by simp
  then show "view env (setStateObject so' s) = view env s"
    using setStateObject_view [OF assms(1) so'(1,2)] so'(3,4) by (simp add: fun_upd_idem)
qed

end
