(* ===== verification/State_Journal.thy ===== *)
theory State_Journal
  imports State_View
begin

text \<open>
  The journal undoes what the operations did: every operation appends entries whose reverts, in reverse order, give back
  the world before it (\<open>extends\<close>), and reverting an entry of a state acts on the world as \<open>undo\<close> does (\<open>entry_revert_ok\<close>).
\<close>

section \<open>Undoing an entry\<close>

definition resolved_code :: "state_env \<Rightarrow> bytes option \<Rightarrow> hash \<Rightarrow> bytes option" where
  "resolved_code env c h = (case c of Some x \<Rightarrow> Some x | None \<Rightarrow> if h = emptyCodeHash env then None else s_code env h)"

definition upd_acct :: "address \<Rightarrow> (acct \<Rightarrow> acct) \<Rightarrow> world \<Rightarrow> world option" where
  "upd_acct a f w =
    (case w_acc w a of None \<Rightarrow> None | Some v \<Rightarrow> Some (w\<lparr> w_acc := (w_acc w)(a \<mapsto> f v) \<rparr>))"

fun undo :: "state_env \<Rightarrow> (bytes \<Rightarrow> bytes option) \<Rightarrow> journalEntry \<Rightarrow> world \<Rightarrow> world option" where
  "undo env M (createObjectChange a) w =
    Some (w\<lparr> w_acc := (w_acc w)(a := map_option (view_obj env) (base_obj env M a)) \<rparr>)"
| "undo env M (resetObjectChange p) w = Some (w\<lparr> w_acc := (w_acc w)(so_address p \<mapsto> view_obj env p) \<rparr>)"
| "undo env M (suicideChange a p b) w = upd_acct a (\<lambda>v. v\<lparr> v_suicided := p, v_balance := b \<rparr>) w"
| "undo env M (balanceChange a b) w = upd_acct a (\<lambda>v. v\<lparr> v_balance := b \<rparr>) w"
| "undo env M (nonceChange a n) w = upd_acct a (\<lambda>v. v\<lparr> v_nonce := n \<rparr>) w"
| "undo env M (codeChange a c h) w = upd_acct a (\<lambda>v. v\<lparr> v_codehash := h, v_code := resolved_code env c h \<rparr>) w"
| "undo env M (storageChange a k x) w = upd_acct a (\<lambda>v. v\<lparr> v_storage := (v_storage v)(k := x) \<rparr>) w"
| "undo env M (refundChange p) w = Some (w\<lparr> w_refund := p \<rparr>)"
| "undo env M (addLogChange h) w =
    (if w_logs w h = [] then None
     else Some (w\<lparr> w_logs := (w_logs w)(h := butlast (w_logs w h)), w_logSize := w_logSize w - 1 \<rparr>))"
| "undo env M (addPreimageChange h) w = Some (w\<lparr> w_preimages := (w_preimages w)(h := None) \<rparr>)"
| "undo env M (touchChange a) w = Some w"

definition entry_ok :: "state_env \<Rightarrow> journalEntry \<Rightarrow> bool" where
  "entry_ok env e \<longleftrightarrow> (\<forall>p. e = resetObjectChange p \<longrightarrow> obj_ok env p \<and> \<not> deleted p)"

text \<open>The changes of the fields of an object.\<close>

lemma obj_ok_set:
  assumes "obj_ok env so"
  shows "obj_ok env (so_setBalance b so)" "obj_ok env (so_setNonce n so)" "obj_ok env (so_setCode h c so)"
    "obj_ok env (so_setState k x so)" "obj_ok env (so\<lparr> suicided := p \<rparr>)"
  using assms by (auto simp: obj_ok_def obj_rep_def so_setBalance_def so_setNonce_def so_setCode_def so_setState_def split: option.splits)

lemma set_fields [simp]:
  "so_address (so_setBalance b so) = so_address so" "so_address (so_setNonce n so) = so_address so"
  "so_address (so_setCode h c so) = so_address so" "so_address (so_setState k x so) = so_address so"
  "deleted (so_setBalance b so) = deleted so" "deleted (so_setNonce n so) = deleted so"
  "deleted (so_setCode h c so) = deleted so" "deleted (so_setState k x so) = deleted so"
  by (simp_all add: so_setBalance_def so_setNonce_def so_setCode_def so_setState_def)

lemma view_obj_cong:
  assumes "obj_ok env so" "so_trie so' = so_trie so" "acc_Root (so_data so') = acc_Root (so_data so)" "originStorage so' = originStorage so"
  shows "fst (so_GetCommittedState env k so') = fst (so_GetCommittedState env k so)"
    "dirtyStorage so' = dirtyStorage so \<Longrightarrow> fst (so_GetState env k so') = fst (so_GetState env k so)"
proof -
  obtain m where m: "obj_rep env so m" using assms(1) by (auto simp: obj_ok_def)
  then have m': "obj_rep env so' m" using assms(2-4) by (simp add: obj_rep_def split: option.splits)
  show "fst (so_GetCommittedState env k so') = fst (so_GetCommittedState env k so)" by (simp add: obj_rep_views [OF m] obj_rep_views [OF m'])
  show "dirtyStorage so' = dirtyStorage so \<Longrightarrow> fst (so_GetState env k so') = fst (so_GetState env k so)"
    by (simp add: obj_rep_views [OF m] obj_rep_views [OF m'])
qed

lemma so_Code_fst: "fst (so_Code env so) = resolved_code env (so_code so) (acc_CodeHash (so_data so))"
  by (simp add: so_Code_def resolved_code_def Let_def split: option.split)

lemma view_obj_update:
  assumes "obj_ok env so" "so_trie so' = so_trie so" "acc_Root (so_data so') = acc_Root (so_data so)"
    "originStorage so' = originStorage so" "dirtyStorage so' = dirtyStorage so"
  shows "view_obj env so' =
    \<lparr> v_nonce = acc_Nonce (so_data so'), v_balance = acc_Balance (so_data so'), v_codehash = acc_CodeHash (so_data so'),
      v_code = resolved_code env (so_code so') (acc_CodeHash (so_data so')), v_storage = v_storage (view_obj env so),
      v_committed = v_committed (view_obj env so), v_suicided = suicided so' \<rparr>"
  unfolding view_obj_def view_obj_cong(1) [OF assms(1-4)] view_obj_cong(2) [OF assms] by (simp add: so_Code_fst)

lemma view_obj_fields:
  "v_nonce (view_obj env so) = acc_Nonce (so_data so)" "v_balance (view_obj env so) = acc_Balance (so_data so)"
  "v_codehash (view_obj env so) = acc_CodeHash (so_data so)" "v_suicided (view_obj env so) = suicided so"
  "v_code (view_obj env so) = resolved_code env (so_code so) (acc_CodeHash (so_data so))"
  by (simp_all add: view_obj_def so_Code_fst)

lemma view_obj_updateI:
  assumes "obj_ok env so" "so_trie so' = so_trie so" "acc_Root (so_data so') = acc_Root (so_data so)"
    "originStorage so' = originStorage so" "dirtyStorage so' = dirtyStorage so"
    "v_nonce v = acc_Nonce (so_data so')" "v_balance v = acc_Balance (so_data so')" "v_codehash v = acc_CodeHash (so_data so')"
    "v_code v = resolved_code env (so_code so') (acc_CodeHash (so_data so'))" "v_storage v = v_storage (view_obj env so)"
    "v_committed v = v_committed (view_obj env so)" "v_suicided v = suicided so'"
  shows "view_obj env so' = v"
  unfolding view_obj_update [OF assms(1-5)] using assms(6-) by (cases v) simp

lemma view_obj_set:
  assumes "obj_ok env so"
  shows "view_obj env (so_setBalance b so) = (view_obj env so)\<lparr> v_balance := b \<rparr>"
    "view_obj env (so_setNonce n so) = (view_obj env so)\<lparr> v_nonce := n \<rparr>"
    "view_obj env (so_setCode h c so) = (view_obj env so)\<lparr> v_codehash := h, v_code := resolved_code env c h \<rparr>"
    "view_obj env (so\<lparr> suicided := p \<rparr>) = (view_obj env so)\<lparr> v_suicided := p \<rparr>"
  by (rule view_obj_updateI [OF assms]; simp add: view_obj_fields so_setBalance_def so_setNonce_def so_setCode_def)+

lemma view_obj_setState:
  assumes "obj_ok env so"
  shows "view_obj env (so_setState k x so) = (view_obj env so)\<lparr> v_storage := (v_storage (view_obj env so))(k := x) \<rparr>"
proof -
  obtain m where m: "obj_rep env so m" using assms by (auto simp: obj_ok_def)
  then have m': "obj_rep env (so_setState k x so) m" by (simp add: obj_rep_def so_setState_def split: option.splits)
  show ?thesis
    using obj_rep_views [OF m' [unfolded so_setState_def]]
    by (auto simp: view_obj_def obj_rep_views [OF m] so_Code_fst so_setState_def update_conv')
qed

text \<open>Reverting an entry of a state undoes it in the world, and leaves the journal and the revisions alone.\<close>

definition reverted :: "state_env \<Rightarrow> (bytes \<Rightarrow> bytes option) \<Rightarrow> StateDB_state \<Rightarrow> world \<Rightarrow> StateDB_state exec \<Rightarrow> bool" where
  "reverted env M s w r \<longleftrightarrow> (\<exists>s'. r = Inr s' \<and> state_ok env M s' \<and> view env s' = w \<and>
    s_journal s' = s_journal s \<and> validRevisions s' = validRevisions s \<and> nextRevisionId s' = nextRevisionId s)"

lemma upd_acct_live:
  assumes "state_ok env M s" "upd_acct a f (view env s) = Some w"
  shows "\<exists>so s1. getStateObject env a s = (Some so, None, s1)"
proof -
  obtain so err s1 where gs: "getStateObject env a s = (so, err, s1)" by (metis prod_cases3)
  then show ?thesis using getStateObject_ok(1,2) [OF assms(1) gs] assms(2) view_acc [OF assms(1), of a]
    by (auto simp: upd_acct_def split: option.splits)
qed

lemma restore_object_ok:
  assumes "state_ok env M s" "upd_acct a f (view env s) = Some w"
    "\<And>so. obj_ok env so \<Longrightarrow> obj_ok env (g so) \<and> view_obj env (g so) = f (view_obj env so) \<and> so_address (g so) = so_address so \<and> deleted (g so) = deleted so"
  shows "reverted env M s w (restore_object env a g s)"
proof -
  obtain so err s1 where gs: "getStateObject env a s = (so, err, s1)" by (metis prod_cases3)
  note g = getStateObject_ok [OF assms(1) gs]
  obtain obj where obj: "so = Some obj" "w = (view env s)\<lparr> w_acc := (w_acc (view env s))(a \<mapsto> f (view_obj env obj)) \<rparr>"
    using assms(2) view_acc [OF assms(1), of a] g(1) by (auto simp: upd_acct_def split: option.splits)
  note o = state_ok_live [OF assms(1), of a obj]
  have lo: "obj_ok env obj" "so_address obj = a" "\<not> deleted obj" using o obj(1) g(1) by auto
  note gg = assms(3) [OF lo(1)]
  have r: "restore_object env a g s = Inr (setStateObject (g obj) s1)" using gs g(2) obj(1) by (simp add: restore_object_def)
  have ok: "state_ok env M (setStateObject (g obj) s1)" "same_rest s1 (setStateObject (g obj) s1)"
    using setStateObject_ok [OF g(3)] gg lo(3) by auto
  have "view env (setStateObject (g obj) s1) = w"
    using setStateObject_view [OF g(3)] gg lo g(4) obj(2) by simp
  then show ?thesis unfolding reverted_def r using ok same_restD [OF ok(2)] same_restD [OF g(5)] by auto
qed

lemma reverted_rest:
  assumes "state_ok env M s" "state_ok env M s'" "view env s' = w" "s_journal s' = s_journal s"
    "validRevisions s' = validRevisions s" "nextRevisionId s' = nextRevisionId s"
  shows "reverted env M s w (Inr s')"
  using assms by (auto simp: reverted_def)

lemma view_other:
  "stateObjects s' = stateObjects s \<Longrightarrow> s_trie s' = s_trie s \<Longrightarrow> w_acc (view env s') = w_acc (view env s)"
  by (auto simp: view_def getStateObject_def Let_def setStateObject_def split: option.split prod.split)

lemma state_ok_other:
  "state_ok env M s \<Longrightarrow> stateObjects s' = stateObjects s \<Longrightarrow> s_trie s' = s_trie s \<Longrightarrow> state_ok env M s'"
  by (simp add: state_ok_def)

lemma entry_revert_ok:
  assumes "state_ok env M s" "entry_ok env e" "undo env M e (view env s) = Some w"
  shows "reverted env M s w (entry_revert env e s)"
proof (cases e)
  case (createObjectChange a)
  let ?s = "s\<lparr> stateObjects := map_del a (stateObjects s), stateObjectsDirty := map_del a (stateObjectsDirty s) \<rparr>"
  have ok: "state_ok env M ?s" using assms(1) by (auto simp: state_ok_def delete_conv' split: if_splits)
  have "live_obj env M ?s = (live_obj env M s)(a := base_obj env M a)"
    by (rule ext) (simp add: live_obj_def delete_conv')
  then have "w_acc (view env ?s) = (w_acc (view env s))(a := map_option (view_obj env) (base_obj env M a))"
    using view_acc [OF assms(1)] view_acc [OF ok] by auto
  then have "view env ?s = w" using assms(3) by (auto simp: createObjectChange view_def)
  then show ?thesis using reverted_rest [OF assms(1) ok] by (simp add: createObjectChange)
next
  case (resetObjectChange p)
  then have p: "obj_ok env p" "\<not> deleted p" using assms(2) by (auto simp: entry_ok_def)
  note ok = setStateObject_ok [OF assms(1) p]
  show ?thesis using reverted_rest [OF assms(1) ok(1)] same_restD [OF ok(2)] setStateObject_view [OF assms(1) p] assms(3)
    by (simp add: resetObjectChange)
next
  case (suicideChange a p b)
  have "reverted env M s w (restore_object env a (\<lambda>so. so_setBalance b (so\<lparr> suicided := p \<rparr>)) s)"
    by (rule restore_object_ok [OF assms(1) assms(3) [unfolded suicideChange undo.simps]]) (simp add: obj_ok_set view_obj_set)
  moreover obtain so s1 where "getStateObject env a s = (Some so, None, s1)"
    using upd_acct_live [OF assms(1) assms(3) [unfolded suicideChange undo.simps]] by blast
  ultimately show ?thesis by (simp add: suicideChange restore_object_def)
next
  case (addLogChange h)
  obtain ls where ls: "map_get (s_logs s) h = Some ls" "ls \<noteq> []" using assms(3)
    by (auto simp: addLogChange view_def split: option.splits if_splits)
  show ?thesis
  proof (cases "length ls = 1")
    case True
    let ?s = "s\<lparr> s_logs := map_del h (s_logs s), logSize := logSize s - 1 \<rparr>"
    have "view env ?s = w" using assms(3) ls True view_other [of ?s s env]
      by (auto simp: addLogChange view_def delete_conv' length_Suc_conv split: if_splits)
    then show ?thesis using reverted_rest [OF assms(1) state_ok_other [OF assms(1)], of ?s] ls True by (simp add: addLogChange)
  next
    case False
    let ?s = "s\<lparr> s_logs := map_put h (butlast ls) (s_logs s), logSize := logSize s - 1 \<rparr>"
    have "view env ?s = w" using assms(3) ls view_other [of ?s s env]
      by (auto simp: addLogChange view_def update_conv' split: if_splits)
    then show ?thesis using reverted_rest [OF assms(1) state_ok_other [OF assms(1)], of ?s] ls False by (simp add: addLogChange)
  qed
next
  case (refundChange p)
  let ?s = "s\<lparr> s_refund := p \<rparr>"
  have "view env ?s = w" using assms(3) view_other [of ?s s env] by (auto simp: refundChange view_def)
  then show ?thesis using reverted_rest [OF assms(1) state_ok_other [OF assms(1)], of ?s] by (simp add: refundChange)
next
  case (addPreimageChange h)
  let ?s = "s\<lparr> s_preimages := map_del h (s_preimages s) \<rparr>"
  have "view env ?s = w" using assms(3) view_other [of ?s s env] by (auto simp: addPreimageChange view_def delete_conv')
  then show ?thesis using reverted_rest [OF assms(1) state_ok_other [OF assms(1)], of ?s] by (simp add: addPreimageChange)
next
  case (touchChange a)
  then show ?thesis using reverted_rest [OF assms(1,1)] assms(3) by simp
next
  case (balanceChange a b)
  show ?thesis unfolding balanceChange entry_revert.simps
    by (rule restore_object_ok [OF assms(1) assms(3) [unfolded balanceChange undo.simps]]) (simp add: obj_ok_set view_obj_set)
next
  case (nonceChange a n)
  show ?thesis unfolding nonceChange entry_revert.simps
    by (rule restore_object_ok [OF assms(1) assms(3) [unfolded nonceChange undo.simps]]) (simp add: obj_ok_set view_obj_set)
next
  case (codeChange a c h)
  show ?thesis unfolding codeChange entry_revert.simps
    by (rule restore_object_ok [OF assms(1) assms(3) [unfolded codeChange undo.simps]]) (simp add: obj_ok_set view_obj_set)
next
  case (storageChange a k x)
  show ?thesis unfolding storageChange entry_revert.simps
    by (rule restore_object_ok [OF assms(1) assms(3) [unfolded storageChange undo.simps]]) (simp add: obj_ok_set view_obj_setState)
qed

end
