(* ===== verification/State_Spec.thy ===== *)
theory State_Spec
  imports State_Journal
begin

text \<open>
  The operations of the state as changes of the world, and that the journaled implementation makes these changes and
  records how to undo them (\<open>makes\<close>).
\<close>

section \<open>The operations on worlds\<close>

definition w_new :: "state_env \<Rightarrow> acct" where
  "w_new env = \<lparr> v_nonce = 0, v_balance = 0, v_codehash = emptyCodeHash env, v_code = None,
    v_storage = (\<lambda>_. 0), v_committed = (\<lambda>_. 0), v_suicided = False \<rparr>"

definition w_put :: "address \<Rightarrow> acct \<Rightarrow> world \<Rightarrow> world" where
  "w_put a v w = w\<lparr> w_acc := (w_acc w)(a \<mapsto> v) \<rparr>"

definition w_ensure :: "state_env \<Rightarrow> address \<Rightarrow> world \<Rightarrow> world" where
  "w_ensure env a w = (if w_acc w a = None then w_put a (w_new env) w else w)"

definition w_mod :: "address \<Rightarrow> (acct \<Rightarrow> acct) \<Rightarrow> world \<Rightarrow> world" where
  "w_mod a f w = (case w_acc w a of None \<Rightarrow> w | Some v \<Rightarrow> w_put a (f v) w)"

definition w_CreateAccount :: "state_env \<Rightarrow> address \<Rightarrow> world \<Rightarrow> world" where
  "w_CreateAccount env a w =
    w_put a ((w_new env)\<lparr> v_balance := (case w_acc w a of None \<Rightarrow> 0 | Some v \<Rightarrow> v_balance v) \<rparr>) w"

definition w_AddBalance :: "state_env \<Rightarrow> address \<Rightarrow> bigint \<Rightarrow> world \<Rightarrow> world" where
  "w_AddBalance env a x w = w_mod a (\<lambda>v. v\<lparr> v_balance := v_balance v + x \<rparr>) (w_ensure env a w)"

definition w_SubBalance :: "state_env \<Rightarrow> address \<Rightarrow> bigint \<Rightarrow> world \<Rightarrow> world" where
  "w_SubBalance env a x w = w_mod a (\<lambda>v. v\<lparr> v_balance := v_balance v - x \<rparr>) (w_ensure env a w)"

definition w_SetBalance :: "state_env \<Rightarrow> address \<Rightarrow> bigint \<Rightarrow> world \<Rightarrow> world" where
  "w_SetBalance env a x w = w_mod a (\<lambda>v. v\<lparr> v_balance := x \<rparr>) (w_ensure env a w)"

definition w_SetNonce :: "state_env \<Rightarrow> address \<Rightarrow> uint64 \<Rightarrow> world \<Rightarrow> world" where
  "w_SetNonce env a n w = w_mod a (\<lambda>v. v\<lparr> v_nonce := n \<rparr>) (w_ensure env a w)"

definition w_SetCode :: "state_env \<Rightarrow> address \<Rightarrow> bytes \<Rightarrow> world \<Rightarrow> world" where
  "w_SetCode env a c w =
    w_mod a (\<lambda>v. v\<lparr> v_codehash := s_keccak env c, v_code := Some c \<rparr>) (w_ensure env a w)"

definition w_SetState :: "state_env \<Rightarrow> address \<Rightarrow> hash \<Rightarrow> hash \<Rightarrow> world \<Rightarrow> world" where
  "w_SetState env a k x w = w_mod a (\<lambda>v. v\<lparr> v_storage := (v_storage v)(k := x) \<rparr>) (w_ensure env a w)"

definition w_Suicide :: "address \<Rightarrow> world \<Rightarrow> world" where
  "w_Suicide a w = w_mod a (\<lambda>v. v\<lparr> v_suicided := True, v_balance := 0 \<rparr>) w"

definition w_AddLog :: "Log \<Rightarrow> world \<Rightarrow> world" where
  "w_AddLog log w =
    (case w_tx w of (th, bh, ti) \<Rightarrow>
       w\<lparr> w_logs := (w_logs w)(th := w_logs w th @
            [log\<lparr> l_TxHash := th, l_BlockHash := bh, l_TxIndex := word_of_int ti, l_Index := w_logSize w \<rparr>]),
          w_logSize := w_logSize w + 1 \<rparr>)"

definition w_AddPreimage :: "hash \<Rightarrow> bytes \<Rightarrow> world \<Rightarrow> world" where
  "w_AddPreimage h b w = (if w_preimages w h \<noteq> None then w else w\<lparr> w_preimages := (w_preimages w)(h \<mapsto> b) \<rparr>)"

section \<open>Changes that can be undone\<close>

fun undo_all :: "state_env \<Rightarrow> (bytes \<Rightarrow> bytes option) \<Rightarrow> journalEntry list \<Rightarrow> world \<Rightarrow> world option" where
  "undo_all env M [] w = Some w"
| "undo_all env M (e # es) w = (case undo env M e w of None \<Rightarrow> None | Some w1 \<Rightarrow> undo_all env M es w1)"

abbreviation entries_of :: "StateDB_state \<Rightarrow> journalEntry list" where
  "entries_of s \<equiv> j_entries (s_journal s)"

definition extends :: "state_env \<Rightarrow> (bytes \<Rightarrow> bytes option) \<Rightarrow> StateDB_state \<Rightarrow> StateDB_state \<Rightarrow> bool" where
  "extends env M s s' \<longleftrightarrow> (\<exists>es. entries_of s' = entries_of s @ es \<and> (\<forall>e \<in> set es. entry_ok env e) \<and>
    undo_all env M (rev es) (view env s') = Some (view env s)) \<and>
    validRevisions s' = validRevisions s \<and> nextRevisionId s' = nextRevisionId s"

definition makes :: "state_env \<Rightarrow> (bytes \<Rightarrow> bytes option) \<Rightarrow> StateDB_state \<Rightarrow> (world \<Rightarrow> world) \<Rightarrow> StateDB_state \<Rightarrow> bool" where
  "makes env M s f s' \<longleftrightarrow> state_ok env M s' \<and> view env s' = f (view env s) \<and> extends env M s s'"

lemma undo_all_append: "undo_all env M (xs @ ys) w = (case undo_all env M xs w of None \<Rightarrow> None | Some w1 \<Rightarrow> undo_all env M ys w1)"
  by (induction xs arbitrary: w) (auto split: option.split)

lemma extends_trans:
  assumes "extends env M s s1" "extends env M s1 s2"
  shows "extends env M s s2"
proof -
  obtain es1 es2 where e: "entries_of s1 = entries_of s @ es1" "entries_of s2 = entries_of s1 @ es2"
      "\<forall>e \<in> set es1. entry_ok env e" "\<forall>e \<in> set es2. entry_ok env e"
      "undo_all env M (rev es1) (view env s1) = Some (view env s)" "undo_all env M (rev es2) (view env s2) = Some (view env s1)"
    using assms by (auto simp: extends_def)
  then have "entries_of s2 = entries_of s @ es1 @ es2" "\<forall>e \<in> set (es1 @ es2). entry_ok env e"
      "undo_all env M (rev (es1 @ es2)) (view env s2) = Some (view env s)"
    by (auto simp: undo_all_append)
  then show ?thesis using assms unfolding extends_def by metis
qed

lemma makes_trans: "makes env M s f s1 \<Longrightarrow> makes env M s1 g s2 \<Longrightarrow> makes env M s (\<lambda>w. g (f w)) s2"
  using extends_trans by (auto simp: makes_def)

lemma makes_cong: "makes env M s f s' \<Longrightarrow> f (view env s) = g (view env s) \<Longrightarrow> makes env M s g s'"
  by (simp add: makes_def)

text \<open>A step that changes caches only.\<close>

lemma makes_same:
  assumes "state_ok env M s'" "view env s' = view env s" "s_journal s' = s_journal s"
    "validRevisions s' = validRevisions s" "nextRevisionId s' = nextRevisionId s"
  shows "makes env M s (\<lambda>w. w) s'"
  using assms by (auto simp: makes_def extends_def)

lemma journal_append_fields [simp]:
  "entries_of (journal_append e s) = entries_of s @ [e]" "validRevisions (journal_append e s) = validRevisions s"
  "nextRevisionId (journal_append e s) = nextRevisionId s" "stateObjects (journal_append e s) = stateObjects s"
  "s_trie (journal_append e s) = s_trie s" "s_refund (journal_append e s) = s_refund s" "thash (journal_append e s) = thash s"
  "bhash (journal_append e s) = bhash s" "txIndex (journal_append e s) = txIndex s" "s_logs (journal_append e s) = s_logs s"
  "logSize (journal_append e s) = logSize s" "s_preimages (journal_append e s) = s_preimages s"
  by (simp_all add: journal_append_def mark_dirty_def Let_def split: option.split)

lemma journal_append_ok:
  "state_ok env M s \<Longrightarrow> state_ok env M (journal_append e s)" "view env (journal_append e s) = view env s"
  "live_obj env M (journal_append e s) = live_obj env M s"
proof -
  show "state_ok env M s \<Longrightarrow> state_ok env M (journal_append e s)" by (rule state_ok_other) simp_all
  have "w_acc (view env (journal_append e s)) = w_acc (view env s)" by (rule view_other) simp_all
  then show "view env (journal_append e s) = view env s" by (simp add: view_def)
  show "live_obj env M (journal_append e s) = live_obj env M s" by (rule ext) (simp add: live_obj_def)
qed

text \<open>A step that appends an entry and puts an object.\<close>

lemma makes_put:
  assumes "state_ok env M s" "obj_ok env so" "\<not> deleted so" "entry_ok env e"
    "undo env M e (w_put (so_address so) (view_obj env so) (view env s)) = Some (view env s)"
  shows "makes env M s (w_put (so_address so) (view_obj env so)) (setStateObject so (journal_append e s))"
proof -
  let ?s = "setStateObject so (journal_append e s)"
  note ok = setStateObject_ok [OF journal_append_ok(1) [OF assms(1), of e] assms(2,3)]
  have v: "view env ?s = w_put (so_address so) (view_obj env so) (view env s)"
    using setStateObject_view [OF journal_append_ok(1) [OF assms(1), of e] assms(2,3)]
    by (simp add: journal_append_ok w_put_def)
  have "entries_of ?s = entries_of s @ [e]" "validRevisions ?s = validRevisions s" "nextRevisionId ?s = nextRevisionId s"
    using same_restD [OF ok(2)] by simp_all
  moreover have "undo_all env M (rev [e]) (view env ?s) = Some (view env s)" using assms(5) v by simp
  ultimately have "extends env M s ?s" using assms(4) unfolding extends_def
    by (metis list.set_intros(1) set_ConsD empty_iff empty_set)
  then show ?thesis using ok(1) v by (simp add: makes_def)
qed

lemma makes_object:
  assumes "state_ok env M s" "live_obj env M s a = Some so" "obj_ok env so'" "so_address so' = a" "\<not> deleted so'"
    "view_obj env so' = f (view_obj env so)" "entry_ok env e"
    "undo env M e = upd_acct a g" "g (f (view_obj env so)) = view_obj env so"
  shows "makes env M s (w_mod a f) (setStateObject so' (journal_append e s))"
proof -
  have v: "w_acc (view env s) a = Some (view_obj env so)" using view_acc [OF assms(1)] assms(2) by simp
  have "undo env M e (w_put (so_address so') (view_obj env so') (view env s)) = Some (view env s)"
    using v assms(4,6,8,9) by (simp add: upd_acct_def w_put_def fun_upd_idem)
  from makes_put [OF assms(1,3,5,7) this] show ?thesis
    by (rule makes_cong) (simp add: w_mod_def v assms(4,6))
qed

section \<open>Retrieving and creating objects\<close>

lemma getStateObject_makes:
  assumes "state_ok env M s" "getStateObject env a s = (so, err, s')"
  shows "makes env M s (\<lambda>w. w) s'"
  using getStateObject_ok [OF assms] same_restD [OF getStateObject_ok(5) [OF assms]] by (intro makes_same) auto

lemma new_object_ok:
  "obj_ok env (newObject env a zeroAccount)" "view_obj env (newObject env a zeroAccount) = w_new env"
  "so_setNonce 0 (newObject env a zeroAccount) = newObject env a zeroAccount"
proof -
  have m: "obj_rep env (newObject env a zeroAccount) Map.empty"
    using empty_trie_rep [of "s_keccak env" "s_nodes env" 0 0]
    by (simp add: obj_rep_def newObject_def zeroAccount_def NewSecure_def trie_New_def)
  then show "obj_ok env (newObject env a zeroAccount)" by (auto simp: obj_ok_def)
  show "view_obj env (newObject env a zeroAccount) = w_new env"
    unfolding view_obj_def w_new_def obj_rep_views [OF m]
    by (simp add: so_Code_fst resolved_code_def storage_value_def newObject_def zeroAccount_def)
  show "so_setNonce 0 (newObject env a zeroAccount) = newObject env a zeroAccount"
    by (simp add: so_setNonce_def newObject_def zeroAccount_def)
qed

lemma live_base: "state_ok env M s \<Longrightarrow> live_obj env M s a = None \<Longrightarrow> base_obj env M a = None"
  by (auto simp: live_obj_def state_ok_def base_obj_def split: option.splits if_splits)

lemma createObject_ok:
  assumes "state_ok env M s" "createObject env a s = (so, prev, s')"
  shows "makes env M s (w_put a (w_new env)) s'" "so = newObject env a zeroAccount" "prev = live_obj env M s a"
    "live_obj env M s' a = Some so"
proof -
  obtain p err s1 where g0: "getStateObject env a s = (p, err, s1)" by (metis prod_cases3)
  note g = getStateObject_ok [OF assms(1) g0]
  let ?n = "newObject env a zeroAccount"
  let ?e = "case p of None \<Rightarrow> createObjectChange a | Some p \<Rightarrow> resetObjectChange p"
  have r: "so = ?n" "prev = p" "s' = setStateObject ?n (journal_append ?e s1)"
    using assms(2) g0 by (auto simp: createObject_def new_object_ok Let_def split: option.splits)
  show "so = ?n" "prev = live_obj env M s a" using r g(1) by auto
  show "live_obj env M s' a = Some so" by (simp add: r setStateObject_live)
  have w: "w_acc (view env s1) a = map_option (view_obj env) p" using view_acc [OF g(3)] g(1,6) by simp
  have eok: "entry_ok env ?e" using g(1) state_ok_live [OF assms(1), of a] by (auto simp: entry_ok_def split: option.splits)
  have "undo env M ?e (w_put a (w_new env) (view env s1)) = Some (view env s1)"
  proof (cases p)
    case None
    then have "base_obj env M a = None" using live_base [OF assms(1)] g(1) by simp
    then show ?thesis using w None by (simp add: w_put_def fun_upd_idem)
  next
    case (Some q)
    then have "so_address q = a" using g(1) state_ok_live [OF assms(1), of a] by auto
    then show ?thesis using w Some by (simp add: w_put_def fun_upd_idem)
  qed
  then have "makes env M s1 (w_put a (w_new env)) s'"
    using makes_put [OF g(3) new_object_ok(1), of a ?e] eok by (simp add: new_object_ok r(3))
  from makes_trans [OF getStateObject_makes [OF assms(1) g0] this] show "makes env M s (w_put a (w_new env)) s'" .
qed

lemma GetOrNewStateObject_ok:
  assumes "state_ok env M s" "GetOrNewStateObject env a s = (so, s')"
  shows "makes env M s (w_ensure env a) s'" "live_obj env M s' a = Some so"
proof -
  obtain p err s1 where g0: "getStateObject env a s = (p, err, s1)" by (metis prod_cases3)
  note g = getStateObject_ok [OF assms(1) g0] and m = getStateObject_makes [OF assms(1) g0]
  have w: "w_acc (view env s) a = map_option (view_obj env) p" using view_acc [OF assms(1)] g(1) by simp
  have "makes env M s (w_ensure env a) s' \<and> live_obj env M s' a = Some so"
  proof (cases p)
    case None
    obtain so1 prev s2 where c: "createObject env a s1 = (so1, prev, s2)" by (metis prod_cases3)
    then have r: "so = so1" "s' = s2" using assms(2) g0 None by (auto simp: GetOrNewStateObject_def)
    note k = createObject_ok [OF g(3) c]
    have "makes env M s (w_ensure env a) s2"
      by (rule makes_cong [OF makes_trans [OF m k(1)]]) (simp add: w_ensure_def w None)
    then show ?thesis using k(2,4) r by simp
  next
    case (Some q)
    then have "\<not> deleted q" using g(1) state_ok_live [OF assms(1), of a] by auto
    then have r: "so = q" "s' = s1" using assms(2) g0 Some by (auto simp: GetOrNewStateObject_def)
    have "makes env M s (w_ensure env a) s1" by (rule makes_cong [OF m]) (simp add: w_ensure_def w Some)
    then show ?thesis using g(1,6) Some r by simp
  qed
  then show "makes env M s (w_ensure env a) s'" "live_obj env M s' a = Some so" by auto
qed

lemma on_object_ok:
  assumes "state_ok env M s"
    "\<And>so s1. state_ok env M s1 \<Longrightarrow> live_obj env M s1 a = Some so \<Longrightarrow> makes env M s1 (w_mod a f) (g so s1)"
  shows "makes env M s (\<lambda>w. w_mod a f (w_ensure env a w)) (on_object env a g s)"
proof -
  obtain so s1 where e: "GetOrNewStateObject env a s = (so, s1)" by (metis prod.exhaust)
  note k = GetOrNewStateObject_ok [OF assms(1) e]
  have "state_ok env M s1" using k(1) by (simp add: makes_def)
  from makes_trans [OF k(1) assms(2) [OF this k(2)]] show ?thesis by (simp add: on_object_def e)
qed

end
