(* ===== verification/State_Refine.thy ===== *)
theory State_Refine
  imports State_Spec
begin

text \<open>
  The journaled state implements the database interface of the virtual machine as a stack of saved worlds does:
  a snapshot saves the world, reverting to it takes the saved world back (\<open>statedb_refines\<close>).
\<close>

section \<open>The operations make their changes\<close>

lemma w_put_same: "w_acc w a = Some v \<Longrightarrow> w_put a v w = w"
  by (simp add: w_put_def fun_upd_idem)

lemma makes_touch:
  assumes "state_ok env M s"
  shows "makes env M s (\<lambda>w. w) (so_touch so s)"
proof -
  let ?e = "touchChange (so_address so)"
  have v: "view env (so_touch so s) = view env s" "state_ok env M (so_touch so s)"
    "entries_of (so_touch so s) = entries_of s @ [?e]" "validRevisions (so_touch so s) = validRevisions s"
    "nextRevisionId (so_touch so s) = nextRevisionId s"
  proof -
    have f: "stateObjects (so_touch so s) = stateObjects s" "s_trie (so_touch so s) = s_trie s"
      by (simp_all add: so_touch_def Let_def)
    show "state_ok env M (so_touch so s)" using state_ok_other [OF assms f] .
    show "view env (so_touch so s) = view env s" using view_other [OF f, of env] by (simp add: view_def so_touch_def Let_def)
  qed (simp_all add: so_touch_def mark_dirty_def Let_def)
  have "undo_all env M (rev [?e]) (view env (so_touch so s)) = Some (view env s)" using v(1) by simp
  then have "extends env M s (so_touch so s)" using v(3-5) unfolding extends_def entry_ok_def by fastforce
  then show ?thesis using v by (simp add: makes_def)
qed

lemma makes_id_mod:
  assumes "makes env M s (\<lambda>w. w) s'" "w_acc (view env s) a = Some v" "f v = v"
  shows "makes env M s (w_mod a f) s'"
  by (rule makes_cong [OF assms(1)]) (simp add: w_mod_def assms(2,3) w_put_same)

lemma live_view: "state_ok env M s \<Longrightarrow> live_obj env M s a = Some so \<Longrightarrow> w_acc (view env s) a = Some (view_obj env so)"
  by (simp add: view_acc)

lemma makes_SetBalance:
  assumes "state_ok env M s" "live_obj env M s a = Some so" "f (view_obj env so) = (view_obj env so)\<lparr> v_balance := b \<rparr>"
  shows "makes env M s (w_mod a f) (so_SetBalance b so s)"
proof -
  note so = state_ok_live [OF assms(1,2)]
  show ?thesis unfolding so_SetBalance_def
    by (rule makes_object [OF assms(1,2), where g = "\<lambda>v. v\<lparr> v_balance := acc_Balance (so_data so) \<rparr>"])
      (use so assms(3) in \<open>simp_all add: obj_ok_set view_obj_set entry_ok_def fun_eq_iff, simp add: view_obj_def\<close>)
qed

lemma makes_AddBalance:
  assumes "state_ok env M s" "live_obj env M s a = Some so"
  shows "makes env M s (w_mod a (\<lambda>v. v\<lparr> v_balance := v_balance v + x \<rparr>)) (so_AddBalance env x so s)"
proof (cases "x = 0")
  case True
  have "makes env M s (\<lambda>w. w) (so_AddBalance env x so s)"
    using makes_touch [OF assms(1)] makes_same [OF assms(1)] by (simp add: so_AddBalance_def True)
  from makes_id_mod [OF this live_view [OF assms]] show ?thesis by (simp add: True)
next
  case False
  have "so_AddBalance env x so s = so_SetBalance (acc_Balance (so_data so) + x) so s" using False by (simp add: so_AddBalance_def)
  moreover have "makes env M s (w_mod a (\<lambda>v. v\<lparr> v_balance := v_balance v + x \<rparr>)) (so_SetBalance (acc_Balance (so_data so) + x) so s)"
    by (rule makes_SetBalance [OF assms]) (simp add: view_obj_fields)
  ultimately show ?thesis by simp
qed

lemma makes_SubBalance:
  assumes "state_ok env M s" "live_obj env M s a = Some so"
  shows "makes env M s (w_mod a (\<lambda>v. v\<lparr> v_balance := v_balance v - x \<rparr>)) (so_SubBalance x so s)"
proof (cases "x = 0")
  case True
  have "makes env M s (\<lambda>w. w) (so_SubBalance x so s)" using makes_same [OF assms(1)] by (simp add: so_SubBalance_def True)
  from makes_id_mod [OF this live_view [OF assms]] show ?thesis by (simp add: True)
next
  case False
  have "so_SubBalance x so s = so_SetBalance (acc_Balance (so_data so) - x) so s" using False by (simp add: so_SubBalance_def)
  moreover have "makes env M s (w_mod a (\<lambda>v. v\<lparr> v_balance := v_balance v - x \<rparr>)) (so_SetBalance (acc_Balance (so_data so) - x) so s)"
    by (rule makes_SetBalance [OF assms]) (simp add: view_obj_fields)
  ultimately show ?thesis by simp
qed

lemma makes_SetNonce:
  assumes "state_ok env M s" "live_obj env M s a = Some so"
  shows "makes env M s (w_mod a (\<lambda>v. v\<lparr> v_nonce := n \<rparr>)) (so_SetNonce n so s)"
proof -
  note so = state_ok_live [OF assms]
  show ?thesis unfolding so_SetNonce_def
    by (rule makes_object [OF assms, where g = "\<lambda>v. v\<lparr> v_nonce := acc_Nonce (so_data so) \<rparr>"])
      (use so in \<open>simp_all add: obj_ok_set view_obj_set entry_ok_def fun_eq_iff, simp add: view_obj_def\<close>)
qed

lemma resolved_code_view: "resolved_code env (v_code (view_obj env so)) (acc_CodeHash (so_data so)) = v_code (view_obj env so)"
  by (simp add: view_obj_fields resolved_code_def split: option.split)

lemma makes_SetCode:
  assumes "state_ok env M s" "live_obj env M s a = Some so"
  shows "makes env M s (w_mod a (\<lambda>v. v\<lparr> v_codehash := h, v_code := Some c \<rparr>)) (so_SetCode env h c so s)"
proof -
  note so = state_ok_live [OF assms]
  obtain pc so1 where e: "so_Code env so = (pc, so1)" by (metis prod.exhaust)
  note k = so_Code_ok [OF conjunct1 [OF so] e]
  have so1: "obj_ok env so1" "view_obj env so1 = view_obj env so" "so_address so1 = a" "\<not> deleted so1" "so_data so1 = so_data so"
    using k(1) so by (auto simp: same_obj_def)
  have "makes env M s (w_mod a (\<lambda>v. v\<lparr> v_codehash := h, v_code := Some c \<rparr>))
      (setStateObject (so_setCode h (Some c) so1) (journal_append (codeChange (so_address so1) pc (acc_CodeHash (so_data so1))) s))"
    by (rule makes_object [OF assms, where g = "\<lambda>v. v\<lparr> v_codehash := acc_CodeHash (so_data so),
          v_code := resolved_code env pc (acc_CodeHash (so_data so)) \<rparr>"])
      (use so1 k(2) resolved_code_view [of env so] in
        \<open>simp_all add: obj_ok_set view_obj_set entry_ok_def fun_eq_iff resolved_code_def [of env "Some c"], simp add: view_obj_def\<close>)
  then show ?thesis by (simp add: so_SetCode_def e)
qed

lemma makes_SetState:
  assumes "state_ok env M s" "live_obj env M s a = Some so"
  shows "makes env M s (w_mod a (\<lambda>v. v\<lparr> v_storage := (v_storage v)(k := x) \<rparr>)) (so_SetState env k x so s)"
proof -
  note so = state_ok_live [OF assms]
  obtain prev so1 where e: "so_GetState env k so = (prev, so1)" by (metis prod.exhaust)
  note g = so_GetState_ok [OF conjunct1 [OF so] e]
  have so1: "obj_ok env so1" "view_obj env so1 = view_obj env so" "so_address so1 = a" "\<not> deleted so1"
    using g(1) so by (auto simp: same_obj_def)
  show ?thesis
  proof (cases "prev = x")
    case True
    note same = setStateObject_same [OF assms g(1)] and rest = same_restD [OF setStateObject_ok(2) [OF assms(1) so1(1,4)]]
    have "makes env M s (\<lambda>w. w) (setStateObject so1 s)" by (rule makes_same) (use same rest in auto)
    from makes_id_mod [OF this live_view [OF assms], of "\<lambda>v. v\<lparr> v_storage := (v_storage v)(k := x) \<rparr>"] show ?thesis
      using True g(2) by (simp add: so_SetState_def e fun_upd_idem)
  next
    case False
    have "makes env M s (w_mod a (\<lambda>v. v\<lparr> v_storage := (v_storage v)(k := x) \<rparr>))
        (setStateObject (so_setState k x so1) (journal_append (storageChange (so_address so1) k prev) s))"
      by (rule makes_object [OF assms, where g = "\<lambda>v. v\<lparr> v_storage := (v_storage v)(k := prev) \<rparr>"])
        (use so1 g(2) in \<open>simp_all add: obj_ok_set view_obj_setState entry_ok_def fun_eq_iff fun_upd_idem\<close>)
    then show ?thesis using False by (simp add: so_SetState_def e)
  qed
qed

lemma state_changes:
  assumes "state_ok env M s"
  shows "makes env M s (w_AddBalance env a x) (state_AddBalance env a x s)"
    "makes env M s (w_SubBalance env a x) (state_SubBalance env a x s)"
    "makes env M s (w_SetNonce env a n) (state_SetNonce env a n s)"
    "makes env M s (w_SetCode env a c) (state_SetCode env a c s)"
    "makes env M s (w_SetState env a k v) (state_SetState env a k v s)"
    "makes env M s (w_SetBalance env a x) (state_SetBalance env a x s)"
proof -
  note on = on_object_ok [OF assms]
  show "makes env M s (w_AddBalance env a x) (state_AddBalance env a x s)"
    unfolding state_AddBalance_def w_AddBalance_def by (rule on) (rule makes_AddBalance)
  show "makes env M s (w_SubBalance env a x) (state_SubBalance env a x s)"
    unfolding state_SubBalance_def w_SubBalance_def by (rule on) (rule makes_SubBalance)
  show "makes env M s (w_SetNonce env a n) (state_SetNonce env a n s)"
    unfolding state_SetNonce_def w_SetNonce_def by (rule on) (rule makes_SetNonce)
  show "makes env M s (w_SetCode env a c) (state_SetCode env a c s)"
    unfolding state_SetCode_def w_SetCode_def by (rule on) (rule makes_SetCode)
  show "makes env M s (w_SetState env a k v) (state_SetState env a k v s)"
    unfolding state_SetState_def w_SetState_def by (rule on) (rule makes_SetState)
  show "makes env M s (w_SetBalance env a x) (state_SetBalance env a x s)"
    unfolding state_SetBalance_def w_SetBalance_def by (rule on) (rule makes_SetBalance, simp_all)
qed

lemma state_CreateAccount_makes:
  assumes "state_ok env M s"
  shows "makes env M s (w_CreateAccount env a) (state_CreateAccount env a s)"
proof -
  obtain new prev s1 where e: "createObject env a s = (new, prev, s1)" by (metis prod_cases3)
  note k = createObject_ok [OF assms e]
  have w: "w_acc (view env s) a = map_option (view_obj env) prev" using view_acc [OF assms] k(3) by simp
  show ?thesis
  proof (cases prev)
    case None
    have "makes env M s (w_CreateAccount env a) s1"
      by (rule makes_cong [OF k(1)]) (simp add: w_CreateAccount_def w None w_new_def)
    then show ?thesis by (simp add: state_CreateAccount_def e None)
  next
    case (Some p)
    let ?b = "acc_Balance (so_data p)"
    let ?n = "so_setBalance ?b new"
    have ok1: "state_ok env M s1" and v1: "view env s1 = w_put a (w_new env) (view env s)" and x: "extends env M s s1"
      using k(1) by (auto simp: makes_def)
    have n: "obj_ok env ?n" "\<not> deleted ?n" "so_address ?n = a" "view_obj env ?n = (w_new env)\<lparr> v_balance := ?b \<rparr>"
      using new_object_ok(1,2) [of env a] by (simp_all add: k(2) obj_ok_set view_obj_set)
    obtain t err where g0: "getStateObject env a s = (Some p, err, t)"
      using getStateObject_ok(1) [OF assms] k(3) Some by (metis prod_cases3)
    note g = getStateObject_ok [OF assms g0]
    have pa: "so_address p = a" "obj_ok env p" "\<not> deleted p" using state_ok_live [OF assms, of a p] k(3) Some by auto
    have s1: "s1 = setStateObject new (journal_append (resetObjectChange p) t)"
      using e g0 k(2) by (auto simp: createObject_def new_object_ok Let_def)
    have sn: "setStateObject ?n s1 = setStateObject ?n (journal_append (resetObjectChange p) t)"
      using k(2) by (simp add: s1 setStateObject_def update_last)
    have "w_acc (view env t) a = Some (view_obj env p)" using w Some g(4) by simp
    then have "undo env M (resetObjectChange p) (w_put (so_address ?n) (view_obj env ?n) (view env t)) = Some (view env t)"
      using n(3) pa(1) by (simp add: w_put_def fun_upd_idem)
    from makes_put [OF g(3) n(1,2) _ this] have "makes env M t (w_put a ((w_new env)\<lparr> v_balance := ?b \<rparr>)) (setStateObject ?n s1)"
      using n(3,4) pa(2,3) by (simp add: sn entry_ok_def)
    from makes_trans [OF getStateObject_makes [OF assms g0] this]
    have "makes env M s (w_CreateAccount env a) (setStateObject ?n s1)"
      by (rule makes_cong) (simp add: w_CreateAccount_def w Some view_obj_fields)
    then show ?thesis by (simp add: state_CreateAccount_def e Some)
  qed
qed

lemma state_Suicide_makes:
  assumes "state_ok env M s" "state_Suicide env a s = (b, s')"
  shows "makes env M s (w_Suicide a) s'" "b \<longleftrightarrow> w_acc (view env s) a \<noteq> None"
proof -
  obtain so err s1 where g0: "getStateObject env a s = (so, err, s1)" by (metis prod_cases3)
  note g = getStateObject_ok [OF assms(1) g0] and m = getStateObject_makes [OF assms(1) g0]
  have w: "w_acc (view env s) a = map_option (view_obj env) so" using view_acc [OF assms(1)] g(1) by simp
  show "b \<longleftrightarrow> w_acc (view env s) a \<noteq> None" using assms(2) g0 w by (auto simp: state_Suicide_def split: option.splits)
  show "makes env M s (w_Suicide a) s'"
  proof (cases so)
    case None
    then have "s' = s1" using assms(2) g0 by (simp add: state_Suicide_def)
    then show ?thesis using makes_cong [OF m, of "w_Suicide a"] by (simp add: w_Suicide_def w_mod_def w None)
  next
    case (Some q)
    have l: "live_obj env M s1 a = Some q" using g(1,6) Some by simp
    note q = state_ok_live [OF g(3) l]
    have "makes env M s1 (w_mod a (\<lambda>v. v\<lparr> v_suicided := True, v_balance := 0 \<rparr>))
        (setStateObject (so_setBalance 0 (q\<lparr> suicided := True \<rparr>)) (journal_append (suicideChange a (suicided q) (acc_Balance (so_data q))) s1))"
      by (rule makes_object [OF g(3) l, where g = "\<lambda>v. v\<lparr> v_suicided := suicided q, v_balance := acc_Balance (so_data q) \<rparr>"])
        (use q in \<open>simp_all add: obj_ok_set view_obj_set entry_ok_def fun_eq_iff, simp add: view_obj_def\<close>)
    then have "makes env M s1 (w_Suicide a) s'" using assms(2) g0 Some by (simp add: state_Suicide_def w_Suicide_def [abs_def])
    from makes_trans [OF m this] show ?thesis .
  qed
qed

text \<open>A change outside the accounts.\<close>

lemma makes_other:
  assumes "state_ok env M s" "stateObjects s' = stateObjects s" "s_trie s' = s_trie s" "entries_of s' = entries_of s @ [e]"
    "validRevisions s' = validRevisions s" "nextRevisionId s' = nextRevisionId s" "view env s' = f (view env s)"
    "undo env M e (f (view env s)) = Some (view env s)" "entry_ok env e"
  shows "makes env M s f s'"
proof -
  have "undo_all env M (rev [e]) (view env s') = Some (view env s)" using assms(7,8) by simp
  then have "extends env M s s'" using assms(4-6,9) unfolding extends_def by fastforce
  then show ?thesis using state_ok_other [OF assms(1-3)] assms(7) by (simp add: makes_def)
qed

lemma view_fields:
  "w_refund (view env s) = s_refund s" "w_logs (view env s) = (\<lambda>h. case map_get (s_logs s) h of None \<Rightarrow> [] | Some ls \<Rightarrow> ls)"
  "w_logSize (view env s) = logSize s" "w_preimages (view env s) = map_get (s_preimages s)"
  "w_tx (view env s) = (thash s, bhash s, txIndex s)"
  by (simp_all add: view_def)

lemma state_AddRefund_makes:
  assumes "state_ok env M s"
  shows "makes env M s (\<lambda>w. w\<lparr> w_refund := w_refund w + g \<rparr>) (state_AddRefund g s)"
    "g \<le> s_refund s \<Longrightarrow> state_SubRefund g s = Inr s' \<Longrightarrow> makes env M s (\<lambda>w. w\<lparr> w_refund := w_refund w - g \<rparr>) s'"
proof -
  let ?s1 = "state_AddRefund g s"
  have "view env ?s1 = (view env s)\<lparr> w_refund := w_refund (view env s) + g \<rparr>"
    by (rule world.equality) (use view_other [of ?s1 s env] in \<open>simp_all add: view_fields state_AddRefund_def Let_def\<close>)
  then show "makes env M s (\<lambda>w. w\<lparr> w_refund := w_refund w + g \<rparr>) ?s1"
    by (intro makes_other [OF assms, where e = "refundChange (s_refund s)"])
      (simp_all add: state_AddRefund_def Let_def entry_ok_def view_fields)
next
  assume g: "g \<le> s_refund s" and s': "state_SubRefund g s = Inr s'"
  then have s': "s' = (journal_append (refundChange (s_refund s)) s)\<lparr> s_refund := s_refund s - g \<rparr>"
    by (auto simp: state_SubRefund_def Let_def split: if_splits)
  have "view env s' = (view env s)\<lparr> w_refund := w_refund (view env s) - g \<rparr>"
    by (rule world.equality) (use view_other [of s' s env] in \<open>simp_all add: view_fields s'\<close>)
  then show "makes env M s (\<lambda>w. w\<lparr> w_refund := w_refund w - g \<rparr>) s'"
    by (intro makes_other [OF assms, where e = "refundChange (s_refund s)"]) (simp_all add: s' entry_ok_def view_fields)
qed

lemma undo_AddLog: "w_tx w = (th, bh, ti) \<Longrightarrow> undo env M (addLogChange th) (w_AddLog l w) = Some w"
  by (auto simp: w_AddLog_def intro!: world.equality)

lemma state_AddLog_makes:
  assumes "state_ok env M s"
  shows "makes env M s (w_AddLog l) (state_AddLog l s)"
proof -
  let ?s1 = "state_AddLog l s"
  have "view env ?s1 = w_AddLog l (view env s)"
    by (rule world.equality)
      (use view_other [of ?s1 s env] in \<open>auto simp: view_fields state_AddLog_def w_AddLog_def Let_def update_conv' fun_eq_iff\<close>)
  then show ?thesis
    by (intro makes_other [OF assms, where e = "addLogChange (thash s)"])
      (simp_all del: undo.simps add: state_AddLog_def Let_def entry_ok_def undo_AddLog view_fields)
qed

lemma state_AddPreimage_makes:
  assumes "state_ok env M s"
  shows "makes env M s (w_AddPreimage h b) (state_AddPreimage h b s)"
proof (cases "map_has (s_preimages s) h")
  case True
  then have "w_preimages (view env s) h \<noteq> None" by (simp add: view_def)
  then show ?thesis using makes_cong [OF makes_same [OF assms, of s], of "w_AddPreimage h b"] True
    by (simp add: w_AddPreimage_def state_AddPreimage_def)
next
  case False
  let ?s1 = "state_AddPreimage h b s"
  have "view env ?s1 = w_AddPreimage h b (view env s)"
    by (rule world.equality)
      (use view_other [of ?s1 s env] False in \<open>auto simp: view_fields state_AddPreimage_def w_AddPreimage_def Let_def update_conv'\<close>)
  then show ?thesis using False
    by (intro makes_other [OF assms, where e = "addPreimageChange h"])
      (simp_all add: state_AddPreimage_def Let_def entry_ok_def view_fields w_AddPreimage_def fun_upd_idem)
qed

end
