(* ===== verification/State_Machine.thy ===== *)
theory State_Machine
  imports State_Refine
begin

text \<open>
  The contract of the state towards the virtual machine: a machine on worlds whose snapshots are saved worlds
  (\<open>spec_ops\<close>), and that the journaled state (\<open>statedb_ops\<close>) refines it, snapshots and reverts included.
\<close>

section \<open>The two implementations of the database interface\<close>

definition statedb_ops :: "state_env \<Rightarrow> StateDB_state StateDB_ops" where
  "statedb_ops env =
    \<lparr> db_CreateAccount = state_CreateAccount env, db_SubBalance = state_SubBalance env,
      db_AddBalance = state_AddBalance env, db_GetBalance = state_GetBalance env, db_GetNonce = state_GetNonce env,
      db_SetNonce = state_SetNonce env, db_GetCodeHash = state_GetCodeHash env, db_GetCode = state_GetCode env,
      db_SetCode = state_SetCode env, db_GetCodeSize = state_GetCodeSize env, db_AddRefund = state_AddRefund,
      db_SubRefund = state_SubRefund, db_GetCommittedState = state_GetCommittedState env,
      db_GetState = state_GetState env, db_SetState = state_SetState env,
      db_Suicide = (\<lambda>a s. snd (state_Suicide env a s)), db_HasSuicided = state_HasSuicided env,
      db_Exist = state_Exist env, db_Empty = state_Empty env, db_RevertToSnapshot = state_RevertToSnapshot env,
      db_Snapshot = state_Snapshot, db_AddLog = state_AddLog, db_AddPreimage = state_AddPreimage \<rparr>"

record spec =
  sp_world :: world
  sp_saved :: "(int \<times> world) list"
  sp_next :: int

definition sp_get :: "(world \<Rightarrow> 'a) \<Rightarrow> spec \<Rightarrow> 'a \<times> spec" where
  "sp_get f sp = (f (sp_world sp), sp)"

definition sp_put :: "(world \<Rightarrow> world) \<Rightarrow> spec \<Rightarrow> spec" where
  "sp_put f sp = sp\<lparr> sp_world := f (sp_world sp) \<rparr>"

text \<open>A field of an account, with the value of a missing account.\<close>

definition w_get :: "'a \<Rightarrow> (acct \<Rightarrow> 'a) \<Rightarrow> address \<Rightarrow> world \<Rightarrow> 'a" where
  "w_get d f a w = (case w_acc w a of None \<Rightarrow> d | Some v \<Rightarrow> f v)"

definition v_bytes :: "acct \<Rightarrow> bytes" where
  "v_bytes v = (case v_code v of None \<Rightarrow> [] | Some c \<Rightarrow> c)"

definition v_empty :: "state_env \<Rightarrow> acct \<Rightarrow> bool" where
  "v_empty env v \<longleftrightarrow> v_nonce v = 0 \<and> v_balance v = 0 \<and> v_codehash v = emptyCodeHash env"

definition sp_SubRefund :: "uint64 \<Rightarrow> spec \<Rightarrow> spec exec" where
  "sp_SubRefund g sp =
    (if g > w_refund (sp_world sp) then Inl GoPanic else Inr (sp_put (\<lambda>w. w\<lparr> w_refund := w_refund w - g \<rparr>) sp))"

definition sp_Snapshot :: "spec \<Rightarrow> int \<times> spec" where
  "sp_Snapshot sp = (sp_next sp, sp\<lparr> sp_saved := sp_saved sp @ [(sp_next sp, sp_world sp)], sp_next := sp_next sp + 1 \<rparr>)"

text \<open>The saved world becomes the world; its snapshot and the later ones are gone.\<close>

definition sp_Revert :: "int \<Rightarrow> spec \<Rightarrow> spec exec" where
  "sp_Revert revid sp =
    (case map_of (sp_saved sp) revid of
       None \<Rightarrow> Inl GoPanic
     | Some w \<Rightarrow> Inr (sp\<lparr> sp_world := w, sp_saved := takeWhile (\<lambda>p. fst p \<noteq> revid) (sp_saved sp) \<rparr>))"

definition spec_ops :: "state_env \<Rightarrow> spec StateDB_ops" where
  "spec_ops env =
    \<lparr> db_CreateAccount = (\<lambda>a. sp_put (w_CreateAccount env a)), db_SubBalance = (\<lambda>a x. sp_put (w_SubBalance env a x)),
      db_AddBalance = (\<lambda>a x. sp_put (w_AddBalance env a x)), db_GetBalance = (\<lambda>a. sp_get (w_get 0 v_balance a)),
      db_GetNonce = (\<lambda>a. sp_get (w_get 0 v_nonce a)), db_SetNonce = (\<lambda>a n. sp_put (w_SetNonce env a n)),
      db_GetCodeHash = (\<lambda>a. sp_get (w_get 0 v_codehash a)), db_GetCode = (\<lambda>a. sp_get (w_get [] v_bytes a)),
      db_SetCode = (\<lambda>a c. sp_put (w_SetCode env a c)), db_GetCodeSize = (\<lambda>a. sp_get (w_get 0 (length \<circ> v_bytes) a)),
      db_AddRefund = (\<lambda>g. sp_put (\<lambda>w. w\<lparr> w_refund := w_refund w + g \<rparr>)), db_SubRefund = sp_SubRefund,
      db_GetCommittedState = (\<lambda>a k. sp_get (w_get 0 (\<lambda>v. v_committed v k) a)),
      db_GetState = (\<lambda>a k. sp_get (w_get 0 (\<lambda>v. v_storage v k) a)), db_SetState = (\<lambda>a k x. sp_put (w_SetState env a k x)),
      db_Suicide = (\<lambda>a. sp_put (w_Suicide a)), db_HasSuicided = (\<lambda>a. sp_get (w_get False v_suicided a)),
      db_Exist = (\<lambda>a. sp_get (w_get False (\<lambda>_. True) a)), db_Empty = (\<lambda>a. sp_get (w_get True (v_empty env) a)),
      db_RevertToSnapshot = sp_Revert, db_Snapshot = sp_Snapshot, db_AddLog = (\<lambda>l. sp_put (w_AddLog l)),
      db_AddPreimage = (\<lambda>h b. sp_put (w_AddPreimage h b)) \<rparr>"

section \<open>The refinement relation\<close>

definition revision_ok :: "state_env \<Rightarrow> (bytes \<Rightarrow> bytes option) \<Rightarrow> journalEntry list \<Rightarrow> world \<Rightarrow> revision \<Rightarrow> int \<times> world \<Rightarrow> bool" where
  "revision_ok env M es w r p \<longleftrightarrow> rev_id r = fst p \<and> journalIndex r \<le> length es \<and>
    undo_all env M (rev (drop (journalIndex r) es)) w = Some (snd p)"

text \<open>The database of codes has no other code under the hash of the empty code.\<close>

definition code_db_ok :: "state_env \<Rightarrow> bool" where
  "code_db_ok env \<longleftrightarrow> s_code env (emptyCodeHash env) \<in> {None, Some []}"

definition refines_at :: "state_env \<Rightarrow> (bytes \<Rightarrow> bytes option) \<Rightarrow> StateDB_state \<Rightarrow> spec \<Rightarrow> bool" where
  "refines_at env M s sp \<longleftrightarrow> state_ok env M s \<and> view env s = sp_world sp \<and> nextRevisionId s = sp_next sp \<and>
    (\<forall>e \<in> set (entries_of s). entry_ok env e) \<and>
    list_all2 (revision_ok env M (entries_of s) (view env s)) (validRevisions s) (sp_saved sp) \<and>
    sorted_wrt (<) (map rev_id (validRevisions s)) \<and> (\<forall>r \<in> set (validRevisions s). rev_id r < nextRevisionId s) \<and>
    sorted_wrt (\<le>) (map journalIndex (validRevisions s))"

definition refines :: "state_env \<Rightarrow> StateDB_state \<Rightarrow> spec \<Rightarrow> bool" where
  "refines env s sp \<longleftrightarrow> code_db_ok env \<and> (\<exists>M. refines_at env M s sp)"

lemma refines_atD:
  assumes "refines_at env M s sp"
  shows "state_ok env M s" "view env s = sp_world sp" "nextRevisionId s = sp_next sp" "\<forall>e \<in> set (entries_of s). entry_ok env e"
    "list_all2 (revision_ok env M (entries_of s) (view env s)) (validRevisions s) (sp_saved sp)"
    "sorted_wrt (<) (map rev_id (validRevisions s))" "\<forall>r \<in> set (validRevisions s). rev_id r < nextRevisionId s"
    "sorted_wrt (\<le>) (map journalIndex (validRevisions s))"
  using assms unfolding refines_at_def by blast+

lemma refines_makes:
  assumes "refines_at env M s sp" "makes env M s f s'"
  shows "refines_at env M s' (sp_put f sp)"
proof -
  obtain es where es: "entries_of s' = entries_of s @ es" "\<forall>e \<in> set es. entry_ok env e"
      "undo_all env M (rev es) (view env s') = Some (view env s)"
      "validRevisions s' = validRevisions s" "nextRevisionId s' = nextRevisionId s"
    using assms(2) by (auto simp: makes_def extends_def)
  have "revision_ok env M (entries_of s') (view env s') r p" if "revision_ok env M (entries_of s) (view env s) r p" for r p
    using that es(1,3) by (auto simp: revision_ok_def undo_all_append)
  then have "list_all2 (revision_ok env M (entries_of s') (view env s')) (validRevisions s') (sp_saved sp)"
    unfolding es(4) by (rule list_all2_mono [OF refines_atD(5) [OF assms(1)]])
  then show ?thesis using refines_atD [OF assms(1)] assms(2) es by (auto simp: refines_at_def makes_def sp_put_def)
qed

lemma refines_same: "refines_at env M s sp \<Longrightarrow> makes env M s (\<lambda>w. w) s' \<Longrightarrow> refines_at env M s' sp"
  using refines_makes [of env M s sp "\<lambda>w. w" s'] by (simp add: sp_put_def)

lemma refinesI: "refines env s sp \<Longrightarrow> (\<And>M. state_ok env M s \<Longrightarrow> makes env M s f s') \<Longrightarrow> refines env s' (sp_put f sp)"
  unfolding refines_def using refines_makes refines_at_def by metis

section \<open>Snapshots\<close>

lemma refines_Snapshot:
  assumes "refines_at env M s sp" "state_Snapshot s = (i, s')" "sp_Snapshot sp = (j, sp')"
  shows "i = j" "refines_at env M s' sp'"
proof -
  have e: "i = nextRevisionId s" "j = sp_next sp" "sp' = sp\<lparr> sp_saved := sp_saved sp @ [(sp_next sp, sp_world sp)], sp_next := sp_next sp + 1 \<rparr>"
      "s' = s\<lparr> nextRevisionId := i + 1, validRevisions := validRevisions s @ [\<lparr> rev_id = i, journalIndex = length (entries_of s) \<rparr>] \<rparr>"
    using assms(2,3) by (auto simp: state_Snapshot_def sp_Snapshot_def Let_def)
  show "i = j" using assms(1) e by (simp add: refines_at_def)
  have "w_acc (view env s') = w_acc (view env s)" by (rule view_other) (simp_all add: e(4))
  then have v: "view env s' = view env s" by (intro world.equality) (simp_all add: view_fields e(4))
  have ok: "state_ok env M s'" using assms(1) by (auto simp: refines_at_def e(4) intro: state_ok_other)
  have "revision_ok env M (entries_of s) (view env s) \<lparr> rev_id = i, journalIndex = length (entries_of s) \<rparr> (sp_next sp, sp_world sp)"
    using assms(1) e(1) by (simp add: revision_ok_def refines_at_def)
  moreover have "\<forall>r \<in> set (validRevisions s). journalIndex r \<le> length (entries_of s)"
    using assms(1) unfolding refines_at_def list_all2_conv_all_nth revision_ok_def by (metis in_set_conv_nth)
  ultimately show "refines_at env M s' sp'"
    using assms(1) ok unfolding refines_at_def v
    by (auto simp: e(1,3,4) sorted_wrt_append intro!: list_all2_appendI)
qed

lemma sort_Search_least:
  assumes "i \<le> j" "j \<le> n" "\<And>a b. a \<le> b \<Longrightarrow> b < n \<Longrightarrow> f a \<Longrightarrow> f b" "\<And>a. a < i \<Longrightarrow> \<not> f a" "j < n \<Longrightarrow> f j"
  shows "sort_Search i j f \<le> n \<and> (sort_Search i j f < n \<longrightarrow> f (sort_Search i j f)) \<and> (\<forall>a < sort_Search i j f. \<not> f a)"
  using assms
proof (induction i j f rule: sort_Search.induct)
  case (1 i j f)
  show ?case
  proof (cases "i < j")
    case True
    let ?h = "(i + j) div 2"
    have h: "i \<le> ?h" "?h < j" using True by auto
    show ?thesis
    proof (cases "f ?h")
      case False
      have e: "sort_Search i j f = sort_Search (?h + 1) j f" using sort_Search.simps [of i j f] True False by (simp add: Let_def)
      have b: "\<And>a. a < ?h + 1 \<Longrightarrow> \<not> f a" using "1.prems"(3) [of _ ?h] "1.prems"(2) h(2) False by (auto simp: less_Suc_eq_le)
      show ?thesis unfolding e by (rule "1.IH"(1) [OF True refl False _ "1.prems"(2,3) b "1.prems"(5)]) (use h in auto)
    next
      case f: True
      then have e: "sort_Search i j f = sort_Search i ?h f" using sort_Search.simps [of i j f] True by (simp add: Let_def)
      have nn: "\<not> \<not> f ?h" using f by simp
      show ?thesis unfolding e by (rule "1.IH"(2) [OF True refl nn _ _ "1.prems"(3,4) f]) (use h "1.prems"(2) in auto)
    qed
  next
    case False
    then have "sort_Search i j f = i" "i = j" using "1.prems" by (auto simp: sort_Search.simps)
    then show ?thesis using "1.prems" by auto
  qed
qed

text \<open>The position of a snapshot that is found by its identifier.\<close>

lemma search_revision:
  assumes "sorted_wrt (<) (map rev_id revs)" and r: "r = sort_Search 0 (length revs) (\<lambda>i. rev_id (revs ! i) \<ge> revid)"
  shows "r \<le> length revs" "\<And>a. a < r \<Longrightarrow> rev_id (revs ! a) < revid"
    "(r = length revs \<or> rev_id (revs ! r) \<noteq> revid) \<longleftrightarrow> revid \<notin> rev_id ` set revs"
proof -
  have lt: "rev_id (revs ! a) < rev_id (revs ! b)" if "a < b" "b < length revs" for a b
    using sorted_wrt_nth_less [OF assms(1), of a b] that by simp
  have h: "r \<le> length revs \<and> (r < length revs \<longrightarrow> rev_id (revs ! r) \<ge> revid) \<and> (\<forall>a < r. \<not> rev_id (revs ! a) \<ge> revid)"
    unfolding r
  proof (rule sort_Search_least)
    fix a b assume "a \<le> b" "b < length revs" "revid \<le> rev_id (revs ! a)"
    then show "revid \<le> rev_id (revs ! b)" using lt [of a b] by (cases "a = b") auto
  qed simp_all
  then show "r \<le> length revs" "\<And>a. a < r \<Longrightarrow> rev_id (revs ! a) < revid" by auto
  have eq: "a = r" if "a < length revs" "rev_id (revs ! a) = revid" for a
  proof -
    have "\<not> a < r" using h that(2) by auto
    moreover have "\<not> r < a" using h lt [of r a] that by force
    ultimately show ?thesis by simp
  qed
  show "(r = length revs \<or> rev_id (revs ! r) \<noteq> revid) \<longleftrightarrow> revid \<notin> rev_id ` set revs"
  proof (cases "r < length revs \<and> rev_id (revs ! r) = revid")
    case True
    then have "revid \<in> rev_id ` set revs" by (auto intro!: image_eqI [of _ _ "revs ! r"])
    then show ?thesis using True by simp
  next
    case False
    have "revid \<notin> rev_id ` set revs"
    proof
      assume "revid \<in> rev_id ` set revs"
      then obtain a where "a < length revs" "rev_id (revs ! a) = revid" by (auto simp: in_set_conv_nth)
      then show False using eq False by blast
    qed
    then show ?thesis using False h by auto
  qed
qed

text \<open>Undoing entries.\<close>

lemma revert_entries_ok:
  assumes "state_ok env M s" "\<forall>e \<in> set es. entry_ok env e" "undo_all env M es (view env s) = Some w"
  shows "\<exists>s'. revert_entries env es s = Inr s' \<and> state_ok env M s' \<and> view env s' = w \<and> entries_of s' = entries_of s \<and>
    validRevisions s' = validRevisions s \<and> nextRevisionId s' = nextRevisionId s"
  using assms
proof (induction es arbitrary: s)
  case (Cons e es)
  obtain w1 where w1: "undo env M e (view env s) = Some w1" "undo_all env M es w1 = Some w"
    using Cons.prems(3) by (auto split: option.splits)
  have "reverted env M s w1 (entry_revert env e s)" using Cons.prems w1 by (intro entry_revert_ok) auto
  then obtain s1 where s1: "entry_revert env e s = Inr s1" "state_ok env M s1" "view env s1 = w1" "s_journal s1 = s_journal s"
      "validRevisions s1 = validRevisions s" "nextRevisionId s1 = nextRevisionId s"
    by (auto simp: reverted_def)
  let ?s2 = "case dirtied e of None \<Rightarrow> s1 | Some a \<Rightarrow> s1\<lparr> s_journal := unmark_dirty a (s_journal s1) \<rparr>"
  have e2: "stateObjects ?s2 = stateObjects s1" "s_trie ?s2 = s_trie s1" "entries_of ?s2 = entries_of s1"
      "validRevisions ?s2 = validRevisions s1" "nextRevisionId ?s2 = nextRevisionId s1" "s_refund ?s2 = s_refund s1"
      "thash ?s2 = thash s1" "bhash ?s2 = bhash s1" "txIndex ?s2 = txIndex s1" "s_logs ?s2 = s_logs s1" "logSize ?s2 = logSize s1"
      "s_preimages ?s2 = s_preimages s1"
    by (simp_all add: unmark_dirty_def Let_def split: option.split)
  have "view env ?s2 = view env s1"
    by (rule world.equality) (use view_other [OF e2(1,2), of env] in \<open>simp_all add: view_fields e2\<close>)
  then have "undo_all env M es (view env ?s2) = Some w" using w1(2) s1(3) by simp
  from Cons.IH [OF state_ok_other [OF s1(2) e2(1,2)] _ this] Cons.prems(2)
  show ?case using s1 e2(3-5) by (auto simp: bind_exec_def)
qed simp

lemma revision_ok_take:
  assumes "revision_ok env M es w r p" "journalIndex r \<le> k" "k \<le> length es" "undo_all env M (rev (drop k es)) w = Some w'"
  shows "revision_ok env M (take k es) w' r p"
proof -
  have "drop (journalIndex r) es = drop (journalIndex r) (take k es) @ drop k es"
    using assms(2,3) by (metis append_take_drop_id drop_append length_take min.absorb2 diff_is_0_eq drop0)
  then show ?thesis using assms by (auto simp: revision_ok_def undo_all_append)
qed

lemma journal_revert_ok:
  assumes "refines_at env M s sp" "k \<le> length (entries_of s)" "undo_all env M (rev (drop k (entries_of s))) (view env s) = Some w"
  shows "\<exists>s'. journal_revert env k s = Inr s' \<and> state_ok env M s' \<and> view env s' = w \<and> entries_of s' = take k (entries_of s) \<and>
    validRevisions s' = validRevisions s \<and> nextRevisionId s' = nextRevisionId s"
proof -
  have "\<forall>e \<in> set (rev (drop k (entries_of s))). entry_ok env e" using assms(1) by (auto simp: refines_at_def dest: in_set_dropD)
  then obtain s1 where s1: "revert_entries env (rev (drop k (entries_of s))) s = Inr s1" "state_ok env M s1" "view env s1 = w"
      "entries_of s1 = entries_of s" "validRevisions s1 = validRevisions s" "nextRevisionId s1 = nextRevisionId s"
    using revert_entries_ok [of env M s _ w] assms(1,3) unfolding refines_at_def by blast
  let ?s = "s1\<lparr> s_journal := (s_journal s1)\<lparr> j_entries := take k (j_entries (s_journal s1)) \<rparr> \<rparr>"
  have "view env ?s = view env s1"
    by (rule world.equality) (use view_other [of ?s s1 env] in \<open>simp_all add: view_fields\<close>)
  moreover have "state_ok env M ?s" by (rule state_ok_other [OF s1(2)]) simp_all
  ultimately show ?thesis using s1 assms(2) by (simp add: journal_revert_def bind_exec_def)
qed

lemma revisions_ids:
  assumes "refines_at env M s sp"
  shows "map fst (sp_saved sp) = map rev_id (validRevisions s)" "distinct (map fst (sp_saved sp))"
proof -
  have l: "list_all2 (revision_ok env M (entries_of s) (view env s)) (validRevisions s) (sp_saved sp)"
    by (rule refines_atD(5) [OF assms])
  show m: "map fst (sp_saved sp) = map rev_id (validRevisions s)"
    using l by (auto simp: list_all2_conv_all_nth revision_ok_def intro!: nth_equalityI)
  have "sorted_wrt (<) (map rev_id (validRevisions s))" using assms by (simp add: refines_at_def)
  then show "distinct (map fst (sp_saved sp))" unfolding m by (simp add: strict_sorted_iff)
qed

lemma refines_Revert:
  assumes R: "refines_at env M s sp"
  shows "(state_RevertToSnapshot env i s = Inl GoPanic \<and> sp_Revert i sp = Inl GoPanic) \<or>
    (\<exists>s' sp'. state_RevertToSnapshot env i s = Inr s' \<and> sp_Revert i sp = Inr sp' \<and> refines_at env M s' sp')"
proof -
  define r where "r = sort_Search 0 (length (validRevisions s)) (\<lambda>j. rev_id (validRevisions s ! j) \<ge> i)"
  let ?revs = "validRevisions s"
  have so: "sorted_wrt (<) (map rev_id ?revs)" and ix: "sorted_wrt (\<le>) (map journalIndex ?revs)"
    and la: "list_all2 (revision_ok env M (entries_of s) (view env s)) ?revs (sp_saved sp)"
    by (fact refines_atD(6,8,5) [OF R])+
  note se = search_revision [OF so r_def] and ids = revisions_ids [OF R]
  have len: "length (sp_saved sp) = length ?revs" using la by (simp add: list_all2_lengthD)
  show ?thesis
  proof (cases "i \<in> rev_id ` set ?revs")
    case False
    then have "i \<notin> fst ` set (sp_saved sp)" using ids(1) by (metis list.set_map)
    then have "map_of (sp_saved sp) i = None" by (simp add: map_of_eq_None_iff)
    then show ?thesis using False se(3) by (simp add: state_RevertToSnapshot_def sp_Revert_def Let_def r_def [symmetric])
  next
    case True
    then have r: "r < length ?revs" "rev_id (?revs ! r) = i" using se(1,3) by auto
    define k where "k = journalIndex (?revs ! r)"
    have ok: "revision_ok env M (entries_of s) (view env s) (?revs ! r) (sp_saved sp ! r)" using la r(1) by (simp add: list_all2_conv_all_nth)
    then have k: "k \<le> length (entries_of s)" "undo_all env M (rev (drop k (entries_of s))) (view env s) = Some (snd (sp_saved sp ! r))"
        "fst (sp_saved sp ! r) = i" using r(2) by (auto simp: revision_ok_def k_def)
    have mo: "map_of (sp_saved sp) i = Some (snd (sp_saved sp ! r))"
      using ids(2) k(3) r(1) len by (metis map_of_is_SomeI nth_mem prod.collapse)
    have tw: "takeWhile (\<lambda>p. fst p \<noteq> i) (sp_saved sp) = take r (sp_saved sp)"
      using se(2) r(1) len k(3) arg_cong [OF ids(1), of "\<lambda>l. l ! _"]
      by (intro takeWhile_eq_take_P_nth) (metis nth_map less_irrefl order_less_trans)+
    obtain s1 where s1: "journal_revert env k s = Inr s1" "state_ok env M s1" "view env s1 = snd (sp_saved sp ! r)"
        "entries_of s1 = take k (entries_of s)" "validRevisions s1 = ?revs" "nextRevisionId s1 = nextRevisionId s"
      using journal_revert_ok [OF R k(1,2)] by blast
    let ?s = "s1\<lparr> validRevisions := take r (validRevisions s1) \<rparr>"
    let ?sp = "sp\<lparr> sp_world := snd (sp_saved sp ! r), sp_saved := take r (sp_saved sp) \<rparr>"
    have v: "view env ?s = view env s1"
      by (rule world.equality) (use view_other [of ?s s1 env] in \<open>simp_all add: view_fields\<close>)
    have "journalIndex (?revs ! a) \<le> k" if "a < r" for a
      using sorted_wrt_nth_less [OF ix, of a r] that r(1) by (simp add: k_def)
    then have "revision_ok env M (take k (entries_of s)) (view env ?s) (?revs ! a) (sp_saved sp ! a)" if "a < r" for a
      using revision_ok_take [OF list_all2_nthD [OF la, of a] _ k(1,2)] that r(1) s1(3) v by simp
    then have "list_all2 (revision_ok env M (entries_of ?s) (view env ?s)) (take r ?revs) (take r (sp_saved sp))"
      using r(1) len s1(4) by (simp add: list_all2_conv_all_nth)
    then have "refines_at env M ?s ?sp"
      using R s1 state_ok_other [OF s1(2), of ?s] v so ix unfolding refines_at_def
      by (auto simp: take_map [symmetric] sorted_wrt_take dest: in_set_takeD)
    then show ?thesis using r s1(1) mo tw
      by (auto simp: state_RevertToSnapshot_def sp_Revert_def Let_def r_def [symmetric] k_def [symmetric] bind_exec_def)
  qed
qed

section \<open>Queries\<close>

definition reads :: "state_env \<Rightarrow> StateDB_state \<Rightarrow> (world \<Rightarrow> 'a) \<Rightarrow> 'a \<times> StateDB_state \<Rightarrow> bool" where
  "reads env s f r \<longleftrightarrow> (\<forall>M. state_ok env M s \<longrightarrow> fst r = f (view env s) \<and> makes env M s (\<lambda>w. w) (snd r))"

lemma reads_plain:
  assumes "\<And>so err s1. getStateObject env a s = (so, err, s1) \<Longrightarrow> err = None \<Longrightarrow>
    r = ((case so of None \<Rightarrow> d | Some o1 \<Rightarrow> g o1), s1)" "\<And>o1. obj_ok env o1 \<Longrightarrow> g o1 = f (view_obj env o1)"
  shows "reads env s (w_get d f a) r"
  unfolding reads_def
proof (intro allI impI)
  fix M assume ok: "state_ok env M s"
  obtain so err s1 where g0: "getStateObject env a s = (so, err, s1)" by (metis prod_cases3)
  note g = getStateObject_ok [OF ok g0]
  have w: "w_acc (view env s) a = map_option (view_obj env) so" using view_acc [OF ok] g(1) by simp
  have "obj_ok env o1" if "so = Some o1" for o1 using state_ok_live [OF ok, of a o1] g(1) that by simp
  then have "(case so of None \<Rightarrow> d | Some o1 \<Rightarrow> g o1) = w_get d f a (view env s)"
    using assms(2) by (auto simp: w_get_def w split: option.split)
  then show "fst r = w_get d f a (view env s) \<and> makes env M s (\<lambda>w. w) (snd r)"
    using assms(1) [OF g0 g(2)] getStateObject_makes [OF ok g0] by simp
qed

text \<open>A query that loads something into a cache of the object.\<close>

lemma reads_cached:
  assumes "\<And>so err s1. getStateObject env a s = (so, err, s1) \<Longrightarrow> err = None \<Longrightarrow>
    r = (case so of None \<Rightarrow> (d, s1) | Some o1 \<Rightarrow> (case g o1 of (v, o2) \<Rightarrow> (h v, setStateObject o2 s1)))"
    "\<And>o1 v o2. obj_ok env o1 \<Longrightarrow> g o1 = (v, o2) \<Longrightarrow> h v = f (view_obj env o1) \<and> same_obj env o1 o2"
  shows "reads env s (w_get d f a) r"
  unfolding reads_def
proof (intro allI impI)
  fix M assume ok: "state_ok env M s"
  obtain so err s1 where g0: "getStateObject env a s = (so, err, s1)" by (metis prod_cases3)
  note g = getStateObject_ok [OF ok g0] and m = getStateObject_makes [OF ok g0]
  have w: "w_acc (view env s) a = map_option (view_obj env) so" using view_acc [OF ok] g(1) by simp
  show "fst r = w_get d f a (view env s) \<and> makes env M s (\<lambda>w. w) (snd r)"
  proof (cases so)
    case None
    then show ?thesis using assms(1) [OF g0 g(2)] m w by (simp add: w_get_def)
  next
    case (Some o1)
    obtain v o2 where v: "g o1 = (v, o2)" by fastforce
    have l: "live_obj env M s1 a = Some o1" using g(1,6) Some by simp
    have "h v = f (view_obj env o1)" "same_obj env o1 o2" using assms(2) [OF conjunct1 [OF state_ok_live [OF g(3) l]] v] by auto
    moreover have "makes env M s1 (\<lambda>w. w) (setStateObject o2 s1)"
      using setStateObject_same [OF g(3) l \<open>same_obj env o1 o2\<close>] by (intro makes_same) (auto simp: setStateObject_def)
    ultimately show ?thesis using assms(1) [OF g0 g(2)] makes_trans [OF m] w Some v by (simp add: w_get_def)
  qed
qed

lemma reads_queries:
  "reads env s (w_get 0 v_balance a) (state_GetBalance env a s)"
  "reads env s (w_get 0 v_nonce a) (state_GetNonce env a s)"
  "reads env s (w_get 0 v_codehash a) (state_GetCodeHash env a s)"
  "reads env s (w_get False v_suicided a) (state_HasSuicided env a s)"
  "reads env s (w_get False (\<lambda>_. True) a) (state_Exist env a s)"
  "reads env s (w_get True (v_empty env) a) (state_Empty env a s)"
  subgoal by (rule reads_plain [where g = "\<lambda>o1. acc_Balance (so_data o1)"])
      (simp_all add: state_GetBalance_def view_obj_def split: option.split)
  subgoal by (rule reads_plain [where g = "\<lambda>o1. acc_Nonce (so_data o1)"])
      (simp_all add: state_GetNonce_def view_obj_def split: option.split)
  subgoal by (rule reads_plain [where g = "\<lambda>o1. acc_CodeHash (so_data o1)"])
      (simp_all add: state_GetCodeHash_def view_obj_def split: option.split)
  subgoal by (rule reads_plain [where g = suicided]) (simp_all add: state_HasSuicided_def view_obj_def split: option.split)
  subgoal by (rule reads_plain [where g = "\<lambda>_. True"]) (simp_all add: state_Exist_def split: option.split)
  subgoal by (rule reads_plain [where g = "so_empty env"])
      (simp_all add: state_Empty_def v_empty_def so_empty_def view_obj_def split: option.split)
  done

lemma reads_storage:
  "reads env s (w_get 0 (\<lambda>v. v_storage v k) a) (state_GetState env a k s)"
  "reads env s (w_get 0 (\<lambda>v. v_committed v k) a) (state_GetCommittedState env a k s)"
  "reads env s (w_get [] v_bytes a) (state_GetCode env a s)"
  subgoal by (rule reads_cached [where g = "so_GetState env k" and h = "\<lambda>v. v"])
      (use so_GetState_ok in \<open>simp_all add: state_GetState_def view_obj_def split: option.split prod.split\<close>)
  subgoal by (rule reads_cached [where g = "so_GetCommittedState env k" and h = "\<lambda>v. v"])
      (use so_GetCommittedState_ok in \<open>simp_all add: state_GetCommittedState_def view_obj_def split: option.split prod.split\<close>)
  subgoal by (rule reads_cached [where g = "so_Code env" and h = "\<lambda>c. case c of None \<Rightarrow> [] | Some c \<Rightarrow> c"])
      (use so_Code_ok in \<open>simp_all add: state_GetCode_def view_obj_def v_bytes_def split: option.split prod.split\<close>)
  done

lemma reads_CodeSize: "code_db_ok env \<Longrightarrow> reads env s (w_get 0 (length \<circ> v_bytes) a) (state_GetCodeSize env a s)"
  by (rule reads_plain [where g = "\<lambda>so. case so_code so of Some c \<Rightarrow> length c
      | None \<Rightarrow> (case s_code env (acc_CodeHash (so_data so)) of None \<Rightarrow> 0 | Some c \<Rightarrow> length c)"])
    (auto simp: state_GetCodeSize_def view_obj_def v_bytes_def code_db_ok_def so_Code_def Let_def split: option.split)

lemma refines_reads:
  assumes "refines env s sp" "reads env s f r"
  shows "fst r = f (sp_world sp)" "refines env (snd r) sp"
  using assms refines_same refines_atD(1,2) unfolding refines_def reads_def by metis+

section \<open>The contract as an interface\<close>

text \<open>One database refines another: related states stay related and give the same answers and the same panics.\<close>

abbreviation rel_result :: "('s \<Rightarrow> 't \<Rightarrow> bool) \<Rightarrow> 'a \<times> 's \<Rightarrow> 'a \<times> 't \<Rightarrow> bool" where
  "rel_result R \<equiv> rel_prod (=) R"

abbreviation rel_exec :: "('s \<Rightarrow> 't \<Rightarrow> bool) \<Rightarrow> 's exec \<Rightarrow> 't exec \<Rightarrow> bool" where
  "rel_exec R \<equiv> rel_sum (=) R"

datatype db_call =
    CallCreateAccount address
  | CallSubBalance address bigint
  | CallAddBalance address bigint
  | CallGetBalance address
  | CallGetNonce address
  | CallSetNonce address uint64
  | CallGetCodeHash address
  | CallGetCode address
  | CallSetCode address bytes
  | CallGetCodeSize address
  | CallAddRefund uint64
  | CallSubRefund uint64
  | CallGetCommittedState address hash
  | CallGetState address hash
  | CallSetState address hash hash
  | CallSuicide address
  | CallHasSuicided address
  | CallExist address
  | CallEmpty address
  | CallRevertToSnapshot int
  | CallSnapshot
  | CallAddLog Log
  | CallAddPreimage hash bytes

datatype db_answer = NoAnswer | IntAnswer int | NatAnswer nat | Uint64Answer uint64 | HashAnswer hash | BytesAnswer bytes | BoolAnswer bool

definition answer :: "('a \<Rightarrow> db_answer) \<Rightarrow> 'a \<times> 's \<Rightarrow> (db_answer \<times> 's) exec" where
  "answer f r = Inr (f (fst r), snd r)"

fun db_step :: "'s StateDB_ops \<Rightarrow> db_call \<Rightarrow> 's \<Rightarrow> (db_answer \<times> 's) exec" where
  "db_step ops (CallCreateAccount a) s = Inr (NoAnswer, db_CreateAccount ops a s)"
| "db_step ops (CallSubBalance a x) s = Inr (NoAnswer, db_SubBalance ops a x s)"
| "db_step ops (CallAddBalance a x) s = Inr (NoAnswer, db_AddBalance ops a x s)"
| "db_step ops (CallGetBalance a) s = answer IntAnswer (db_GetBalance ops a s)"
| "db_step ops (CallGetNonce a) s = answer Uint64Answer (db_GetNonce ops a s)"
| "db_step ops (CallSetNonce a n) s = Inr (NoAnswer, db_SetNonce ops a n s)"
| "db_step ops (CallGetCodeHash a) s = answer HashAnswer (db_GetCodeHash ops a s)"
| "db_step ops (CallGetCode a) s = answer BytesAnswer (db_GetCode ops a s)"
| "db_step ops (CallSetCode a c) s = Inr (NoAnswer, db_SetCode ops a c s)"
| "db_step ops (CallGetCodeSize a) s = answer NatAnswer (db_GetCodeSize ops a s)"
| "db_step ops (CallAddRefund g) s = Inr (NoAnswer, db_AddRefund ops g s)"
| "db_step ops (CallSubRefund g) s = bind_exec (db_SubRefund ops g s) (\<lambda>s1. Inr (NoAnswer, s1))"
| "db_step ops (CallGetCommittedState a k) s = answer HashAnswer (db_GetCommittedState ops a k s)"
| "db_step ops (CallGetState a k) s = answer HashAnswer (db_GetState ops a k s)"
| "db_step ops (CallSetState a k x) s = Inr (NoAnswer, db_SetState ops a k x s)"
| "db_step ops (CallSuicide a) s = Inr (NoAnswer, db_Suicide ops a s)"
| "db_step ops (CallHasSuicided a) s = answer BoolAnswer (db_HasSuicided ops a s)"
| "db_step ops (CallExist a) s = answer BoolAnswer (db_Exist ops a s)"
| "db_step ops (CallEmpty a) s = answer BoolAnswer (db_Empty ops a s)"
| "db_step ops (CallRevertToSnapshot i) s = bind_exec (db_RevertToSnapshot ops i s) (\<lambda>s1. Inr (NoAnswer, s1))"
| "db_step ops CallSnapshot s = answer IntAnswer (db_Snapshot ops s)"
| "db_step ops (CallAddLog l) s = Inr (NoAnswer, db_AddLog ops l s)"
| "db_step ops (CallAddPreimage h b) s = Inr (NoAnswer, db_AddPreimage ops h b s)"

text \<open>A sequence of calls, with the answers.\<close>

fun db_run :: "'s StateDB_ops \<Rightarrow> db_call list \<Rightarrow> 's \<Rightarrow> (db_answer list \<times> 's) exec" where
  "db_run ops [] s = Inr ([], s)"
| "db_run ops (c # cs) s =
    bind_exec (db_step ops c s) (\<lambda>(v, s1). bind_exec (db_run ops cs s1) (\<lambda>(vs, s2). Inr (v # vs, s2)))"

locale db_refinement =
  fixes ops :: "'s StateDB_ops" and sops :: "'t StateDB_ops" and R :: "'s \<Rightarrow> 't \<Rightarrow> bool"
  assumes CreateAccount_law: "R s t \<Longrightarrow> R (db_CreateAccount ops a s) (db_CreateAccount sops a t)"
    and SubBalance_law: "R s t \<Longrightarrow> R (db_SubBalance ops a x s) (db_SubBalance sops a x t)"
    and AddBalance_law: "R s t \<Longrightarrow> R (db_AddBalance ops a x s) (db_AddBalance sops a x t)"
    and SetNonce_law: "R s t \<Longrightarrow> R (db_SetNonce ops a n s) (db_SetNonce sops a n t)"
    and SetCode_law: "R s t \<Longrightarrow> R (db_SetCode ops a c s) (db_SetCode sops a c t)"
    and SetState_law: "R s t \<Longrightarrow> R (db_SetState ops a k h s) (db_SetState sops a k h t)"
    and Suicide_law: "R s t \<Longrightarrow> R (db_Suicide ops a s) (db_Suicide sops a t)"
    and AddRefund_law: "R s t \<Longrightarrow> R (db_AddRefund ops g s) (db_AddRefund sops g t)"
    and AddLog_law: "R s t \<Longrightarrow> R (db_AddLog ops l s) (db_AddLog sops l t)"
    and AddPreimage_law: "R s t \<Longrightarrow> R (db_AddPreimage ops k c s) (db_AddPreimage sops k c t)"
    and GetBalance_law: "R s t \<Longrightarrow> rel_result R (db_GetBalance ops a s) (db_GetBalance sops a t)"
    and GetNonce_law: "R s t \<Longrightarrow> rel_result R (db_GetNonce ops a s) (db_GetNonce sops a t)"
    and GetCodeHash_law: "R s t \<Longrightarrow> rel_result R (db_GetCodeHash ops a s) (db_GetCodeHash sops a t)"
    and GetCode_law: "R s t \<Longrightarrow> rel_result R (db_GetCode ops a s) (db_GetCode sops a t)"
    and GetCodeSize_law: "R s t \<Longrightarrow> rel_result R (db_GetCodeSize ops a s) (db_GetCodeSize sops a t)"
    and GetCommittedState_law: "R s t \<Longrightarrow> rel_result R (db_GetCommittedState ops a k s) (db_GetCommittedState sops a k t)"
    and GetState_law: "R s t \<Longrightarrow> rel_result R (db_GetState ops a k s) (db_GetState sops a k t)"
    and HasSuicided_law: "R s t \<Longrightarrow> rel_result R (db_HasSuicided ops a s) (db_HasSuicided sops a t)"
    and Exist_law: "R s t \<Longrightarrow> rel_result R (db_Exist ops a s) (db_Exist sops a t)"
    and Empty_law: "R s t \<Longrightarrow> rel_result R (db_Empty ops a s) (db_Empty sops a t)"
    and Snapshot_law: "R s t \<Longrightarrow> rel_result R (db_Snapshot ops s) (db_Snapshot sops t)"
    and SubRefund_law: "R s t \<Longrightarrow> rel_exec R (db_SubRefund ops g s) (db_SubRefund sops g t)"
    and Revert_law: "R s t \<Longrightarrow> rel_exec R (db_RevertToSnapshot ops i s) (db_RevertToSnapshot sops i t)"
begin

lemma answer_rel: "rel_result R r q \<Longrightarrow> rel_exec (rel_result R) (answer f r) (answer f q)"
  by (auto simp: answer_def rel_prod_sel)

lemma exec_rel: "rel_exec R r q \<Longrightarrow>
    rel_exec (rel_result R) (bind_exec r (\<lambda>s. Inr (NoAnswer, s))) (bind_exec q (\<lambda>s. Inr (NoAnswer, s)))"
  by (cases r; cases q) auto

lemmas laws = CreateAccount_law SubBalance_law AddBalance_law SetNonce_law SetCode_law SetState_law Suicide_law AddRefund_law
  AddLog_law AddPreimage_law

lemmas answer_laws = GetBalance_law GetNonce_law GetCodeHash_law GetCode_law GetCodeSize_law GetCommittedState_law GetState_law
  HasSuicided_law Exist_law Empty_law Snapshot_law

lemma step_refines: "R s t \<Longrightarrow> rel_exec (rel_result R) (db_step ops c s) (db_step sops c t)"
  by (cases c) (auto intro!: answer_rel exec_rel answer_laws SubRefund_law Revert_law laws)

lemma run_refines: "R s t \<Longrightarrow> rel_exec (rel_result R) (db_run ops cs s) (db_run sops cs t)"
proof (induction cs arbitrary: s t)
  case (Cons c cs)
  from step_refines [OF Cons.prems, of c] show ?case
  proof (cases rule: rel_sum.cases)
    case (2 x y)
    obtain v s1 t1 where xy: "x = (v, s1)" "y = (v, t1)" "R s1 t1" using 2(3) by (cases x; cases y) auto
    from Cons.IH [OF xy(3)] show ?thesis using 2 xy by (cases rule: rel_sum.cases) auto
  qed auto
qed simp

end

lemma refines_query: "refines env s sp \<Longrightarrow> reads env s f r \<Longrightarrow> rel_result (refines env) r (sp_get f sp)"
  using refines_reads [of env s sp f r] by (simp add: rel_prod_sel sp_get_def)

lemma refines_snapshot:
  assumes "refines env s sp"
  shows "rel_result (refines env) (state_Snapshot s) (sp_Snapshot sp)"
proof -
  obtain M where M: "refines_at env M s sp" using assms by (auto simp: refines_def)
  obtain i s' j sp' where e: "state_Snapshot s = (i, s')" "sp_Snapshot sp = (j, sp')" by fastforce
  show ?thesis using refines_Snapshot [OF M e] e assms by (auto simp: refines_def)
qed

lemma refines_revert:
  assumes "refines env s sp"
  shows "rel_exec (refines env) (state_RevertToSnapshot env i s) (sp_Revert i sp)"
proof -
  obtain M where M: "refines_at env M s sp" using assms by (auto simp: refines_def)
  from refines_Revert [OF M, of i] show ?thesis
  proof (elim disjE exE conjE)
    fix s' sp' assume "state_RevertToSnapshot env i s = Inr s'" "sp_Revert i sp = Inr sp'" "refines_at env M s' sp'"
    then show ?thesis using assms by (auto simp: refines_def)
  qed simp
qed

lemma refines_SubRefund:
  assumes "refines env s sp"
  shows "rel_exec (refines env) (state_SubRefund g s) (sp_SubRefund g sp)"
proof (cases "g > s_refund s")
  case True
  then have "g > w_refund (sp_world sp)" using assms refines_atD(2) view_fields(1) by (metis refines_def)
  then show ?thesis using True by (simp add: state_SubRefund_def sp_SubRefund_def)
next
  case False
  then obtain s' where s': "state_SubRefund g s = Inr s'" by (simp add: state_SubRefund_def Let_def)
  have "\<not> g > w_refund (sp_world sp)" using assms False refines_atD(2) view_fields(1) by (metis refines_def)
  then have "sp_SubRefund g sp = Inr (sp_put (\<lambda>w. w\<lparr> w_refund := w_refund w - g \<rparr>) sp)" by (simp add: sp_SubRefund_def)
  moreover have "refines env s' (sp_put (\<lambda>w. w\<lparr> w_refund := w_refund w - g \<rparr>) sp)"
    using state_AddRefund_makes(2) s' False by (intro refinesI [OF assms]) simp
  ultimately show ?thesis by (simp add: s')
qed

lemma refines_Suicide: "refines env s sp \<Longrightarrow> refines env (snd (state_Suicide env a s)) (sp_put (w_Suicide a) sp)"
  using state_Suicide_makes(1) by (intro refinesI) (auto simp: prod_eq_iff)

interpretation sdb: db_refinement "statedb_ops env" "spec_ops env" "refines env" for env
proof -
  have "refines env s sp \<Longrightarrow> code_db_ok env" for s sp by (simp add: refines_def)
  then show "db_refinement (statedb_ops env) (spec_ops env) (refines env)"
    by unfold_locales (simp_all add: statedb_ops_def spec_ops_def refinesI state_changes state_CreateAccount_makes
        state_AddRefund_makes(1) state_AddLog_makes state_AddPreimage_makes refines_Suicide refines_SubRefund refines_revert
        refines_snapshot refines_query reads_queries reads_storage reads_CodeSize)
qed

end
