(* ===== verification/State_Commit.thy ===== *)
theory State_Commit
  imports State_DB
begin

text \<open>
  The life cycle of a state (\<open>core/state/statedb.go\<close>, \<open>core/state/database.go\<close>): opening it at a root, copying it, and
  writing its objects back into the account trie at the end of a transaction or a block.  Go iterates over a map in no
  fixed order; the model takes the order of the association list.
\<close>

section \<open>Opening a state\<close>

definition MaxTrieCacheGen :: uint16 where
  "MaxTrieCacheGen = 120"

definition maxPastTries :: nat where
  "maxPastTries = 12"

text \<open>
  The search of \<open>OpenTrie\<close> through the past tries, the last one first; computing a hash caches it in the trie.
\<close>

fun past_trie :: "state_env \<Rightarrow> hash \<Rightarrow> SecureTrie list \<Rightarrow> (SecureTrie option \<times> SecureTrie list) exec" where
  "past_trie env r [] = Inr (None, [])"
| "past_trie env r (t # ts) =
    bind_exec (sec_Hash env t) (\<lambda>(h, t1).
      if h = r then Inr (Some (sec_Copy t1), t1 # ts)
      else bind_exec (past_trie env r ts) (\<lambda>(found, ts1). Inr (found, t1 # ts1)))"

definition OpenTrie :: "state_env \<Rightarrow> hash \<Rightarrow> SecureTrie list \<Rightarrow> ((trie_error + SecureTrie) \<times> SecureTrie list) exec" where
  "OpenTrie env r pastTries =
    bind_exec (past_trie env r (rev pastTries)) (\<lambda>(found, ts).
      Inr (case found of Some t \<Rightarrow> Inr t | None \<Rightarrow> NewSecure (s_nodes env) r MaxTrieCacheGen, rev ts))"

definition pushTrie :: "SecureTrie \<Rightarrow> SecureTrie list \<Rightarrow> SecureTrie list" where
  "pushTrie t pastTries =
    (if length pastTries \<ge> maxPastTries then tl pastTries @ [t] else pastTries @ [t])"

definition state_New :: "state_env \<Rightarrow> hash \<Rightarrow> SecureTrie list \<Rightarrow> ((trie_error + StateDB_state) \<times> SecureTrie list) exec" where
  "state_New env r pastTries =
    bind_exec (OpenTrie env r pastTries) (\<lambda>(tr, ts).
      Inr (case tr of
             Inl e \<Rightarrow> Inl e
           | Inr t \<Rightarrow> Inr \<lparr> s_trie = t, stateObjects = [], stateObjectsDirty = [], s_refund = 0, thash = 0, bhash = 0,
               txIndex = 0, s_logs = [], logSize = 0, s_preimages = [], s_journal = newJournal, validRevisions = [],
               nextRevisionId = 0 \<rparr>, ts))"

definition clearJournalAndRefund :: "StateDB_state \<Rightarrow> StateDB_state" where
  "clearJournalAndRefund s = s\<lparr> s_journal := newJournal, validRevisions := [], s_refund := 0 \<rparr>"

definition state_Reset :: "state_env \<Rightarrow> hash \<Rightarrow> SecureTrie list \<Rightarrow> StateDB_state \<Rightarrow>
    (trie_error option \<times> StateDB_state \<times> SecureTrie list) exec" where
  "state_Reset env r pastTries s =
    bind_exec (OpenTrie env r pastTries) (\<lambda>(tr, ts).
      case tr of
        Inl e \<Rightarrow> Inr (Some e, s, ts)
      | Inr t \<Rightarrow> Inr (None, clearJournalAndRefund (s\<lparr> s_trie := t, stateObjects := [], stateObjectsDirty := [],
          thash := 0, bhash := 0, txIndex := 0, s_logs := [], logSize := 0, s_preimages := [] \<rparr>), ts))"

definition state_Prepare :: "hash \<Rightarrow> hash \<Rightarrow> int \<Rightarrow> StateDB_state \<Rightarrow> StateDB_state" where
  "state_Prepare th bh ti s = s\<lparr> thash := th, bhash := bh, txIndex := ti \<rparr>"

section \<open>Copying\<close>

text \<open>The two loops over the dirty addresses; an address of \<open>stateObjectsDirty\<close> without object is a nil pointer.\<close>

fun copy_dirty :: "state_env \<Rightarrow> (address, stateObject) go_map \<Rightarrow> address list \<Rightarrow> StateDB_state \<Rightarrow> StateDB_state" where
  "copy_dirty env objs [] s = s"
| "copy_dirty env objs (a # as) s =
    copy_dirty env objs as
      (case map_get objs a of
         None \<Rightarrow> s
       | Some obj \<Rightarrow> s\<lparr> stateObjects := map_put a (deepCopy env obj) (stateObjects s),
                       stateObjectsDirty := map_put a () (stateObjectsDirty s) \<rparr>)"

fun copy_rest :: "state_env \<Rightarrow> (address, stateObject) go_map \<Rightarrow> address list \<Rightarrow> StateDB_state \<Rightarrow> StateDB_state exec" where
  "copy_rest env objs [] s = Inr s"
| "copy_rest env objs (a # as) s =
    (if map_has (stateObjects s) a then copy_rest env objs as s
     else case map_get objs a of
       None \<Rightarrow> Inl GoPanic
     | Some obj \<Rightarrow>
         copy_rest env objs as (s\<lparr> stateObjects := map_put a (deepCopy env obj) (stateObjects s),
                                   stateObjectsDirty := map_put a () (stateObjectsDirty s) \<rparr>))"

definition state_Copy :: "state_env \<Rightarrow> StateDB_state \<Rightarrow> StateDB_state exec" where
  "state_Copy env s =
    (let s0 = \<lparr> s_trie = sec_Copy (s_trie s), stateObjects = [], stateObjectsDirty = [], s_refund = s_refund s, thash = 0,
           bhash = 0, txIndex = 0, s_logs = s_logs s, logSize = logSize s, s_preimages = s_preimages s,
           s_journal = newJournal, validRevisions = [], nextRevisionId = 0 \<rparr> in
     copy_rest env (stateObjects s) (map fst (stateObjectsDirty s))
       (copy_dirty env (stateObjects s) (map fst (j_dirties (s_journal s))) s0))"

section \<open>Writing objects into the account trie\<close>

definition updateStateObject :: "state_env \<Rightarrow> stateObject \<Rightarrow> StateDB_state \<Rightarrow> (trie_error option \<times> StateDB_state) exec" where
  "updateStateObject env so s =
    bind_exec (account_MarshalRLP (so_data so)) (\<lambda>r.
      case r of
        Inl e \<Rightarrow> Inl GoPanic
      | Inr buf \<Rightarrow>
          (case sec_TryUpdate env (Address_Bytes (so_address so)) buf (s_trie s) of (err, t) \<Rightarrow>
             Inr (err, s\<lparr> s_trie := t \<rparr>)))"

definition deleteStateObject :: "state_env \<Rightarrow> stateObject \<Rightarrow> StateDB_state \<Rightarrow> trie_error option \<times> StateDB_state" where
  "deleteStateObject env so s =
    (let s1 = setStateObject (so\<lparr> deleted := True \<rparr>) s in
     case sec_TryDelete env (Address_Bytes (so_address so)) (s_trie s1) of (err, t) \<Rightarrow> (err, s1\<lparr> s_trie := t \<rparr>))"

section \<open>Finalising\<close>

definition finalise_object :: "state_env \<Rightarrow> bool \<Rightarrow> stateObject \<Rightarrow> StateDB_state \<Rightarrow> StateDB_state exec" where
  "finalise_object env deleteEmptyObjects so s =
    (if suicided so \<or> deleteEmptyObjects \<and> so_empty env so then Inr (snd (deleteStateObject env so s))
     else
       bind_exec (updateRoot env so) (\<lambda>so1.
         bind_exec (updateStateObject env so1 (setStateObject so1 s)) (\<lambda>(err, s1). Inr s1)))"

fun finalise_objects :: "state_env \<Rightarrow> bool \<Rightarrow> address list \<Rightarrow> StateDB_state \<Rightarrow> StateDB_state exec" where
  "finalise_objects env del [] s = Inr s"
| "finalise_objects env del (a # as) s =
    (case map_get (stateObjects s) a of
       None \<Rightarrow> finalise_objects env del as s
     | Some so \<Rightarrow>
         bind_exec (finalise_object env del so s) (\<lambda>s1.
           finalise_objects env del as (s1\<lparr> stateObjectsDirty := map_put a () (stateObjectsDirty s1) \<rparr>)))"

definition state_Finalise :: "state_env \<Rightarrow> bool \<Rightarrow> StateDB_state \<Rightarrow> StateDB_state exec" where
  "state_Finalise env deleteEmptyObjects s =
    bind_exec (finalise_objects env deleteEmptyObjects (map fst (j_dirties (s_journal s))) s) (\<lambda>s1.
      Inr (clearJournalAndRefund s1))"

definition state_IntermediateRoot :: "state_env \<Rightarrow> bool \<Rightarrow> StateDB_state \<Rightarrow> (hash \<times> StateDB_state) exec" where
  "state_IntermediateRoot env deleteEmptyObjects s =
    bind_exec (state_Finalise env deleteEmptyObjects s) (\<lambda>s1.
      bind_exec (sec_Hash env (s_trie s1)) (\<lambda>(h, t). Inr (h, s1\<lparr> s_trie := t \<rparr>)))"

section \<open>Committing\<close>

text \<open>What a commit writes: contract codes, the preimages of hashed keys, and the events of the tries.\<close>

record commit_writes =
  cw_blobs :: "(hash \<times> bytes) list"
  cw_preimages :: "(bytes \<times> bytes) list"
  cw_events :: "store_event list"

definition no_writes :: commit_writes where
  "no_writes = \<lparr> cw_blobs = [], cw_preimages = [], cw_events = [] \<rparr>"

definition write_code :: "stateObject \<Rightarrow> commit_writes \<Rightarrow> stateObject \<times> commit_writes" where
  "write_code so w =
    (case so_code so of
       Some c \<Rightarrow>
         if dirtyCode so
         then (so\<lparr> dirtyCode := False \<rparr>, w\<lparr> cw_blobs := cw_blobs w @ [(acc_CodeHash (so_data so), c)] \<rparr>)
         else (so, w)
     | None \<Rightarrow> (so, w))"

fun commit_objects :: "state_env \<Rightarrow> bool \<Rightarrow> address list \<Rightarrow> commit_writes \<Rightarrow> StateDB_state \<Rightarrow>
    (state_error option \<times> commit_writes \<times> StateDB_state) exec" where
  "commit_objects env del [] w s = Inr (None, w, s)"
| "commit_objects env del (a # as) w s =
    (case map_get (stateObjects s) a of
       None \<Rightarrow> commit_objects env del as w s
     | Some so \<Rightarrow>
         (let isDirty = map_has (stateObjectsDirty s) a;
              next = (\<lambda>w1 s1. commit_objects env del as w1
                (s1\<lparr> stateObjectsDirty := map_del a (stateObjectsDirty s1) \<rparr>)) in
          if suicided so \<or> isDirty \<and> del \<and> so_empty env so then next w (snd (deleteStateObject env so s))
          else if isDirty then
            (case write_code so w of (so1, w1) \<Rightarrow>
               bind_exec (CommitTrie env so1) (\<lambda>(err, pre, ev, so2).
                 let s1 = setStateObject so2 s;
                     w2 = w1\<lparr> cw_preimages := cw_preimages w1 @ pre, cw_events := cw_events w1 @ ev \<rparr> in
                 case err of
                   Some e \<Rightarrow> Inr (Some e, w2, s1)
                 | None \<Rightarrow> bind_exec (updateStateObject env so2 s1) (\<lambda>(_, s2). next w2 s2)))
          else next w s))"

text \<open>
  The commit of the account trie, which enters the past tries.  The references from the leaves to the storage tries and
  the codes (the \<open>OnLeaf\<close> events) are kept by the trie database.
\<close>

definition state_Commit :: "state_env \<Rightarrow> bool \<Rightarrow> SecureTrie list \<Rightarrow> StateDB_state \<Rightarrow>
    ((state_error + hash) \<times> commit_writes \<times> StateDB_state \<times> SecureTrie list) exec" where
  "state_Commit env deleteEmptyObjects pastTries s =
    (let s0 = s\<lparr> stateObjectsDirty := fold (\<lambda>a m. map_put a () m) (map fst (j_dirties (s_journal s))) (stateObjectsDirty s) \<rparr> in
     bind_exec (commit_objects env deleteEmptyObjects (map fst (stateObjects s0)) no_writes s0) (\<lambda>(err, w, s1).
       case err of
         Some e \<Rightarrow> Inr (Inl e, w, clearJournalAndRefund s1, pastTries)
       | None \<Rightarrow>
           bind_exec (sec_Commit env True (s_trie s1)) (\<lambda>(h, pre, ev, t).
             Inr (Inr h, w\<lparr> cw_preimages := cw_preimages w @ pre, cw_events := cw_events w @ ev \<rparr>,
               clearJournalAndRefund (s1\<lparr> s_trie := t \<rparr>), pushTrie t pastTries))))"

end
