(* ===== verification/State_Account.thy ===== *)
theory State_Account
  imports State_Object
begin

text \<open>
  The encoding of accounts: the buffer of \<open>MarshalRLP\<close> is large enough exactly for balances of at most 31 bytes.
\<close>

definition balance_bytes :: "bigint \<Rightarrow> bytes" where
  "balance_bytes x = (if x = 0 then [0x80] else WriteBytesTo (big_Bytes x))"

definition account_item :: "Account \<Rightarrow> rlp_item" where
  "account_item a = Lst [item_of (VUint (acc_Nonce a)), item_of (VBig (Some (acc_Balance a))),
    Str (Hash_Bytes (acc_Root a)), Str (Hash_Bytes (acc_CodeHash a))]"

lemma AppendBytes_cap: "AppendBytes cap b v = append_cap cap b (WriteBytesTo v)"
proof (cases "length v = 1 \<and> v ! 0 \<le> 0x7F")
  case True
  then obtain x where "v = [x]" by (cases v) auto
  then show ?thesis using True by (simp add: AppendBytes_def WriteBytesTo_def)
next
  case False
  then show ?thesis
    by (cases "length v < 56") (auto simp: AppendBytes_def WriteBytesTo_def AppendHead_eq append_cap_def length_putint Let_def)
qed

lemma AppendUint64_cap: "AppendUint64 cap b v = append_cap cap b (WriteUint64To v)"
  by (auto simp: AppendUint64_def WriteUint64To_def AppendHead_eq length_putint Let_def)

lemma big_Bytes_0: "big_Bytes 0 = []"
  by (simp add: big_Bytes_def BitLen_def bit_len.simps [of 0])

lemma balance_bytes_enc: "balance_bytes x = enc (item_of (VBig (Some x)))"
  by (simp add: balance_bytes_def WriteBytesTo_eq encodeString_empty big_Bytes_0)

lemma length_WriteBytesTo: "length (WriteBytesTo v) \<le> 32 \<longleftrightarrow> length v \<le> 31"
  using intsize_bounds(1) [of "word_of_nat (length v)"] by (auto simp: WriteBytesTo_def length_putint Let_def)

lemma length_balance_bytes:
  assumes "0 \<le> x"
  shows "length (balance_bytes x) \<le> 32 \<longleftrightarrow> x < 2 ^ 248"
proof (cases "x = 0")
  case False
  have "(BitLen x + 7) div 8 \<le> 31 \<longleftrightarrow> BitLen x \<le> 248" by auto
  also have "\<dots> \<longleftrightarrow> nat x < 2 ^ 248" using assms by (simp add: BitLen_def bit_len_le_iff)
  also have "\<dots> \<longleftrightarrow> x < 2 ^ 248" using assms by (simp add: nat_less_iff)
  finally show ?thesis using False by (simp add: balance_bytes_def length_WriteBytesTo big_Bytes_def)
qed (simp add: balance_bytes_def)

lemma length_hash_bytes: "length (WriteBytesTo (Hash_Bytes h)) = 33" "BytesSize (Hash_Bytes h) = 33"
  by (simp_all add: WriteBytesTo_def BytesSize_def)

text \<open>The encodings of the four fields, and of the account.\<close>

definition account_fields :: "Account \<Rightarrow> bytes" where
  "account_fields a = WriteUint64To (acc_Nonce a) @ balance_bytes (acc_Balance a) @ WriteBytesTo (Hash_Bytes (acc_Root a)) @
    WriteBytesTo (Hash_Bytes (acc_CodeHash a))"

lemma account_item_fields: "enc (account_item a) = puthead 0xC0 0xF7 (word_of_nat (length (account_fields a))) @ account_fields a"
  by (simp add: account_item_def account_fields_def balance_bytes_enc WriteBytesTo_eq WriteUint64To_eq del: item_of.simps)

lemma account_EncodeRLP_eq:
  assumes "0 \<le> acc_Balance a" "length (account_fields a) < 2 ^ 64"
  shows "account_EncodeRLP a = Inr (enc (account_item a))"
proof -
  have b: "WriteBigIntTo (Some (acc_Balance a)) = Inr (balance_bytes (acc_Balance a))"
    using assms by (simp add: WriteBigIntTo_def balance_bytes_def)
  have "account_RLPSize a = length (account_fields a)"
    using assms(1) by (simp add: account_RLPSize_def account_fields_def Uint64Size_eq BytesSize_eq BigIntSize_def balance_bytes_def)
  then show ?thesis using assms(2) b
    by (simp add: account_EncodeRLP_def account_item_fields WriteListHeaderTo_eq) (simp add: account_fields_def)
qed

lemma AppendBigInt_cap: "0 \<le> x \<Longrightarrow> AppendBigInt cap b (Some x) = Inr (append_cap cap b (balance_bytes x))"
  by (simp add: AppendBigInt_def balance_bytes_def AppendBytes_cap)

lemma account_MarshalRLP_eq:
  assumes "0 \<le> acc_Balance a" "acc_Balance a < 2 ^ 248"
  shows "account_MarshalRLP a = Inr (Inr (enc (account_item a)))" "length (account_fields a) < 2 ^ 64"
proof -
  have l: "length (balance_bytes (acc_Balance a)) \<le> 32" using length_balance_bytes assms by simp
  have n: "length (WriteUint64To (acc_Nonce a)) \<le> 9"
    using intsize_bounds(2) [of "acc_Nonce a"] by (simp add: Uint64Size_eq [symmetric] Uint64Size_def)
  show s: "length (account_fields a) < 2 ^ 64" using l n by (simp add: account_fields_def length_hash_bytes)
  have "PrependListHeader (replicate MaxHeadSize 0 @ account_fields a) = Some (enc (account_item a))"
    using PrependListHeader_eq [of "replicate MaxHeadSize 0" "account_fields a"] s by (simp add: account_item_fields)
  then show "account_MarshalRLP a = Inr (Inr (enc (account_item a)))"
    using l by (simp add: account_MarshalRLP_def AppendUint64_cap AppendBigInt_cap [OF assms(1)] AppendBytes_cap append_cap_def
        Uint64Size_eq length_hash_bytes MaxBigIntSize_def slice_exec_def account_fields_def Let_def)
qed

lemma account_MarshalRLP_panics:
  assumes "2 ^ 248 \<le> acc_Balance a"
  shows "account_MarshalRLP a = Inl GoPanic"
proof -
  have p: "0 \<le> acc_Balance a" using assms by (smt (verit) zero_le_power)
  then have "32 < length (balance_bytes (acc_Balance a))" using length_balance_bytes [of "acc_Balance a"] assms by simp
  then show ?thesis
    by (auto simp: account_MarshalRLP_def AppendUint64_cap AppendBigInt_cap [OF p] AppendBytes_cap append_cap_def
        Uint64Size_eq length_hash_bytes MaxBigIntSize_def slice_exec_def Let_def)
qed

end
