(* ===== verification/State_Theorems.thy ===== *)
theory State_Theorems
  imports State_Machine State_Commit State_Account
begin

text \<open>
  The main properties of the world state.
\<close>

section \<open>The state and its snapshots\<close>

lemma new_state_refines:
  assumes "state_New env r past = Inr (Inr s, past')" "state_ok env M s" "code_db_ok env"
  shows "refines env s \<lparr> sp_world = view env s, sp_saved = [], sp_next = 0 \<rparr>"
proof -
  have s: "s_journal s = newJournal" "validRevisions s = []" "nextRevisionId s = 0"
    using assms(1) by (auto simp: state_New_def bind_exec_def split: sum.splits prod.splits)
  have "refines_at env M s \<lparr> sp_world = view env s, sp_saved = [], sp_next = 0 \<rparr>"
    using assms(2) by (simp add: refines_at_def s newJournal_def)
  then show ?thesis using assms(3) by (auto simp: refines_def)
qed

text \<open>C3. A state opened at a root behaves as a map of accounts whose snapshots are copies: every sequence of operations
  gives the same answers and the same panics as the machine that saves whole worlds at a snapshot and puts them back on a
  revert, and ends in the same world, although the implementation keeps a journal of changes, caches objects and loads
  accounts, code and storage on demand.\<close>

theorem statedb_refines_worlds:
  assumes "state_New env r past = Inr (Inr s, past')" "state_ok env M s" "code_db_ok env"
  shows "map_sum id (\<lambda>(vs, s'). (vs, view env s')) (db_run (statedb_ops env) calls s) =
    map_sum id (\<lambda>(vs, sp). (vs, sp_world sp)) (db_run (spec_ops env) calls \<lparr> sp_world = view env s, sp_saved = [], sp_next = 0 \<rparr>)"
proof -
  have "refines env s' sp \<Longrightarrow> view env s' = sp_world sp" for s' sp by (auto simp: refines_def refines_at_def)
  moreover have "rel_exec (rel_result (refines env)) (db_run (statedb_ops env) calls s)
      (db_run (spec_ops env) calls \<lparr> sp_world = view env s, sp_saved = [], sp_next = 0 \<rparr>)"
    by (rule sdb.run_refines [OF new_state_refines [OF assms]])
  ultimately show ?thesis
    by (cases "db_run (statedb_ops env) calls s";
        cases "db_run (spec_ops env) calls \<lparr> sp_world = view env s, sp_saved = [], sp_next = 0 \<rparr>") (auto simp: rel_prod_sel split: prod.split)
qed

text \<open>An environment with an empty database.\<close>

definition empty_env :: state_env where
  "empty_env = \<lparr> s_keccak = (\<lambda>b. word_of_nat (length b)), s_nodes = (\<lambda>_ _. None), s_code = (\<lambda>_. None), s_decode = (\<lambda>_. None) \<rparr>"

definition empty_state :: StateDB_state where
  "empty_state = \<lparr> s_trie = \<lparr> st_trie = \<lparr> root = NilNode, cachegen = 0, cachelimit = 120 \<rparr>, secKeyCache = [], secKeyOwner = False \<rparr>,
    stateObjects = [], stateObjectsDirty = [], s_refund = 0, thash = 0, bhash = 0, txIndex = 0, s_logs = [], logSize = 0,
    s_preimages = [], s_journal = newJournal, validRevisions = [], nextRevisionId = 0 \<rparr>"

lemma empty_state_ok:
  "state_New empty_env 0 [] = Inr (Inr empty_state, [])" "state_ok empty_env Map.empty empty_state" "code_db_ok empty_env"
proof -
  show "state_New empty_env 0 [] = Inr (Inr empty_state, [])"
    by (simp add: state_New_def OpenTrie_def NewSecure_def trie_New_def empty_state_def MaxTrieCacheGen_def)
  show "state_ok empty_env Map.empty empty_state"
    by (simp add: state_ok_def empty_state_def empty_trie_rep base_obj_def load_account_def)
  show "code_db_ok empty_env" by (simp add: code_db_ok_def empty_env_def)
qed

lemma empty_view: "w_acc (view empty_env empty_state) = Map.empty"
proof (rule ext)
  fix a
  have "live_obj empty_env Map.empty empty_state a = None"
    by (simp add: live_obj_def base_obj_def load_account_def empty_state_def)
  then show "w_acc (view empty_env empty_state) a = None" by (simp add: view_acc [OF empty_state_ok(2)])
qed

theorem statedb_refines_worlds_witness:
  "\<exists>s'. db_run (statedb_ops empty_env)
      [CallAddBalance 7 100, CallSnapshot, CallSubBalance 7 30, CallSetState 7 1 5, CallSnapshot, CallSuicide 7, CallGetBalance 7,
       CallRevertToSnapshot 1, CallGetBalance 7, CallRevertToSnapshot 0, CallGetBalance 7, CallGetState 7 1] empty_state =
    Inr ([NoAnswer, IntAnswer 0, NoAnswer, NoAnswer, IntAnswer 1, NoAnswer, IntAnswer 0, NoAnswer, IntAnswer 70, NoAnswer,
      IntAnswer 100, HashAnswer 0], s')"
proof -
  let ?calls = "[CallAddBalance 7 100, CallSnapshot, CallSubBalance 7 30, CallSetState 7 1 5, CallSnapshot, CallSuicide 7, CallGetBalance 7,
       CallRevertToSnapshot 1, CallGetBalance 7, CallRevertToSnapshot 0, CallGetBalance 7, CallGetState 7 1]"
  have "map_sum id fst (db_run (spec_ops empty_env) ?calls \<lparr> sp_world = view empty_env empty_state, sp_saved = [], sp_next = 0 \<rparr>) =
    Inr [NoAnswer, IntAnswer 0, NoAnswer, NoAnswer, IntAnswer 1, NoAnswer, IntAnswer 0, NoAnswer, IntAnswer 70, NoAnswer,
      IntAnswer 100, HashAnswer 0]"
    by (simp add: spec_ops_def sp_put_def sp_get_def sp_Snapshot_def sp_Revert_def answer_def w_AddBalance_def w_SubBalance_def
        w_SetState_def w_Suicide_def w_ensure_def w_mod_def w_put_def w_get_def w_new_def empty_view)
  then show ?thesis using statedb_refines_worlds [OF empty_state_ok, of ?calls]
    by (cases "db_run (statedb_ops empty_env) ?calls empty_state") (auto simp: map_sum_def split: sum.splits)
qed

section \<open>The encoding of accounts\<close>

text \<open>C10. The buffer of \<open>MarshalRLP\<close> fits the accounts whose balance has at most 31 bytes: for these it gives the same bytes
  as \<open>EncodeRLP\<close>, the encoding of the list of the four fields.  For every larger balance a slice beyond the capacity
  panics, although \<open>MaxBigIntSize\<close> is meant to hold integers of 32 bytes.\<close>

theorem account_marshal_bounds:
  assumes "0 \<le> acc_Balance a"
  shows "if acc_Balance a < 2 ^ 248
    then account_MarshalRLP a = Inr (account_EncodeRLP a) \<and> account_EncodeRLP a = Inr (enc (account_item a))
    else account_MarshalRLP a = Inl GoPanic"
  using account_MarshalRLP_eq [OF assms] account_EncodeRLP_eq [OF assms] account_MarshalRLP_panics [of a] by simp

theorem account_marshal_bounds_witness:
  "account_MarshalRLP \<lparr> acc_Nonce = 1, acc_Balance = 10 ^ 75, acc_Root = 0, acc_CodeHash = 0 \<rparr> = Inl GoPanic"
  using account_marshal_bounds [of "\<lparr> acc_Nonce = 1, acc_Balance = 10 ^ 75, acc_Root = 0, acc_CodeHash = 0 \<rparr>"] by simp

end
