(* ===== verification/Vm_Atomic.thy ===== *)
theory Vm_Atomic
  imports Vm_Termination
begin

text \<open>
  What an execution does to the state database.  The locale \<open>revertible_db\<close> is the contract of the database: its
  operations keep the snapshots taken before, and a revert to a snapshot restores the contents.  From it follows
  that a call that ends with an error leaves the contents as they were.
\<close>

section \<open>Steps of the database\<close>

abbreviation frame_db :: "'s Frame \<Rightarrow> 's" where
  "frame_db f \<equiv> StateDB (evm f)"

definition op_moves :: "('s \<Rightarrow> 's \<Rightarrow> bool) \<Rightarrow> 's op_result \<Rightarrow> 's Frame \<Rightarrow> bool" where
  "op_moves P r f \<longleftrightarrow> (\<forall>res err f'. r = Inr (res, err, f') \<longrightarrow> P (frame_db f) (frame_db f'))"

definition gas_moves :: "('s \<Rightarrow> 's \<Rightarrow> bool) \<Rightarrow> ('a \<times> 's Frame) exec \<Rightarrow> 's Frame \<Rightarrow> bool" where
  "gas_moves P r f \<longleftrightarrow> (\<forall>x f'. r = Inr (x, f') \<longrightarrow> P (frame_db f) (frame_db f'))"

text \<open>The nested calls.\<close>

definition call_moves :: "('s \<Rightarrow> 's \<Rightarrow> bool) \<Rightarrow> (bytes \<times> uint64 \<times> vm_error option \<times> 's EVM) exec \<Rightarrow> 's EVM \<Rightarrow> bool" where
  "call_moves P r e \<longleftrightarrow> (\<forall>ret g err e'. r = Inr (ret, g, err, e') \<longrightarrow> P (StateDB e) (StateDB e'))"

definition create_moves :: "('s \<Rightarrow> 's \<Rightarrow> bool) \<Rightarrow> (bytes \<times> address \<times> uint64 \<times> vm_error option \<times> 's EVM) exec \<Rightarrow> 's EVM \<Rightarrow> bool" where
  "create_moves P r e \<longleftrightarrow> (\<forall>ret a g err e'. r = Inr (ret, a, g, err, e') \<longrightarrow> P (StateDB e) (StateDB e'))"

definition calls_move :: "('s \<Rightarrow> 's \<Rightarrow> bool) \<Rightarrow> 's Calls \<Rightarrow> bool" where
  "calls_move P cs \<longleftrightarrow>
    (\<forall>r a i g v e. call_moves P (c_Call cs r a i g v e) e) \<and>
    (\<forall>r a i g v e. call_moves P (c_CallCode cs r a i g v e) e) \<and>
    (\<forall>r a i g e. call_moves P (c_DelegateCall cs r a i g e) e) \<and>
    (\<forall>r a i g e. call_moves P (c_StaticCall cs r a i g e) e) \<and>
    (\<forall>r i g v e. create_moves P (c_Create cs r i g v e) e) \<and>
    (\<forall>r i g v s e. create_moves P (c_Create2 cs r i g v s e) e)"

named_theorems moving

lemma op_moves_panic [moving]: "op_moves P (Inl x) f" by (simp add: op_moves_def)
lemma op_moves_Inr [moving]: "P (frame_db f) (frame_db f') \<Longrightarrow> op_moves P (Inr (res, err, f')) f" by (simp add: op_moves_def)
lemma op_moves_done [moving]: "P (frame_db f) (frame_db f') \<Longrightarrow> op_moves P (done_op f') f" by (simp add: op_moves_def done_op_def)
lemma op_moves_bind [moving]: "(\<And>x. m = Inr x \<Longrightarrow> op_moves P (g x) f) \<Longrightarrow> op_moves P (bind_exec m g) f"
  by (cases m) (auto simp: op_moves_def)

lemma gas_moves_panic [moving]: "gas_moves P (Inl x) f" by (simp add: gas_moves_def)
lemma gas_moves_Inr [moving]: "P (frame_db f) (frame_db (snd r)) \<Longrightarrow> gas_moves P (Inr r) f" by (auto simp: gas_moves_def)
lemma gas_moves_bind [moving]: "(\<And>x. m = Inr x \<Longrightarrow> gas_moves P (g x) f) \<Longrightarrow> gas_moves P (bind_exec m g) f"
  by (cases m) (auto simp: gas_moves_def)

lemma frame_db_simps [simp]:
  "frame_db (push v f) = frame_db f" "frame_db (snd (with_memory_gas g n f)) = frame_db f"
  "frame_db (snd (reserve_call_gas env c b f)) = frame_db f" "frame_db (snd (memory_then_reserve env c b n f)) = frame_db f"
  "frame_db (resume st b e f) = StateDB e"
  by (auto simp: push_def with_memory_gas_def reserve_call_gas_def memory_then_reserve_def resume_def Let_def
      split: prod.split sum.split)

lemma set_mem_db: "set_mem o1 n d f = Inr f' \<Longrightarrow> frame_db f' = frame_db f"
  by (auto simp: set_mem_def bind_exec_def split: sum.splits)

lemma write_db_db [simp]: "frame_db (write_db g f) = g (frame_db f)" by (simp add: write_db_def)

lemma read_db_db: "read_db g f = (x, f') \<Longrightarrow> frame_db f' = snd (g (frame_db f))"
  by (auto simp: read_db_def split: prod.splits)

section \<open>The contract\<close>

locale revertible_db =
  fixes env :: "'s Env" and keeps :: "'s \<Rightarrow> 's \<Rightarrow> bool" and ok :: "'s \<Rightarrow> bool" and contents :: "'s \<Rightarrow> 'w"
  assumes keeps_refl [simp]: "keeps s s"
    and keeps_trans [trans]: "keeps s1 s2 \<Longrightarrow> keeps s2 s3 \<Longrightarrow> keeps s1 s3"
    and keeps_ok: "keeps s s' \<Longrightarrow> ok s \<Longrightarrow> ok s'"
    and keeps_writes [simp]: "keeps s (db_CreateAccount (vm_db env) a s)" "keeps s (db_SubBalance (vm_db env) a x s)"
      "keeps s (db_AddBalance (vm_db env) a x s)" "keeps s (db_SetNonce (vm_db env) a n s)" "keeps s (db_SetCode (vm_db env) a c s)"
      "keeps s (db_AddRefund (vm_db env) g s)" "keeps s (db_SetState (vm_db env) a k h s)" "keeps s (db_Suicide (vm_db env) a s)"
      "keeps s (db_AddLog (vm_db env) l s)" "keeps s (db_AddPreimage (vm_db env) h c s)"
    and keeps_reads [simp]: "keeps s (snd (db_GetBalance (vm_db env) a s))" "keeps s (snd (db_GetNonce (vm_db env) a s))"
      "keeps s (snd (db_GetCodeHash (vm_db env) a s))" "keeps s (snd (db_GetCode (vm_db env) a s))"
      "keeps s (snd (db_GetCodeSize (vm_db env) a s))" "keeps s (snd (db_GetCommittedState (vm_db env) a h s))"
      "keeps s (snd (db_GetState (vm_db env) a h s))" "keeps s (snd (db_HasSuicided (vm_db env) a s))"
      "keeps s (snd (db_Exist (vm_db env) a s))" "keeps s (snd (db_Empty (vm_db env) a s))" "keeps s (snd (db_Snapshot (vm_db env) s))"
    and keeps_SubRefund: "db_SubRefund (vm_db env) g s = Inr s' \<Longrightarrow> keeps s s'"
    and keeps_Revert: "db_Snapshot (vm_db env) s = (i, s1) \<Longrightarrow> keeps s1 s2 \<Longrightarrow> db_RevertToSnapshot (vm_db env) i s2 = Inr s3 \<Longrightarrow> keeps s s3"
    and contents_reads: "ok s \<Longrightarrow> contents (snd (db_GetBalance (vm_db env) a s)) = contents s"
      "ok s \<Longrightarrow> contents (snd (db_GetNonce (vm_db env) a s)) = contents s"
      "ok s \<Longrightarrow> contents (snd (db_GetCodeHash (vm_db env) a s)) = contents s"
    and contents_Revert: "ok s \<Longrightarrow> db_Snapshot (vm_db env) s = (i, s1) \<Longrightarrow> keeps s1 s2 \<Longrightarrow>
      db_RevertToSnapshot (vm_db env) i s2 = Inr s3 \<Longrightarrow> contents s3 = contents s"
begin

lemma plain_ops [moving]:
  "op_moves keeps (stack_op1 g1 f) f" "op_moves keeps (stack_op2 g2 f) f" "op_moves keeps (stack_op3 g3 f) f"
  by (auto split: list.split intro!: moving)

lemma arithmetic_ops [moving]:
  "op_moves keeps (opAdd env cs f) f" "op_moves keeps (opSub env cs f) f" "op_moves keeps (opMul env cs f) f"
  "op_moves keeps (opDiv env cs f) f" "op_moves keeps (opSdiv env cs f) f" "op_moves keeps (opMod env cs f) f"
  "op_moves keeps (opSmod env cs f) f" "op_moves keeps (opExp env cs f) f" "op_moves keeps (opNot env cs f) f"
  "op_moves keeps (opLt env cs f) f" "op_moves keeps (opGt env cs f) f" "op_moves keeps (opSlt env cs f) f"
  "op_moves keeps (opSgt env cs f) f" "op_moves keeps (opEq env cs f) f" "op_moves keeps (opIszero env cs f) f"
  "op_moves keeps (opAnd env cs f) f" "op_moves keeps (opOr env cs f) f" "op_moves keeps (opXor env cs f) f"
  "op_moves keeps (opByte env cs f) f" "op_moves keeps (opAddmod env cs f) f" "op_moves keeps (opMulmod env cs f) f"
  "op_moves keeps (opSHL env cs f) f" "op_moves keeps (opSHR env cs f) f" "op_moves keeps (opSAR env cs f) f"
  "op_moves keeps (opCallDataLoad env cs f) f" "op_moves keeps (opBlockhash env cs f) f"
  unfolding opAdd_def opSub_def opMul_def opDiv_def opSdiv_def opMod_def opSmod_def opExp_def opNot_def opLt_def opGt_def opSlt_def
    opSgt_def opEq_def opIszero_def opAnd_def opOr_def opXor_def opByte_def opAddmod_def opMulmod_def opSHL_def opSHR_def opSAR_def
    opCallDataLoad_def opBlockhash_def
  by (rule plain_ops)+

lemma push_ops [moving]:
  "op_moves keeps (opAddress env cs f) f" "op_moves keeps (opOrigin env cs f) f" "op_moves keeps (opCaller env cs f) f"
  "op_moves keeps (opCallDataSize env cs f) f" "op_moves keeps (opReturnDataSize env cs f) f"
  "op_moves keeps (opCodeSize env cs f) f" "op_moves keeps (opGasprice env cs f) f" "op_moves keeps (opCoinbase env cs f) f"
  "op_moves keeps (opTimestamp env cs f) f" "op_moves keeps (opNumber env cs f) f" "op_moves keeps (opDifficulty env cs f) f"
  "op_moves keeps (opGasLimit env cs f) f" "op_moves keeps (opPc env cs f) f" "op_moves keeps (opMsize env cs f) f"
  "op_moves keeps (opGas env cs f) f" "op_moves keeps (opJumpdest env cs f) f" "op_moves keeps (opStop env cs f) f"
  by (simp_all add: opAddress_def opOrigin_def opCaller_def opCallDataSize_def opReturnDataSize_def opCodeSize_def opGasprice_def
      opCoinbase_def opTimestamp_def opNumber_def opDifficulty_def opGasLimit_def opPc_def opMsize_def opGas_def opJumpdest_def
      opStop_def op_moves_done)

text \<open>A step after others.\<close>

lemmas after = keeps_writes [THEN keeps_trans [rotated]] keeps_reads [THEN keeps_trans [rotated]]

lemma memory_ops [moving]:
  "op_moves keeps (opSignExtend env cs f) f" "op_moves keeps (opCallValue env cs f) f" "op_moves keeps (opPop env cs f) f"
  "op_moves keeps (opCallDataCopy env cs f) f" "op_moves keeps (opReturnDataCopy env cs f) f" "op_moves keeps (opCodeCopy env cs f) f"
  "op_moves keeps (opMload env cs f) f" "op_moves keeps (opMstore env cs f) f" "op_moves keeps (opMstore8 env cs f) f"
  "op_moves keeps (opReturn env cs f) f" "op_moves keeps (opRevert env cs f) f"
  by (auto simp: opSignExtend_def opCallValue_def opPop_def opCallDataCopy_def opReturnDataCopy_def opCodeCopy_def opMload_def
      opMstore_def opMstore8_def opReturn_def opRevert_def Let_def split: list.split option.split intro!: moving dest!: set_mem_db)

lemma jump_to_moves: "frame_db g = frame_db f \<Longrightarrow> op_moves keeps (jump_to pos g) f"
  by (auto simp: jump_to_def Let_def split: prod.split intro!: moving)

lemma flow_ops [moving]: "op_moves keeps (opJump env cs f) f" "op_moves keeps (opJumpi env cs f) f"
  by (auto simp: opJump_def opJumpi_def split: list.split intro!: moving jump_to_moves)

lemma database_ops [moving]:
  "op_moves keeps (opSha3 env cs f) f" "op_moves keeps (opBalance env cs f) f" "op_moves keeps (opExtCodeSize env cs f) f"
  "op_moves keeps (opExtCodeCopy env cs f) f" "op_moves keeps (opExtCodeHash env cs f) f" "op_moves keeps (opSload env cs f) f"
  "op_moves keeps (opSstore env cs f) f" "op_moves keeps (opSuicide env cs f) f"
  by (auto simp: opSha3_def opBalance_def opExtCodeSize_def opExtCodeCopy_def opExtCodeHash_def opSload_def opSstore_def opSuicide_def
      Let_def split: list.split prod.split bool.split intro!: moving after dest!: set_mem_db read_db_db)

lemma made_ops [moving]:
  "op_moves keeps (makeLog n env cs f) f" "op_moves keeps (makePush n env cs f) f"
  "op_moves keeps (makeDup n env cs f) f" "op_moves keeps (makeSwap n env cs f) f"
  by (auto simp: makeLog_def makePush_def makeDup_def makeSwap_def Let_def split: list.split intro!: moving)

lemma finish_call_moves: "keeps (frame_db f) (StateDB e) \<Longrightarrow> op_moves keeps (finish_call ro rs s f (ret, g, err, e)) f"
  by (auto simp: finish_call_def Let_def intro!: moving dest!: set_mem_db)

lemma call_bind_moves:
  assumes "call_moves keeps m (evm f)"
  shows "op_moves keeps (bind_exec m (finish_call ro rs s f)) f"
proof (rule op_moves_bind)
  fix x assume m: "m = Inr x"
  obtain ret g err e where x: "x = (ret, g, err, e)" by (metis surj_pair)
  then show "op_moves keeps (finish_call ro rs s f x) f" using assms m finish_call_moves by (simp add: call_moves_def)
qed

lemma call_ops:
  assumes "calls_move keeps cs"
  shows "op_moves keeps (opCall env cs f) f" "op_moves keeps (opCallCode env cs f) f" "op_moves keeps (opDelegateCall env cs f) f"
    "op_moves keeps (opStaticCall env cs f) f"
  using assms unfolding calls_move_def
  by (auto simp: opCall_def opCallCode_def opDelegateCall_def opStaticCall_def Let_def split: list.split
      intro!: op_moves_panic op_moves_bind call_bind_moves)

lemma create_ops:
  assumes "calls_move keeps cs"
  shows "op_moves keeps (opCreate env cs f) f" "op_moves keeps (opCreate2 env cs f) f"
  using assms unfolding calls_move_def create_moves_def
  by (auto simp: opCreate_def opCreate2_def Let_def split: list.split prod.split intro!: moving)

lemma plain_gas [moving]:
  "gas_moves keeps (constGasFunc n env ms f) f" "gas_moves keeps (gasCallDataCopy env ms f) f"
  "gas_moves keeps (gasReturnDataCopy env ms f) f" "gas_moves keeps (makeGasLog n env ms f) f" "gas_moves keeps (gasSha3 env ms f) f"
  "gas_moves keeps (gasCodeCopy env ms f) f" "gas_moves keeps (gasExtCodeCopy env ms f) f" "gas_moves keeps (gasExtCodeHash env ms f) f"
  "gas_moves keeps (gasMLoad env ms f) f" "gas_moves keeps (gasMStore8 env ms f) f" "gas_moves keeps (gasMStore env ms f) f"
  "gas_moves keeps (gasCreate env ms f) f" "gas_moves keeps (gasCreate2 env ms f) f" "gas_moves keeps (gasBalance env ms f) f"
  "gas_moves keeps (gasExtCodeSize env ms f) f" "gas_moves keeps (gasSLoad env ms f) f" "gas_moves keeps (gasExp env ms f) f"
  "gas_moves keeps (gasReturn env ms f) f" "gas_moves keeps (gasRevert env ms f) f" "gas_moves keeps (gasCallCode env ms f) f"
  "gas_moves keeps (gasDelegateCall env ms f) f" "gas_moves keeps (gasStaticCall env ms f) f" "gas_moves keeps (gasPush env ms f) f"
  "gas_moves keeps (gasSwap env ms f) f" "gas_moves keeps (gasDup env ms f) f"
  by (auto simp: constGasFunc_def gasCallDataCopy_def gasReturnDataCopy_def makeGasLog_def gasSha3_def gasCodeCopy_def gasExtCodeCopy_def
      gasExtCodeHash_def gasMLoad_def gasMStore8_def gasMStore_def gasCreate_def gasCreate2_def gasBalance_def gasExtCodeSize_def
      gasSLoad_def gasExp_def gasReturn_def gasRevert_def gasCallCode_def gasDelegateCall_def gasStaticCall_def gasPush_def gasSwap_def
      gasDup_def Let_def split: prod.split intro!: moving)

lemma add_refund_keeps [simp]: "keeps s (frame_db f) \<Longrightarrow> keeps s (frame_db (add_refund env g f))"
  by (auto simp: add_refund_def intro!: after)

lemma net_sstore_refund_keeps:
  "net_sstore_refund env o1 c v g = Inr g' \<Longrightarrow> keeps s (frame_db g) \<Longrightarrow> keeps s (frame_db g')"
  by (auto simp: net_sstore_refund_def sub_refund_def bind_exec_Inr split: if_splits dest: keeps_SubRefund keeps_trans)

lemma net_sstore_moves:
  assumes "keeps (frame_db f) (frame_db f1)"
  shows "gas_moves keeps (net_sstore env k c v f1) f"
proof -
  obtain o1 f2 where r: "read_db (db_GetCommittedState (vm_db env) (self (contract f1)) k) f1 = (o1, f2)" by fastforce
  have k: "keeps (frame_db f) (frame_db f2)" unfolding read_db_db [OF r] by (rule after [OF assms])
  show ?thesis
    by (auto simp: net_sstore_def r assms k intro!: moving dest!: net_sstore_refund_keeps [OF _ k])
qed

lemma storage_gas [moving]: "gas_moves keeps (gasSStore env ms f) f"
  by (auto simp: gasSStore_def split: prod.split intro!: moving net_sstore_moves dest!: read_db_db)

lemma new_account_keeps:
  "calls_new_account env tv a f = (b, f') \<Longrightarrow> keeps (frame_db f) (frame_db f')"
  "suicide_new_account env a f = (b, f') \<Longrightarrow> keeps (frame_db f) (frame_db f')"
  by (auto simp: calls_new_account_def suicide_new_account_def split: prod.splits bool.splits if_splits intro!: after dest!: read_db_db)

lemma account_gas [moving]: "gas_moves keeps (gasCall env ms f) f" "gas_moves keeps (gasSuicide env ms f) f"
proof -
  show "gas_moves keeps (gasCall env ms f) f"
    by (auto simp: gasCall_def Let_def split: prod.split intro!: moving dest!: new_account_keeps)
  have charged: "gas_moves keeps (case read_db (db_HasSuicided (vm_db env) a) f1 of (already, f2) \<Rightarrow>
      Inr (Inr g, if already then f2 else add_refund env SuicideRefundGas f2)) f" if "keeps (frame_db f) (frame_db f1)" for a g f1
    using that by (auto split: prod.split intro!: moving after add_refund_keeps dest!: read_db_db)
  show "gas_moves keeps (gasSuicide env ms f) f"
    unfolding gasSuicide_def
  proof (rule gas_moves_bind, clarify)
    fix g f1
    assume e: "(if IsEIP150 (chainConfig env) (Some (BlockNumber env)) then bind_exec (Back 0 f) (\<lambda>a.
        case suicide_new_account env (BigToAddress a) f of (fresh, f1) \<Rightarrow>
          Inr (if fresh then Suicide (gasTable env) + CreateBySuicide (gasTable env) else Suicide (gasTable env), f1))
      else Inr (0, f)) = Inr (g, f1)"
    obtain fresh f2 where n: "suicide_new_account env (BigToAddress (case Back 0 f of Inr a \<Rightarrow> a | Inl x \<Rightarrow> 0)) f = (fresh, f2)"
      by fastforce
    have "f1 = f \<or> f1 = f2" using e n by (auto simp: bind_exec_def split: if_splits sum.splits)
    then have "keeps (frame_db f) (frame_db f1)" using new_account_keeps(2) [OF n] by auto
    then show "gas_moves keeps (case read_db (db_HasSuicided (vm_db env) (self (contract f))) f1 of (already, f2) \<Rightarrow>
      Inr (Inr g, if already then f2 else add_refund env SuicideRefundGas f2)) f" by (rule charged)
  qed
qed

section \<open>The interpreter\<close>

definition op_ok :: "'s Calls \<Rightarrow> 's operation \<Rightarrow> bool" where
  "op_ok cs opn \<longleftrightarrow> (\<forall>ms f. gas_moves keeps (gasCost opn env ms f) f) \<and> (\<forall>f. op_moves keeps (execute opn env cs f) f)"

lemma frontier_ok:
  assumes "calls_move keeps cs"
  shows "list_all (\<lambda>(c, opn). op_ok cs opn) frontier_entries"
proof -
  note ops = moving call_ops [OF assms] create_ops [OF assms]
  have "list_all (\<lambda>(c, opn). op_ok cs opn) arithmetic_entries"
    unfolding arithmetic_entries_def list.pred_inject(2) prod.case
    by (intro conjI list.pred_inject(1)) (simp_all add: op_ok_def op_entry_def ops)
  moreover have "list_all (\<lambda>(c, opn). op_ok cs opn) environment_entries"
    unfolding environment_entries_def list.pred_inject(2) prod.case
    by (intro conjI list.pred_inject(1)) (simp_all add: op_ok_def op_entry_def ops)
  moreover have "list_all (\<lambda>(c, opn). op_ok cs opn) flow_entries"
    unfolding flow_entries_def list.pred_inject(2) prod.case
    by (intro conjI list.pred_inject(1)) (simp_all add: op_ok_def op_entry_def ops)
  moreover have "list_all (\<lambda>(c, opn). op_ok cs opn) call_entries"
    unfolding call_entries_def list.pred_inject(2) prod.case
    by (intro conjI list.pred_inject(1)) (simp_all add: op_ok_def op_entry_def ops)
  ultimately show ?thesis
    unfolding frontier_entries_def list_all_append
    by (auto simp: list_all_iff push_entry_def dup_entry_def swap_entry_def log_entry_def op_ok_def op_entry_def ops)
qed

lemma table_ok:
  assumes "calls_move keeps cs" "valid (NewEVMInterpreter_table env op)"
  shows "op_ok cs (NewEVMInterpreter_table env op)"
proof -
  note ops = moving call_ops [OF assms(1)] create_ops [OF assms(1)]
  have "list_all (\<lambda>(c, opn). op_ok cs opn) later_entries"
    unfolding later_entries_def list.pred_inject(2) prod.case
    by (intro conjI list.pred_inject(1)) (simp_all add: op_ok_def op_entry_def ops)
  moreover have "op_ok cs (op_entry opExtCodeHash gasExtCodeHash 1 1)" by (simp add: op_ok_def op_entry_def ops)
  ultimately show ?thesis using table_entries [OF assms(2)] frontier_ok [OF assms(1)]
    by (auto simp: list_all_iff split: if_splits)
qed

definition step_keeps :: "'s step_result \<Rightarrow> 's Frame \<Rightarrow> bool" where
  "step_keeps r f \<longleftrightarrow> keeps (frame_db f) (frame_db (case r of Continue f' \<Rightarrow> f' | Halt res err f' \<Rightarrow> f'))"

lemma after_execute_db: "step_keeps (after_execute opn (res, err, f')) f \<longleftrightarrow> keeps (frame_db f) (frame_db f')"
  by (auto simp: after_execute_def step_keeps_def Let_def split: option.split)

lemma charge_and_execute_keeps:
  assumes "op_ok cs opn" "charge_and_execute env cs opn ms f = Inr r"
  shows "step_keeps r f"
proof -
  obtain x f1 where g: "gasCost opn env ms f = Inr (x, f1)"
    "(case x of Inl e \<Rightarrow> Inr (Halt [] (Some ErrOutOfGas) f1)
      | Inr cost \<Rightarrow> (case UseGas cost (contract f1) of (False, c) \<Rightarrow> Inr (Halt [] (Some ErrOutOfGas) f1)
           | (True, c) \<Rightarrow> (let f2 = f1\<lparr> contract := c, mem := (if ms > 0 then mem_Resize ms (mem f1) else mem f1) \<rparr>
                in bind_exec (execute opn env cs f2) (\<lambda>r. Inr (after_execute opn r))))) = Inr r"
    using assms(2) by (auto simp: charge_and_execute_def bind_exec_Inr)
  have k: "keeps (frame_db f) (frame_db f1)" using assms(1) g(1) by (auto simp: op_ok_def gas_moves_def)
  have e: "keeps (frame_db f2) (frame_db f')" if "execute opn env cs f2 = Inr (res, err, f')" for f2 res err f'
    using assms(1) that by (auto simp: op_ok_def op_moves_def)
  show ?thesis using g(2) k
    by (auto simp: step_keeps_def [of "Halt _ _ _"] bind_exec_Inr Let_def after_execute_db split: sum.splits prod.splits bool.splits
        dest!: e intro: keeps_trans [OF k])
qed

lemma step_keeps_db: "calls_move keeps cs \<Longrightarrow> step env cs f = Inr r \<Longrightarrow> step_keeps r f"
proof -
  assume cs: "calls_move keeps cs" and s: "step env cs f = Inr r"
  from s show "step_keeps r f"
  proof (cases rule: step_cases)
    case (1 e)
    then show ?thesis by (simp add: step_keeps_def)
  next
    case (2 opn ms)
    then show ?thesis using charge_and_execute_keeps table_ok [OF cs] by blast
  qed
qed

lemma run_loop_keeps:
  assumes "calls_move keeps cs"
  shows "run_loop n env cs f = Inr (res, err, f') \<Longrightarrow> keeps (frame_db f) (frame_db f')"
proof (induction n arbitrary: f)
  case (Suc n)
  show ?case
  proof (cases "evm_abort (evm f)")
    case False
    then obtain r where r: "step env cs f = Inr r" using Suc.prems by (auto simp: bind_exec_Inr)
    have k: "step_keeps r f" by (rule step_keeps_db [OF assms r])
    show ?thesis
    proof (cases r)
      case (Continue f1)
      have "keeps (frame_db f1) (frame_db f')" using Suc.IH Suc.prems False r Continue by simp
      moreover have "keeps (frame_db f) (frame_db f1)" using k Continue by (simp add: step_keeps_def)
      ultimately show ?thesis using keeps_trans by blast
    next
      case (Halt res1 err1 f1)
      then show ?thesis using k Suc.prems False r by (simp add: step_keeps_def)
    qed
  qed (use Suc.prems in simp)
qed simp

lemma evm_run_keeps:
  assumes "calls_move keeps cs" "evm_run n cs env c input ro e = Inr (ret, err, c', e')"
  shows "keeps (StateDB e) (StateDB e')"
proof -
  have "keeps (StateDB e) (StateDB e')" if "Run n cs env c input ro e = Inr (ret, err, c', e')"
    using that run_loop_keeps [OF assms(1)] by (fastforce simp: Run_def Let_def bind_exec_Inr split: if_splits)
  then show ?thesis using assms(2) by (auto simp: evm_run_def split: option.splits prod.splits)
qed

section \<open>Calls and creations\<close>

text \<open>A call that keeps the snapshots and, when it fails, the contents.\<close>

definition atomic :: "'s \<Rightarrow> (bytes \<times> uint64 \<times> vm_error option \<times> 's EVM) exec \<Rightarrow> bool" where
  "atomic s r \<longleftrightarrow> (\<forall>ret g err e'. r = Inr (ret, g, err, e') \<longrightarrow>
    keeps s (StateDB e') \<and> (ok s \<longrightarrow> err \<noteq> None \<longrightarrow> contents (StateDB e') = contents s))"

definition same_contents :: "'s \<Rightarrow> 's \<Rightarrow> bool" where
  "same_contents s s' \<longleftrightarrow> keeps s s' \<and> (ok s \<longrightarrow> contents s' = contents s)"

lemma atomic_after:
  assumes "same_contents s s1" "atomic s1 r"
  shows "atomic s r"
  unfolding atomic_def
proof (intro allI impI)
  fix ret g err e' assume "r = Inr (ret, g, err, e')"
  then have a: "keeps s1 (StateDB e')" "ok s1 \<longrightarrow> err \<noteq> None \<longrightarrow> contents (StateDB e') = contents s1"
    using assms(2) unfolding atomic_def by blast+
  have k: "keeps s s1" "ok s \<longrightarrow> contents s1 = contents s" using assms(1) by (simp_all add: same_contents_def)
  then show "keeps s (StateDB e') \<and> (ok s \<longrightarrow> err \<noteq> None \<longrightarrow> contents (StateDB e') = contents s)"
    using a keeps_trans [OF k(1) a(1)] keeps_ok [OF k(1)] by simp
qed

lemma atomic_now: "same_contents s (StateDB e) \<Longrightarrow> atomic s (Inr (ret, g, err, e))"
  by (simp add: atomic_def same_contents_def)

lemma atomic_ended: "keeps s (StateDB e) \<Longrightarrow> atomic s (Inr (ret, g, None, e))"
  by (simp add: atomic_def)

lemma ask_db_db: "ask_db g e = (x, e') \<Longrightarrow> StateDB e' = snd (g (StateDB e))"
  by (auto simp: ask_db_def split: prod.splits)

lemma load_code_keeps: "load_code env a c e = (c', e') \<Longrightarrow> keeps s (StateDB e) \<Longrightarrow> keeps s (StateDB e')"
  by (auto simp: load_code_def split: prod.splits intro!: after dest!: ask_db_db)

lemma enter_db [simp]: "StateDB (enter caller e) = StateDB e" "StateDB (on_db g e) = g (StateDB e)"
  by (simp_all add: enter_def on_db_def)

lemma Transfer_keeps: "keeps s db \<Longrightarrow> keeps s (Transfer env a b x db)"
  by (auto simp: Transfer_def intro!: after)

lemma CanTransfer_same: "same_contents s (snd (CanTransfer env a x s))"
  using contents_reads(1) [of s a] keeps_reads(1) [of s a]
  by (cases "db_GetBalance (vm_db env) a s") (simp add: CanTransfer_def same_contents_def)

lemma revert_db_keeps:
  assumes "db_Snapshot (vm_db env) s = (i, s1)" "keeps s1 (StateDB e)" "revert_db env i e = Inr e'"
  shows "keeps s (StateDB e')" "ok s \<Longrightarrow> contents (StateDB e') = contents s"
  using assms keeps_Revert [OF assms(1,2)] contents_Revert [OF _ assms(1,2)] by (auto simp: revert_db_def bind_exec_Inr)

lemma snapshot_keeps: "db_Snapshot (vm_db env) s = (i, s1) \<Longrightarrow> keeps s1 s2 \<Longrightarrow> keeps s s2"
  using keeps_reads(11) keeps_trans by (metis snd_conv)

lemma run_call_atomic:
  assumes "calls_move keeps cs" "db_Snapshot (vm_db env) s = (i, s1)" "keeps s1 (StateDB e)"
  shows "atomic s (bind_exec (evm_run n cs env c input ro e) (leave_call env i))"
  unfolding atomic_def
proof (intro allI impI)
  fix ret g err e'
  assume "bind_exec (evm_run n cs env c input ro e) (leave_call env i) = Inr (ret, g, err, e')"
  then obtain ret1 err1 c1 e1 where r: "evm_run n cs env c input ro e = Inr (ret1, err1, c1, e1)"
      "leave_call env i (ret1, err1, c1, e1) = Inr (ret, g, err, e')"
    by (auto simp: bind_exec_Inr)
  have k: "keeps s1 (StateDB e1)" using keeps_trans [OF assms(3) evm_run_keeps [OF assms(1) r(1)]] .
  show "keeps s (StateDB e') \<and> (ok s \<longrightarrow> err \<noteq> None \<longrightarrow> contents (StateDB e') = contents s)"
  proof (cases err1)
    case None
    then show ?thesis using r(2) snapshot_keeps [OF assms(2) k] by (auto simp: leave_call_def)
  next
    case (Some x)
    then obtain e2 where "revert_db env i e1 = Inr e2" "e' = e2" using r(2) by (auto simp: leave_call_def bind_exec_Inr)
    then show ?thesis using revert_db_keeps [OF assms(2) k] by auto
  qed
qed

lemma snapshot_split: "ask_db (db_Snapshot (vm_db env)) e = (i, e1) \<Longrightarrow> db_Snapshot (vm_db env) (StateDB e) = (i, StateDB e1)"
  by (auto simp: ask_db_def split: prod.splits)

lemma same_contents_refl: "same_contents s s"
  by (simp add: same_contents_def)

lemma Call_atomic:
  assumes "calls_move keeps cs"
  shows "atomic (StateDB e) (Call n cs env r a input g v e)"
proof -
  obtain t e1 where t: "ask_db (CanTransfer env (ref_Address r) v) e = (t, e1)" by fastforce
  obtain i e2 where i: "ask_db (db_Snapshot (vm_db env)) e1 = (i, e2)" by fastforce
  obtain x e3 where x: "ask_db (db_Exist (vm_db env) a) e2 = (x, e3)" by fastforce
  define e4 where "e4 = (if x then e3 else on_db (db_CreateAccount (vm_db env) a) e3)"
  obtain c e6 where l: "load_code env a (NewContract r a (Some v) g) (enter r (on_db (Transfer env (ref_Address r) a v) e4)) = (c, e6)"
    by fastforce
  have s: "same_contents (StateDB e) (StateDB e1)" using CanTransfer_same ask_db_db [OF t] by simp
  have k3: "keeps (StateDB e2) (StateDB e3)" using ask_db_db [OF x] by simp
  then have "keeps (StateDB e2) (StateDB e4)" by (simp add: e4_def after)
  then have "keeps (StateDB e2) (StateDB e6)" by (intro load_code_keeps [OF l]) (simp add: Transfer_keeps)
  then have "atomic (StateDB e1) (bind_exec (evm_run n cs env c input False e6) (leave_call env i))"
    by (rule run_call_atomic [OF assms snapshot_split [OF i]])
  from atomic_after [OF s this] atomic_after [OF s atomic_ended [OF snapshot_keeps [OF snapshot_split [OF i] k3]]]
  show ?thesis
    by (simp add: Call_def t i x l e4_def [symmetric] atomic_now [OF s] atomic_now [OF same_contents_refl] split: bool.split)
qed

lemma CallCode_atomic:
  assumes "calls_move keeps cs"
  shows "atomic (StateDB e) (CallCode n cs env r a input g v e)"
proof -
  obtain t e1 where t: "ask_db (CanTransfer env (ref_Address r) v) e = (t, e1)" by fastforce
  obtain i e2 where i: "ask_db (db_Snapshot (vm_db env)) e1 = (i, e2)" by fastforce
  obtain c e3 where l: "load_code env a (NewContract r (ref_Address r) (Some v) g) (enter r e2) = (c, e3)" by fastforce
  have s: "same_contents (StateDB e) (StateDB e1)" using CanTransfer_same ask_db_db [OF t] by simp
  have "keeps (StateDB e2) (StateDB e3)" by (rule load_code_keeps [OF l]) simp
  then have "atomic (StateDB e1) (bind_exec (evm_run n cs env c input False e3) (leave_call env i))"
    by (rule run_call_atomic [OF assms snapshot_split [OF i]])
  from atomic_after [OF s this] show ?thesis
    by (simp add: CallCode_def t i l atomic_now [OF s] atomic_now [OF same_contents_refl] split: bool.split)
qed

lemma DelegateCall_atomic:
  assumes "calls_move keeps cs"
  shows "atomic (StateDB e) (DelegateCall n cs env r a input g e)"
proof -
  obtain i e1 where i: "ask_db (db_Snapshot (vm_db env)) e = (i, e1)" by fastforce
  have "atomic (StateDB e) (case load_code env a c0 (enter r e1) of (c, e2) \<Rightarrow>
      bind_exec (evm_run n cs env c input False e2) (leave_call env i))" for c0
  proof -
    obtain c e2 where l: "load_code env a c0 (enter r e1) = (c, e2)" by fastforce
    have "keeps (StateDB e1) (StateDB e2)" by (rule load_code_keeps [OF l]) simp
    then show ?thesis using run_call_atomic [OF assms snapshot_split [OF i]] l by simp
  qed
  moreover have "atomic (StateDB e) (Inl x)" for x by (simp add: atomic_def)
  ultimately show ?thesis
    by (cases "AsDelegate r (NewContract r (ref_Address r) None g)")
      (simp_all add: DelegateCall_def i atomic_now [OF same_contents_refl])
qed

lemma StaticCall_atomic:
  assumes "calls_move keeps cs"
  shows "atomic (StateDB e) (StaticCall n cs env r a input g e)"
proof -
  obtain i e1 where i: "ask_db (db_Snapshot (vm_db env)) e = (i, e1)" by fastforce
  obtain c e2 where l: "load_code env a (NewContract r a (Some 0) g) (enter r e1) = (c, e2)" by fastforce
  have "keeps (StateDB e1) (StateDB e2)" by (rule load_code_keeps [OF l]) simp
  then have "keeps (StateDB e1) (StateDB (on_db (db_AddBalance (vm_db env) a 0) e2))" by (simp add: after)
  from run_call_atomic [OF assms snapshot_split [OF i] this] show ?thesis
    by (simp add: StaticCall_def i l Let_def atomic_now [OF same_contents_refl])
qed

text \<open>
  A creation that fails: the nonce of the creator may have been advanced, which is not taken back.  A creation that cannot
  pay for the storage of the code is an error but, before the Homestead fork, it is kept.
\<close>

definition create_atomic :: "address \<Rightarrow> 's \<Rightarrow> (bytes \<times> address \<times> uint64 \<times> vm_error option \<times> 's EVM) exec \<Rightarrow> bool" where
  "create_atomic caller s r \<longleftrightarrow> (\<forall>ret a g err e'. r = Inr (ret, a, g, err, e') \<longrightarrow>
    keeps s (StateDB e') \<and>
    (ok s \<longrightarrow> err \<noteq> None \<longrightarrow> IsHomestead (chainConfig env) (Some (BlockNumber env)) \<longrightarrow>
      contents (StateDB e') = contents s \<or>
      (\<exists>s0 n. same_contents s s0 \<and> n = fst (db_GetNonce (vm_db env) caller s0) \<and>
        contents (StateDB e') = contents (db_SetNonce (vm_db env) caller (n + 1) (snd (db_GetNonce (vm_db env) caller s0))))))"

lemma run_create_atomic:
  assumes "calls_move keeps cs" "db_Snapshot (vm_db env) s = (i, s1)" "keeps s1 (StateDB e)"
    and r: "bind_exec (evm_run n cs env c input ro e) (leave_create env i a) = Inr (ret, a', g, err, e')"
  shows "keeps s (StateDB e')" "ok s \<Longrightarrow> err \<noteq> None \<Longrightarrow> IsHomestead (chainConfig env) (Some (BlockNumber env)) \<Longrightarrow>
    contents (StateDB e') = contents s"
proof -
  obtain ret1 err1 c1 e1 where r1: "evm_run n cs env c input ro e = Inr (ret1, err1, c1, e1)"
      "leave_create env i a (ret1, err1, c1, e1) = Inr (ret, a', g, err, e')"
    using r by (auto simp: bind_exec_Inr)
  obtain err2 c2 e2 where st: "store_code env a (ret1, err1, c1, e1) = (err2, c2, e2)" by (metis prod_cases3)
  have "keeps s1 (StateDB e1)" using keeps_trans [OF assms(3) evm_run_keeps [OF assms(1) r1(1)]] .
  then have k: "keeps s1 (StateDB e2)" using st by (auto simp: store_code_def split: prod.splits bool.splits if_splits intro: after)
  let ?max = "IsEIP158 (chainConfig env) (Some (BlockNumber env)) \<and> length ret1 > MaxCodeSize"
  let ?undo = "?max \<or> (err2 \<noteq> None \<and> (IsHomestead (chainConfig env) (Some (BlockNumber env)) \<or> err2 \<noteq> Some ErrCodeStoreOutOfGas))"
  have "(\<exists>e3. ?undo \<and> revert_db env i e2 = Inr e3 \<and> e' = e3) \<or> (\<not> ?undo \<and> e' = e2 \<and> err = err2)"
    using r1(2) st by (auto simp: leave_create_def Let_def bind_exec_Inr split: if_splits)
  then show "keeps s (StateDB e')" "ok s \<Longrightarrow> err \<noteq> None \<Longrightarrow> IsHomestead (chainConfig env) (Some (BlockNumber env)) \<Longrightarrow>
    contents (StateDB e') = contents s"
    using revert_db_keeps [OF assms(2) k] snapshot_keeps [OF assms(2) k] by auto
qed

lemma same_contents_trans: "same_contents s s1 \<Longrightarrow> same_contents s1 s2 \<Longrightarrow> same_contents s s2"
  by (auto simp: same_contents_def intro: keeps_trans dest: keeps_ok)

lemma create_atomicI:
  assumes "\<And>ret a g err e'. r = Inr (ret, a, g, err, e') \<Longrightarrow> keeps s (StateDB e')"
    "\<And>ret a g err e'. r = Inr (ret, a, g, err, e') \<Longrightarrow> ok s \<Longrightarrow> err \<noteq> None \<Longrightarrow>
      IsHomestead (chainConfig env) (Some (BlockNumber env)) \<Longrightarrow> contents (StateDB e') = contents s \<or>
      (\<exists>s0. same_contents s s0 \<and> contents (StateDB e') = contents (db_SetNonce (vm_db env) caller
        (fst (db_GetNonce (vm_db env) caller s0) + 1) (snd (db_GetNonce (vm_db env) caller s0))))"
  shows "create_atomic caller s r"
  using assms unfolding create_atomic_def by blast

lemma create_atomic_now: "same_contents s (StateDB e) \<Longrightarrow> create_atomic caller s (Inr (ret, a, g, err, e))"
  by (rule create_atomicI) (auto simp: same_contents_def)

lemma create_atomic_after:
  assumes "same_contents s s1" "create_atomic caller s1 r"
  shows "create_atomic caller s r"
proof (rule create_atomicI)
  fix ret a g err e' assume r: "r = Inr (ret, a, g, err, e')"
  have k: "keeps s s1" "ok s \<Longrightarrow> contents s1 = contents s" using assms(1) by (simp_all add: same_contents_def)
  show "keeps s (StateDB e')" using keeps_trans [OF k(1)] assms(2) r unfolding create_atomic_def by blast
  assume ok: "ok s" "err \<noteq> None" "IsHomestead (chainConfig env) (Some (BlockNumber env))"
  then have "ok s1" using keeps_ok [OF k(1)] by simp
  then have "contents (StateDB e') = contents s1 \<or> (\<exists>s0 n. same_contents s1 s0 \<and> n = fst (db_GetNonce (vm_db env) caller s0) \<and>
      contents (StateDB e') = contents (db_SetNonce (vm_db env) caller (n + 1) (snd (db_GetNonce (vm_db env) caller s0))))"
    using assms(2) r ok(2,3) unfolding create_atomic_def by blast
  then show "contents (StateDB e') = contents s \<or> (\<exists>s0. same_contents s s0 \<and> contents (StateDB e') =
      contents (db_SetNonce (vm_db env) caller (fst (db_GetNonce (vm_db env) caller s0) + 1) (snd (db_GetNonce (vm_db env) caller s0))))"
    using k(2) [OF ok(1)] same_contents_trans [OF assms(1)] by auto
qed

lemma read_same:
  "same_contents s (snd (db_GetNonce (vm_db env) a s))" "same_contents s (snd (db_GetCodeHash (vm_db env) a s))"
  using contents_reads(2,3) by (simp_all add: same_contents_def)

lemma create_is_atomic:
  assumes "calls_move keeps cs"
  shows "create_atomic (ref_Address r) (StateDB e) (create n cs env r code h g v a e)"
proof -
  let ?caller = "ref_Address r"
  obtain t e1 where t: "ask_db (CanTransfer env ?caller v) e = (t, e1)" by fastforce
  have s: "same_contents (StateDB e) (StateDB e1)" using CanTransfer_same ask_db_db [OF t] by simp
  obtain nonce e2 where n: "ask_db (db_GetNonce (vm_db env) ?caller) e1 = (nonce, e2)" by fastforce
  define e3 where "e3 = on_db (db_SetNonce (vm_db env) ?caller (nonce + 1)) e2"
  obtain ch e4 where c: "ask_db (db_GetCodeHash (vm_db env) a) e3 = (ch, e4)" by fastforce
  obtain n1 e5 where n1: "ask_db (db_GetNonce (vm_db env) a) e4 = (n1, e5)" by fastforce
  obtain i e6 where i: "ask_db (db_Snapshot (vm_db env)) e5 = (i, e6)" by fastforce
  have nf: "nonce = fst (db_GetNonce (vm_db env) ?caller (StateDB e1))" using n by (auto simp: ask_db_def split: prod.splits)
  have d3: "StateDB e3 = db_SetNonce (vm_db env) ?caller (fst (db_GetNonce (vm_db env) ?caller (StateDB e1)) + 1)
      (snd (db_GetNonce (vm_db env) ?caller (StateDB e1)))" by (simp add: e3_def nf ask_db_db [OF n])
  have k13: "keeps (StateDB e1) (StateDB e3)" by (simp add: d3 after)
  have s35: "same_contents (StateDB e3) (StateDB e5)"
    using same_contents_trans [OF read_same(2) read_same(1)] ask_db_db [OF c] ask_db_db [OF n1] by simp
  have k15: "keeps (StateDB e1) (StateDB e5)" using keeps_trans [OF k13] s35 by (simp add: same_contents_def)
  have finished: "create_atomic ?caller (StateDB e) q"
    if q: "\<And>ret a' g' err e'. q = Inr (ret, a', g', err, e') \<Longrightarrow> keeps (StateDB e5) (StateDB e') \<and>
      (ok (StateDB e5) \<longrightarrow> err \<noteq> None \<longrightarrow> IsHomestead (chainConfig env) (Some (BlockNumber env)) \<longrightarrow> contents (StateDB e') = contents (StateDB e5))" for q
  proof (rule create_atomic_after [OF s], rule create_atomicI)
    fix ret a' g' err e' assume e': "q = Inr (ret, a', g', err, e')"
    note k = q [OF e']
    show "keeps (StateDB e1) (StateDB e')" using keeps_trans [OF k15] k by blast
    assume ok: "ok (StateDB e1)" "err \<noteq> None" "IsHomestead (chainConfig env) (Some (BlockNumber env))"
    have "contents (StateDB e') = contents (StateDB e3)"
      using k ok(2,3) keeps_ok [OF k15 ok(1)] s35 keeps_ok [OF k13 ok(1)] by (simp add: same_contents_def)
    then show "contents (StateDB e') = contents (StateDB e1) \<or> (\<exists>s0. same_contents (StateDB e1) s0 \<and> contents (StateDB e') =
        contents (db_SetNonce (vm_db env) ?caller (fst (db_GetNonce (vm_db env) ?caller s0) + 1) (snd (db_GetNonce (vm_db env) ?caller s0))))"
      using same_contents_refl [of "StateDB e1"] d3 by metis
  qed
  have run: "create_atomic ?caller (StateDB e) (bind_exec (evm_run m cs env c' [] False e') (leave_create env i a))"
    if "keeps (StateDB e6) (StateDB e')" for m c' e'
  proof (rule finished)
    fix ret a' g' err e'' assume "bind_exec (evm_run m cs env c' [] False e') (leave_create env i a) = Inr (ret, a', g', err, e'')"
    from run_create_atomic [OF assms snapshot_split [OF i] that this]
    show "keeps (StateDB e5) (StateDB e'') \<and> (ok (StateDB e5) \<longrightarrow> err \<noteq> None \<longrightarrow>
        IsHomestead (chainConfig env) (Some (BlockNumber env)) \<longrightarrow> contents (StateDB e'') = contents (StateDB e5))" by blast
  qed
  have ended: "create_atomic ?caller (StateDB e) (Inr (ret, a', g', None, e'))" if "keeps (StateDB e6) (StateDB e')" for ret a' g' e'
    using snapshot_keeps [OF snapshot_split [OF i] that] by (intro finished) auto
  have collision: "create_atomic ?caller (StateDB e) (Inr (ret, a', g', err, e5))" for ret a' g' err
    by (rule finished) simp
  show ?thesis
    by (auto simp: create_def t n e3_def [symmetric] c n1 i Let_def create_atomic_now [OF s] create_atomic_now [OF same_contents_refl]
        collision split: bool.split intro!: run ended Transfer_keeps after)
qed

lemma Create_atomic:
  assumes "calls_move keeps cs"
  shows "create_atomic (ref_Address r) (StateDB e) (Create n cs env r code g v e)"
    "create_atomic (ref_Address r) (StateDB e) (Create2 n cs env r code g v salt e)"
proof -
  obtain nonce e1 where n: "ask_db (db_GetNonce (vm_db env) (ref_Address r)) e = (nonce, e1)" by fastforce
  have "same_contents (StateDB e) (StateDB e1)" using read_same(1) ask_db_db [OF n] by simp
  from create_atomic_after [OF this create_is_atomic [OF assms]]
  show "create_atomic (ref_Address r) (StateDB e) (Create n cs env r code g v e)" by (simp add: Create_def n)
  show "create_atomic (ref_Address r) (StateDB e) (Create2 n cs env r code g v salt e)"
    by (simp add: Create2_def Let_def create_is_atomic [OF assms])
qed

lemma evm_calls_move: "calls_move keeps (evm_calls n env)"
proof (induction n)
  case 0
  then show ?case by (simp add: calls_move_def no_calls_def call_moves_def create_moves_def)
next
  case (Suc n)
  have a: "atomic (StateDB e) q \<Longrightarrow> call_moves keeps q e" for q e by (auto simp: atomic_def call_moves_def)
  have c: "create_atomic caller (StateDB e) q \<Longrightarrow> create_moves keeps q e" for caller q e by (auto simp: create_atomic_def create_moves_def)
  show ?case
    using a [OF Call_atomic [OF Suc]] a [OF CallCode_atomic [OF Suc]] a [OF DelegateCall_atomic [OF Suc]]
      a [OF StaticCall_atomic [OF Suc]] c [OF Create_atomic(1) [OF Suc]] c [OF Create_atomic(2) [OF Suc]]
    by (simp add: calls_move_def)
qed

end

end
