(* ===== verification/State_Vm.thy ===== *)
theory State_Vm
  imports State_Theorems Vm_Theorems Vm_Atomic "HOL-Library.Sublist"
begin

text \<open>
  The virtual machine on the journaled state: the state fulfils the contract \<open>revertible_db\<close>, so that failed calls
  and creations leave no trace in it.
\<close>

section \<open>The state keeps its snapshots\<close>

definition keeps_snapshots :: "state_env \<Rightarrow> StateDB_state \<Rightarrow> StateDB_state \<Rightarrow> bool" where
  "keeps_snapshots env s s' \<longleftrightarrow> (\<forall>sp. refines env s sp \<longrightarrow>
    (\<exists>sp'. refines env s' sp' \<and> prefix (sp_saved sp) (sp_saved sp') \<and> sp_next sp \<le> sp_next sp'))"

definition state_valid :: "state_env \<Rightarrow> StateDB_state \<Rightarrow> bool" where
  "state_valid env s \<longleftrightarrow> (\<exists>sp. refines env s sp)"

lemma keeps_put: "(\<And>sp. refines env s sp \<Longrightarrow> refines env s' (sp_put f sp)) \<Longrightarrow> keeps_snapshots env s s'"
  unfolding keeps_snapshots_def by (metis order_refl prefix_order.refl sp_put_def spec.select_convs(2,3) spec.surjective spec.update_convs(1))

lemma keeps_read: "(\<And>sp. refines env s sp \<Longrightarrow> rel_result (refines env) r (sp_get f sp)) \<Longrightarrow> keeps_snapshots env s (snd r)"
  unfolding keeps_snapshots_def by (metis order_refl prefix_order.refl rel_prod_sel snd_conv sp_get_def)

lemma view_refines: "refines env s sp \<Longrightarrow> view env s = sp_world sp"
  by (auto simp: refines_def refines_at_def)

lemma view_read:
  assumes "state_valid env s" "\<And>sp. refines env s sp \<Longrightarrow> rel_result (refines env) r (sp_get f sp)"
  shows "view env (snd r) = view env s"
proof -
  obtain sp where sp: "refines env s sp" using assms(1) by (auto simp: state_valid_def)
  then have "refines env (snd r) sp" using assms(2) [OF sp] by (simp add: rel_prod_sel sp_get_def)
  then show ?thesis using view_refines sp by simp
qed

text \<open>A revert to a snapshot after steps that kept it.\<close>

lemma takeWhile_prefix: "distinct (map fst (xs @ (i, w) # ys)) \<Longrightarrow>
    takeWhile (\<lambda>p. fst p \<noteq> i) (xs @ (i, w) # ys) = xs \<and> map_of (xs @ (i, w) # ys) i = Some w"
  by (induction xs) auto

lemma revert_snapshot:
  assumes "state_Snapshot s = (i, s1)" "keeps_snapshots env s1 s2" "state_RevertToSnapshot env i s2 = Inr s3" "refines env s sp"
  shows "\<exists>sp3. refines env s3 sp3 \<and> sp_saved sp3 = sp_saved sp \<and> sp_next sp \<le> sp_next sp3 \<and> sp_world sp3 = sp_world sp"
proof -
  have sn: "sp_Snapshot sp = (i, snd (sp_Snapshot sp))" "refines env s1 (snd (sp_Snapshot sp))"
    using refines_snapshot [OF assms(4)] assms(1) by (auto simp: rel_prod_sel prod_eq_iff)
  obtain sp2 where sp2: "refines env s2 sp2" "prefix (sp_saved (snd (sp_Snapshot sp))) (sp_saved sp2)"
      "sp_next (snd (sp_Snapshot sp)) \<le> sp_next sp2"
    using assms(2) sn(2) unfolding keeps_snapshots_def by blast
  obtain ys where ys: "sp_saved sp2 = sp_saved sp @ (i, sp_world sp) # ys" and nx: "sp_next sp + 1 \<le> sp_next sp2"
    using sp2(2,3) sn(1) by (auto simp: sp_Snapshot_def prefix_def)
  have "distinct (map fst (sp_saved sp2))" using sp2(1) revisions_ids(2) unfolding refines_def by blast
  then have t: "takeWhile (\<lambda>p. fst p \<noteq> i) (sp_saved sp2) = sp_saved sp" "map_of (sp_saved sp2) i = Some (sp_world sp)"
    using takeWhile_prefix [of "sp_saved sp" i "sp_world sp" ys] ys by simp_all
  have "sp_Revert i sp2 = Inr (sp2\<lparr> sp_world := sp_world sp, sp_saved := sp_saved sp \<rparr>)" by (simp add: sp_Revert_def t)
  then have "refines env s3 (sp2\<lparr> sp_world := sp_world sp, sp_saved := sp_saved sp \<rparr>)"
    using refines_revert [OF sp2(1), of i] assms(3) by simp
  then show ?thesis using nx by (intro exI [of _ "sp2\<lparr> sp_world := sp_world sp, sp_saved := sp_saved sp \<rparr>"]) simp
qed

lemmas statedb_laws = sdb.laws [unfolded statedb_ops_def spec_ops_def StateDB_ops.simps]
lemmas statedb_answers = sdb.answer_laws [unfolded statedb_ops_def spec_ops_def StateDB_ops.simps]

lemma state_Snapshot_keeps: "keeps_snapshots env s (snd (state_Snapshot s))"
proof -
  have "refines env (snd (state_Snapshot s)) (snd (sp_Snapshot sp))" if "refines env s sp" for sp
    using refines_snapshot [OF that] by (simp add: rel_prod_sel)
  moreover have "prefix (sp_saved sp) (sp_saved (snd (sp_Snapshot sp)))" "sp_next sp \<le> sp_next (snd (sp_Snapshot sp))" for sp
    by (simp_all add: sp_Snapshot_def)
  ultimately show ?thesis unfolding keeps_snapshots_def by blast
qed

lemma refund_keeps:
  assumes "state_SubRefund g s = Inr s'"
  shows "keeps_snapshots env s s'"
proof (rule keeps_put [where f = "\<lambda>w. w\<lparr> w_refund := w_refund w - g \<rparr>"])
  fix sp assume "refines env s sp"
  from refines_SubRefund [OF this, of g] show "refines env s' (sp_put (\<lambda>w. w\<lparr> w_refund := w_refund w - g \<rparr>) sp)"
    using assms by (auto simp: sp_SubRefund_def split: if_splits)
qed

lemma vm_db_set: "vm_db (env\<lparr> vm_db := db \<rparr>) = db"
  by simp

interpretation sdb_vm: revertible_db "env\<lparr> vm_db := statedb_ops senv \<rparr>" "keeps_snapshots senv" "state_valid senv" "view senv" for env senv
proof (unfold_locales, unfold vm_db_set statedb_ops_def StateDB_ops.simps)
  let ?K = "keeps_snapshots senv"
  show "?K s s" for s by (auto simp: keeps_snapshots_def)
  show "?K s1 s2 \<Longrightarrow> ?K s2 s3 \<Longrightarrow> ?K s1 s3" for s1 s2 s3
    unfolding keeps_snapshots_def by (meson order_trans prefix_order.trans)
  show "?K s s' \<Longrightarrow> state_valid senv s \<Longrightarrow> state_valid senv s'" for s s'
    unfolding keeps_snapshots_def state_valid_def by blast
  show "?K s (snd (state_Snapshot s))" for s by (rule state_Snapshot_keeps)
  show "state_SubRefund g s = Inr s' \<Longrightarrow> ?K s s'" for g s s' by (rule refund_keeps)
  fix s s1 s2 s3 i
  assume r: "state_Snapshot s = (i, s1)" "?K s1 s2" "state_RevertToSnapshot senv i s2 = Inr s3"
  show "?K s s3" unfolding keeps_snapshots_def using revert_snapshot [OF r] prefix_order.refl by metis
  show "view senv s3 = view senv s" if "state_valid senv s"
    using that revert_snapshot [OF r] view_refines unfolding state_valid_def by metis
qed (rule keeps_put, erule statedb_laws | rule keeps_read, erule statedb_answers | erule view_read, erule statedb_answers)+

section \<open>Failed calls\<close>

lemma atomic_view: "sdb_vm.atomic senv s r \<Longrightarrow> state_valid senv s \<Longrightarrow> r = Inr (ret, g, Some err, e') \<Longrightarrow> view senv (StateDB e') = view senv s"
  by (simp add: sdb_vm.atomic_def)

text \<open>C4. A message call that ends with an error leaves the world as it was, for every code, input and depth of nested
  calls: balances, nonces, codes, storage, refunds, logs and preimages are those before the call, although value was
  transferred and contracts ran before the failure.\<close>

theorem failed_call_leaves_no_trace:
  assumes "vm_db env = statedb_ops senv" "state_valid senv (StateDB e)"
    "r \<in> {Call n (evm_calls m env) env caller addr input gas v e, CallCode n (evm_calls m env) env caller addr input gas v e,
      DelegateCall n (evm_calls m env) env caller addr input gas e, StaticCall n (evm_calls m env) env caller addr input gas e}"
    "r = Inr (ret, g, Some err, e')"
  shows "view senv (StateDB e') = view senv (StateDB e)"
proof -
  have env: "env\<lparr> vm_db := statedb_ops senv \<rparr> = env" using assms(1) by simp
  note cs = sdb_vm.evm_calls_move [of senv m env, unfolded env]
  note calls = sdb_vm.Call_atomic [of senv _ _ _ env, unfolded env, OF cs] sdb_vm.CallCode_atomic [of senv _ _ _ env, unfolded env, OF cs]
    sdb_vm.DelegateCall_atomic [of senv _ _ _ env, unfolded env, OF cs] sdb_vm.StaticCall_atomic [of senv _ _ _ env, unfolded env, OF cs]
  have "sdb_vm.atomic senv (StateDB e) r" using assms(3) by (elim insertE emptyE) (simp_all only: calls)
  then show ?thesis using assms(2,4) by (rule atomic_view)
qed

text \<open>A state with one rich account, and a machine on it in which the contract at address 1 always fails.\<close>

definition rich_state :: StateDB_state where
  "rich_state = state_AddBalance empty_env 7 100 empty_state"

definition failing_env :: "StateDB_state Env" where
  "failing_env = \<lparr> vm_db = statedb_ops empty_env, GetHash = (\<lambda>_. 0), Origin = 7, GasPrice = 1, e_Coinbase = 0, GasLimit = 1000000,
    BlockNumber = 10, e_Time = 1000, e_Difficulty = 1, chainConfig = loop_config, NoRecursion = False,
    EnablePreimageRecording = False, vm_keccak = (\<lambda>_. 0), PrecompiledContractsHomestead = (\<lambda>_. None),
    PrecompiledContractsByzantium =
      (\<lambda>a. if a = 1 then Some \<lparr> RequiredGas = (\<lambda>_. 10), p_Run = (\<lambda>_. ([], Some ErrOutOfGas)) \<rparr> else None) \<rparr>"

definition rich_evm :: "StateDB_state EVM" where
  "rich_evm = \<lparr> StateDB = rich_state, depth = 0, evm_abort = False, callGasTemp = 0, readOnly = False, returnData = [], jumpdests = [] \<rparr>"

lemma rich_valid: "state_valid empty_env rich_state"
  using sdb.AddBalance_law [OF new_state_refines [OF empty_state_ok], of 7 100]
  by (auto simp: state_valid_def rich_state_def statedb_ops_def)

lemma rich_balance: "fst (state_GetBalance empty_env 7 rich_state) = 100"
proof -
  let ?sp = "sp_put (w_AddBalance empty_env 7 100) \<lparr> sp_world = view empty_env empty_state, sp_saved = [], sp_next = 0 \<rparr>"
  have "refines empty_env rich_state ?sp"
    using sdb.AddBalance_law [OF new_state_refines [OF empty_state_ok], of 7 100] by (simp add: rich_state_def statedb_ops_def spec_ops_def)
  from refines_reads(1) [OF this reads_queries(1) [of empty_env rich_state 7]] show ?thesis
    by (simp add: sp_put_def w_AddBalance_def w_ensure_def w_mod_def w_put_def w_get_def w_new_def empty_view)
qed

text \<open>A revert to a snapshot that was kept does not panic.\<close>

lemma revert_succeeds:
  assumes "state_valid env s" "state_Snapshot s = (i, s1)" "keeps_snapshots env s1 s2"
  shows "\<exists>s3. state_RevertToSnapshot env i s2 = Inr s3"
proof -
  obtain sp where sp: "refines env s sp" using assms(1) by (auto simp: state_valid_def)
  have sn: "sp_Snapshot sp = (i, snd (sp_Snapshot sp))" "refines env s1 (snd (sp_Snapshot sp))"
    using refines_snapshot [OF sp] assms(2) by (auto simp: rel_prod_sel prod_eq_iff)
  obtain sp2 where sp2: "refines env s2 sp2" "prefix (sp_saved (snd (sp_Snapshot sp))) (sp_saved sp2)"
    using assms(3) sn(2) unfolding keeps_snapshots_def by blast
  then have "i \<in> fst ` set (sp_saved sp2)" using sn(1) by (auto simp: sp_Snapshot_def prefix_def)
  then obtain w where "map_of (sp_saved sp2) i = Some w" by (metis map_of_eq_None_iff not_None_eq)
  then show ?thesis using refines_revert [OF sp2(1), of i] by (auto simp: sp_Revert_def rel_sum.simps)
qed

lemma failing_call:
  "\<exists>e'. Call 10 (evm_calls 10 failing_env) failing_env (AccountRef 7) 1 [] 1000 5 rich_evm = Inr ([], 0, Some ErrOutOfGas, e')"
proof -
  let ?env = failing_env and ?K = "keeps_snapshots empty_env"
  have db: "vm_db ?env = statedb_ops empty_env" by (simp add: failing_env_def)
  have env: "?env\<lparr> vm_db := statedb_ops empty_env \<rparr> = ?env" by (simp add: failing_env_def)
  obtain t e1 where t: "ask_db (CanTransfer ?env 7 5) rich_evm = (t, e1)" by fastforce
  obtain i e2 where i: "ask_db (db_Snapshot (vm_db ?env)) e1 = (i, e2)" by fastforce
  obtain x e3 where x: "ask_db (db_Exist (vm_db ?env) 1) e2 = (x, e3)" by fastforce
  define e4 where "e4 = (if x then e3 else on_db (db_CreateAccount (vm_db ?env) 1) e3)"
  obtain c e6 where l: "load_code ?env 1 (NewContract (AccountRef 7) 1 (Some 5) 1000)
      (enter (AccountRef 7) (on_db (Transfer ?env 7 1 5) e4)) = (c, e6)" by fastforce
  have tt: t using t rich_balance
    by (auto simp: ask_db_def CanTransfer_def db statedb_ops_def rich_evm_def split: prod.splits)
  have p: "precompiles ?env 1 = Some \<lparr> RequiredGas = (\<lambda>_. 10), p_Run = (\<lambda>_. ([], Some ErrOutOfGas)) \<rparr>"
    by (simp add: precompiles_def failing_env_def IsByzantium_def isForked_def loop_config_def)
  have c: "CodeAddr c = Some 1" "Gas c = 1000" using l load_code_gas [OF l]
    by (auto simp: load_code_def SetCallCode_def NewContract_def split: prod.splits)
  have run: "\<exists>c1. evm_run 10 (evm_calls 10 ?env) ?env c [] False e6 = Inr ([], Some ErrOutOfGas, c1, e6)"
    by (simp add: evm_run_def c p RunPrecompiledContract_def UseGas_def)
  have k: "?K (StateDB e2) (StateDB e3)" using sdb_vm.ask_db_db [OF x] sdb_vm.keeps_reads(9) [where env = ?env and senv = empty_env, unfolded env] by simp
  then have "?K (StateDB e2) (StateDB e4)" using sdb_vm.after(1) [where env = ?env and senv = empty_env, unfolded env] by (simp add: e4_def)
  then have "?K (StateDB e2) (StateDB e6)"
    by (intro sdb_vm.load_code_keeps [where env = ?env and senv = empty_env, unfolded env, OF l])
      (simp add: sdb_vm.Transfer_keeps [where env = ?env and senv = empty_env, unfolded env])
  moreover have "state_Snapshot (StateDB e1) = (i, StateDB e2)" using i by (auto simp: ask_db_def db statedb_ops_def split: prod.splits)
  moreover have "state_valid empty_env (StateDB e1)"
    using sdb_vm.keeps_ok [OF _ rich_valid] sdb_vm.keeps_reads(1) [where env = ?env and senv = empty_env, unfolded env] t
    by (auto simp: ask_db_def CanTransfer_def rich_evm_def split: prod.splits) (metis snd_conv)+
  ultimately obtain s3 where "state_RevertToSnapshot empty_env i (StateDB e6) = Inr s3" using revert_succeeds by blast
  then have "revert_db ?env i e6 = Inr (e6\<lparr> StateDB := s3 \<rparr>)" by (simp add: revert_db_def db statedb_ops_def)
  moreover have "NoRecursion ?env = False" "depth rich_evm = 0" by (simp_all add: failing_env_def rich_evm_def)
  ultimately show ?thesis using run tt t i x l p
    by (auto simp: Call_def e4_def [symmetric] leave_call_def UseGas_def)
qed

theorem failed_call_leaves_no_trace_witness:
  "\<exists>e'. Call 10 (evm_calls 10 failing_env) failing_env (AccountRef 7) 1 [] 1000 5 rich_evm = Inr ([], 0, Some ErrOutOfGas, e') \<and>
    view empty_env (StateDB e') = view empty_env rich_state"
proof -
  obtain e' where e': "Call 10 (evm_calls 10 failing_env) failing_env (AccountRef 7) 1 [] 1000 5 rich_evm = Inr ([], 0, Some ErrOutOfGas, e')"
    using failing_call by blast
  have "vm_db failing_env = statedb_ops empty_env" "state_valid empty_env (StateDB rich_evm)"
    using rich_valid by (simp_all add: failing_env_def rich_evm_def)
  from failed_call_leaves_no_trace [OF this _ refl, where n = 10 and m = 10 and caller = "AccountRef 7" and addr = 1 and input = "[]"
      and gas = 1000 and v = 5 and ret = "[]" and g = 0 and err = ErrOutOfGas and e' = e'] e'
  show ?thesis by (auto simp: rich_evm_def)
qed

section \<open>Failed creations\<close>

text \<open>What advancing the nonce of an account does to the world.\<close>

definition w_next_nonce :: "state_env \<Rightarrow> address \<Rightarrow> world \<Rightarrow> world" where
  "w_next_nonce env a w = w_SetNonce env a (w_get 0 v_nonce a w + 1) w"

lemma next_nonce:
  assumes "refines env s sp"
  shows "view env (state_SetNonce env a (fst (state_GetNonce env a s) + 1) (snd (state_GetNonce env a s))) = w_next_nonce env a (sp_world sp)"
proof -
  note r = refines_reads [OF assms reads_queries(2) [of env s a]]
  have "refines env (state_SetNonce env a (w_get 0 v_nonce a (sp_world sp) + 1) (snd (state_GetNonce env a s)))
      (sp_put (w_SetNonce env a (w_get 0 v_nonce a (sp_world sp) + 1)) sp)"
    using sdb.SetNonce_law [OF r(2)] by (simp add: statedb_ops_def spec_ops_def)
  from view_refines [OF this] show ?thesis using r(1) by (simp add: sp_put_def w_next_nonce_def)
qed

text \<open>C8. From the Homestead fork on, a creation that ends with an error leaves the world as it was, except that the nonce
  of the creator may have been advanced by one.\<close>

theorem failed_create_keeps_world:
  assumes "vm_db env = statedb_ops senv" "state_valid senv (StateDB e)" "IsHomestead (chainConfig env) (Some (BlockNumber env))"
    "r \<in> {Create n (evm_calls m env) env caller code gas v e, Create2 n (evm_calls m env) env caller code gas v salt e}"
    "r = Inr (ret, a, g, Some err, e')"
  shows "view senv (StateDB e') \<in> {view senv (StateDB e), w_next_nonce senv (ref_Address caller) (view senv (StateDB e))}"
proof -
  have env: "env\<lparr> vm_db := statedb_ops senv \<rparr> = env" using assms(1) by simp
  note cs = sdb_vm.evm_calls_move [of senv m env, unfolded env]
  have "sdb_vm.create_atomic senv env (ref_Address caller) (StateDB e) r"
    using assms(4) sdb_vm.Create_atomic [where env = env and senv = senv, unfolded env, OF cs] by (elim insertE emptyE) (simp_all only: env)
  moreover have ops: "db_GetNonce (statedb_ops senv) = state_GetNonce senv" "db_SetNonce (statedb_ops senv) = state_SetNonce senv"
    by (simp_all add: statedb_ops_def)
  ultimately have "view senv (StateDB e') = view senv (StateDB e) \<or> (\<exists>s0. sdb_vm.same_contents senv (StateDB e) s0 \<and>
      view senv (StateDB e') = view senv (state_SetNonce senv (ref_Address caller) (fst (state_GetNonce senv (ref_Address caller) s0) + 1)
        (snd (state_GetNonce senv (ref_Address caller) s0))))"
    using assms(2,3,5) ops unfolding sdb_vm.create_atomic_def by simp
  then show ?thesis
  proof (elim disjE exE conjE)
    fix s0
    assume s0: "sdb_vm.same_contents senv (StateDB e) s0" "view senv (StateDB e') = view senv (state_SetNonce senv (ref_Address caller)
        (fst (state_GetNonce senv (ref_Address caller) s0) + 1) (snd (state_GetNonce senv (ref_Address caller) s0)))"
    then have v: "view senv s0 = view senv (StateDB e)" "state_valid senv s0"
      using assms(2) sdb_vm.keeps_ok by (auto simp: sdb_vm.same_contents_def)
    then obtain sp where sp: "refines senv s0 sp" by (auto simp: state_valid_def)
    show ?thesis using s0(2) next_nonce [OF sp] view_refines [OF sp] v(1) by simp
  qed simp
qed

theorem failed_create_keeps_world_witness:
  "\<exists>e'. Create 10 (evm_calls 10 failing_env) failing_env (AccountRef 7) [] 1000 500 rich_evm =
      Inr ([], 0, 1000, Some ErrInsufficientBalance, e') \<and>
    view empty_env (StateDB e') \<in> {view empty_env rich_state, w_next_nonce empty_env 7 (view empty_env rich_state)}"
proof -
  have db: "vm_db failing_env = statedb_ops empty_env" "state_valid empty_env (StateDB rich_evm)"
      "IsHomestead (chainConfig failing_env) (Some (BlockNumber failing_env))"
    using rich_valid by (simp_all add: failing_env_def rich_evm_def IsHomestead_def isForked_def loop_config_def)
  obtain nonce e1 where n: "ask_db (db_GetNonce (vm_db failing_env) 7) rich_evm = (nonce, e1)" by fastforce
  obtain t e2 where t: "ask_db (CanTransfer failing_env 7 500) e1 = (t, e2)" by fastforce
  have "fst (state_GetBalance empty_env 7 (snd (state_GetNonce empty_env 7 rich_state))) = 100"
  proof -
    obtain sp where sp: "refines empty_env rich_state sp" using rich_valid by (auto simp: state_valid_def)
    note n = refines_reads(2) [OF sp reads_queries(2) [of empty_env rich_state 7]]
    show ?thesis using rich_balance refines_reads(1) [OF sp reads_queries(1) [of empty_env rich_state 7]]
        refines_reads(1) [OF n reads_queries(1) [of empty_env _ 7]] by simp
  qed
  then have "\<not> t" using n t
    by (auto simp: ask_db_def CanTransfer_def db(1) statedb_ops_def rich_evm_def split: prod.splits)
  moreover have "depth e1 = 0" using n by (auto simp: ask_db_def rich_evm_def split: prod.splits)
  ultimately have c: "Create 10 (evm_calls 10 failing_env) failing_env (AccountRef 7) [] 1000 500 rich_evm =
      Inr ([], 0, 1000, Some ErrInsufficientBalance, e2)"
    using n t by (simp add: Create_def create_def)
  from failed_create_keeps_world [OF db _ this, where n = 10 and m = 10 and caller = "AccountRef 7" and code = "[]"
      and gas = 1000 and v = 500] c
  show ?thesis by (simp add: rich_evm_def)
qed

end
