(* ===== verification/Spec2Isabelle.thy ===== *)
theory Spec2Isabelle
  imports Rlp_Spec Clique_Theorems Vm_Theorems Trie_Theorems State_Theorems State_Vm
begin

text \<open>
  A verification development for the bcschain node (a GoChain client written in Go; file names are relative to
  \<open>src/\<close>).  A node keeps a chain of block headers sealed by a set of authorized signers (proof of authority), stores
  accounts in Merkle Patricia tries and executes contract code in a virtual machine; values are exchanged and hashed in
  the RLP encoding.  These parts are modelled here as functions translated from the source, and the theorems state what
  makes them correct.

  \<^bold>\<open>Conventions.\<close>  Go's \<open>byte\<close>, \<open>uint16\<close> and \<open>uint64\<close> are words of their width, addresses and hashes words of 160 and
  256 bits in big-endian reading, \<open>*big.Int\<close> is \<open>int\<close> (an option where \<open>nil\<close> matters), a slice is a list, a map an
  association list with its iteration order.  A function that can panic returns \<open>'a exec = abort + 'a\<close>, with \<open>GoPanic\<close>
  for the panic and \<open>FuelExhausted\<close> where a loop or a nesting is bounded by fuel; errors the code returns are values
  of error datatypes.  Code of other modules (Keccak-256, signatures, LRU caches, the disk database, precompiled contracts)
  is an argument of the definitions that call it.

  \<^bold>\<open>Theories and sources.\<close>
  \<^item> \<open>Go_Prelude\<close>: the Go types, maps and results; \<open>Common\<close>: \<open>common/types.go\<close>, \<open>common/bytes.go\<close>, \<open>common/math\<close>.
  \<^item> \<open>Rlp\<close>: the encode buffer of \<open>rlp/encode.go\<close> with its list heads, and the splitting functions of \<open>rlp/raw.go\<close>.
    \<open>encbuf_output\<close> shows that the two-pass encoder writes the recursive encoding \<open>enc\<close>, \<open>Split_enc\<close> and
    \<open>CountValues_enc\<close> that splitting and counting undo it, \<open>enc_inj\<close> that encodings are unambiguous.  \<open>Rlp_Spec\<close> states the
    RLP format apart from the code (\<open>spec_rlp\<close>) and shows that the encoder writes it (\<open>encoder_spec\<close>).
  \<^item> \<open>Params\<close>: \<open>params/config.go\<close>, \<open>gas_table.go\<close>, \<open>protocol_params.go\<close>, with the agreement of two configurations
    (\<open>configs_agree\<close>) that the compatibility check decides; \<open>Types\<close>: headers of \<open>core/types/block.go\<close>.
  \<^item> \<open>Clique_Snapshot\<close>, \<open>Clique_Engine\<close>: the voting snapshot (\<open>consensus/clique/snapshot.go\<close>) and the engine (\<open>clique.go\<close>,
    \<open>api.go\<close>) with retrieval of snapshots, verification, preparation and sealing of headers.  \<open>Clique_Voting\<close> has the lemmas on
    votes, tallies and difficulties, \<open>Clique_Theorems\<close> the properties: a prepared block is accepted, the invariant of snapshots,
    the seal covers the header, difficulties, termination of the retrieval.  Its fuel bounds the nesting of
    \<open>snapshot\<close>; one level is enough.
  \<^item> \<open>Vm_Base\<close>, \<open>Vm_Instructions\<close>, \<open>Vm_Gas\<close>, \<open>Vm_Interpreter\<close>: the virtual machine (\<open>core/vm\<close>): code analysis, memory, contracts,
    every instruction, every gas and memory size function, the four instruction tables, the loop of \<open>Run\<close>, calls and
    creations.  The state database is the record \<open>StateDB_ops\<close>, as in \<open>core/vm/interface.go\<close>.  \<open>Vm_Charges\<close> shows what an
    instruction charges, \<open>Vm_Termination\<close> that an execution ends: the fuel of the loop and of the nesting of calls need
    only exceed the gas, because every iteration that continues uses gas and a nested call gets less gas than its caller has.
    \<open>Vm_Theorems\<close> has the properties.
  \<^item> \<open>Trie_Encoding\<close>, \<open>Trie_Node\<close>, \<open>Trie_Core\<close>, \<open>Trie_Hash\<close>: the Merkle Patricia trie (\<open>trie/encoding.go\<close>, \<open>node.go\<close>, \<open>trie.go\<close>,
    \<open>hasher.go\<close> and the node forms of \<open>database.go\<close>).  \<open>Trie_Spec\<close> defines the abstract tries, their minimal form and the relation
    between the nodes in memory and in the database and an abstract trie, and shows that the content determines
    the minimal trie.  \<open>Trie_Map\<close> shows that lookup, insertion and deletion implement a map, through the locale
    \<open>byte_store\<close> interpreted on the trie's operations; the fuel \<open>trie_fuel\<close> grows with the key and is enough.
    \<open>Trie_Root\<close> shows that hashing and committing compute the hash of the minimal trie, and that the hash determines the
    content if the hash function has no collision on the encodings involved.  \<open>Trie_Theorems\<close> has the properties.
  \<^item> This theory has the properties of the encoder and of the chain configuration.
  \<^item> \<open>State_Object\<close>, \<open>State_DB\<close>, \<open>State_Commit\<close>: the world state (\<open>core/state/state_object.go\<close>, \<open>journal.go\<close>, \<open>statedb.go\<close>,
    \<open>database.go\<close>) over tries with hashed keys (\<open>trie/secure_trie.go\<close>): accounts and their encoding, objects that
    cache an account, its code and its storage, the journal of changes, snapshots and reverts, opening, copying, finalising
    and committing a state.  An object that the code changes through a pointer is put back into the map of objects.  The nodes of the
    trie database, the codes by hash and the reflective decoder of accounts are parameters (\<open>state_env\<close>).  The trie operations
    panic only on a malformed tree; the state model reports that as a missing node.
    \<open>State_View\<close> defines what a state means: a \<open>world\<close> of accounts, refund, logs and preimages.  \<open>State_Journal\<close> shows that undoing a
    journal entry restores the world before it, \<open>State_Spec\<close> and \<open>State_Refine\<close> that every operation makes its change of the world and
    journals how to undo it.  \<open>State_Machine\<close> defines the machine on worlds with saved copies as snapshots and shows,
    through the locale \<open>db_refinement\<close> interpreted on the two, that the state implements it.  \<open>State_Account\<close> has the
    lemmas on the encoding of accounts, \<open>State_Theorems\<close> the properties.
  \<^item> \<open>Vm_Atomic\<close> states as the locale \<open>revertible_db\<close> what the virtual machine needs of the snapshots of its database and shows that
    then a failed call or creation leaves the contents as they were; \<open>State_Vm\<close> interprets it on the journaled state.
  \<^bold>\<open>Not modelled.\<close>  Networking, RPC, wallets, the command line, logging and metrics are I/O.  The reflection by which
  \<open>rlp\<close> selects a writer or reader for a Go type is represented by the datatype \<open>rlp_value\<close>; stream decoding
  (\<open>rlp/decode.go\<close>) is not modelled.  Cryptographic functions are parameters.
  Of the world state, proofs, iteration over storage, dumps and the cache of code sizes are left out.  Of the trie, iterators, proofs
  and the download scheduler are not modelled, and of its database the reference counting and flushing.  Block processing, the transaction
  pool and the chain itself are not modelled; the clique engine reads headers through a chain reader that is a parameter.  Of the virtual
  machine the tracers and the pool of big integers are left out, which do not influence results.
\<close>

section \<open>RLP\<close>

text \<open>C11. The encoder of \<open>rlp/encode.go\<close>, which collects string data and list heads separately and
  weaves them together in \<open>toBytes\<close> and \<open>toWriter\<close>, writes every value without a negative integer in
  the RLP format, specified apart from the code, and reports an error for every other value.\<close>

theorem rlp_encoder_correct:
  assumes "length (spec_rlp (spec_item v)) < 2 ^ 64"
  shows "EncodeToBytes v = (if encodable v then Inr (spec_rlp (spec_item v)) else Inl ErrNegativeBigInt) \<and>
    Encode v = (if encodable v then Inr (spec_rlp (spec_item v)) else Inl ErrNegativeBigInt)"
  using encoder_spec [OF assms] by simp

theorem rlp_encoder_correct_witness:
  "let v = VList [VBytes [0x63, 0x61, 0x74], VUint 1024, VList [VBytes (replicate 56 7), VBig None]];
       b = [0xF8, 0x44, 0x83, 0x63, 0x61, 0x74, 0x82, 0x04, 0x00, 0xF8, 0x3B, 0xB8, 0x38] @ replicate 56 7 @ [0x80]
   in spec_rlp (spec_item v) = b \<and> encodable v \<and> EncodeToBytes v = Inr b \<and> Encode v = Inr b"
proof -
  let ?v = "VList [VBytes [0x63, 0x61, 0x74], VUint 1024, VList [VBytes (replicate 56 7), VBig None]]"
  let ?b = "[0xF8, 0x44, 0x83, 0x63, 0x61, 0x74, 0x82, 0x04, 0x00, 0xF8, 0x3B, 0xB8, 0x38] @ replicate 56 7 @ [0x80] :: bytes"
  have s: "spec_be 1024 = [4, 0]" "spec_be 56 = [56]" "spec_be 59 = [59]" "spec_be 68 = [68]"
    by (simp_all add: spec_be.simps)
  have "\<not> (\<exists>x. replicate 56 7 = [x :: byte])" using length_replicate [of 56 "7 :: byte"] by (auto simp del: length_replicate)
  then have r: "spec_rlp (Str (replicate 56 7)) = [0xB8, 0x38] @ replicate 56 7"
    by (simp add: spec_head_def s)
  have b: "spec_rlp (spec_item ?v) = ?b"
    using r by (simp add: spec_head_def s)
  have "encodable ?v" by simp
  then show ?thesis using rlp_encoder_correct [of ?v] unfolding b Let_def by (simp)
qed

text \<open>C12. \<open>Split\<close> on an encoded value followed by any bytes gives back the kind of the value, its
  content and those bytes; in particular it reports no error and does not panic.\<close>

theorem rlp_split_roundtrip:
  assumes "length (enc v @ rest) < 2 ^ 64"
  shows "Split (enc v @ rest) = Inr (item_kind v, item_content v, rest)"
  using assms by (rule Split_enc)

theorem rlp_split_roundtrip_witness:
  "Split ([0xC2, 0x01, 0x02] @ [0x07]) = Inr (List_kind, [0x01, 0x02], [0x07])"
proof -
  have e: "enc (Lst [Str [1], Str [2]]) = [0xC2, 0x01, 0x02]"
    by (simp add: encodeString_def puthead_def Let_def)
  have c: "item_content (Lst [Str [1], Str [2]]) = [1, 2]" by (simp add: encodeString_def)
  show ?thesis using rlp_split_roundtrip [of "Lst [Str [1], Str [2]]" "[7]"] unfolding e c by simp
qed

text \<open>C18. \<open>CountValues\<close> terminates on a sequence of encoded values and counts them.\<close>

theorem rlp_count_values:
  assumes "length (concat (map enc vs)) < 2 ^ 64"
  shows "CountValues (concat (map enc vs)) = Some (Inr (length vs))"
  using assms by (rule CountValues_enc)

theorem rlp_count_values_witness: "CountValues [0x80, 0x05] = Some (Inr 2)"
proof -
  have e: "concat (map enc [Str [], Str [5]]) = [0x80, 0x05]"
    by (simp add: encodeString_def encodeStringHeader_def)
  show ?thesis using rlp_count_values [of "[Str [], Str [5]]"] unfolding e by simp
qed

section \<open>Chain configuration\<close>

text \<open>C21. \<open>CheckCompatible\<close> always returns.  It reports no error exactly if the two configurations have
  each fork, as far as blocks up to the height go, at the same block, and the same chain ID once
  EIP158 is active.  The block it asks to rewind to is not above the height and is either the genesis
  block or one up to which the configurations agree.\<close>

theorem config_check_compatible:
  "\<exists>r. CheckCompatible c newcfg height = Some r \<and>
    (case r of
       None \<Rightarrow> configs_agree (uint height) c newcfg
     | Some e \<Rightarrow> \<not> configs_agree (uint height) c newcfg \<and> uint (RewindTo e) \<le> uint height \<and>
         (RewindTo e = 0 \<or> configs_agree (uint (RewindTo e)) c newcfg))"
  using CheckCompatible_returns [of c newcfg height] by (auto simp: checkCompatible_iff split: option.split)

end
